(* ===== verification/Prelude.thy ===== *)
theory Prelude
  imports Main "HOL-Library.List_Lexorder" "HOL-Library.Char_ord" "HOL-Library.Word"
begin

text \<open>
  What every component shares: the error type and the early-return operator,
  the pieces of Rust's standard library the sources use on strings (byte
  strings in UTF-8), the ordered map \<open>BTreeMap\<close> as an association list in key
  order, the stable \<open>sort_by\<close>, and the interfaces (locales) for the map and for
  comparators, interpreted here on the definitions that provide them.
\<close>

named_theorems result_simps \<open>unfolding of the early-return operator on known results\<close>
named_theorems string_simps \<open>facts about the string operations of the standard library\<close>
named_theorems map_simps \<open>lookup laws of the ordered map\<close>

section \<open>Results\<close>

text \<open>
  \<open>RototoError\<close> is one struct with one field, the message (src/src/error.rs);
  \<open>Result<T>\<close> is a sum with the error on the left. \<open>rbind\<close> is the \<open>?\<close> operator. A panic
  unwinds through every caller, so it travels the same way: \<open>Panicked\<close> is not a value of
  the program's error type but the end of the thread.
\<close>

datatype rototo_error = RototoError (message: string) | Panicked

type_synonym 'a res = "rototo_error + 'a"

definition err :: "string \<Rightarrow> 'a res" where
  "err m = Inl (RototoError m)"

definition rbind :: "'e + 'a \<Rightarrow> ('a \<Rightarrow> 'e + 'b) \<Rightarrow> 'e + 'b" where
  "rbind r f = (case r of Inl e \<Rightarrow> Inl e | Inr x \<Rightarrow> f x)"

lemma rbind_Inl [simp, result_simps]: "rbind (Inl e) f = Inl e"
  by (simp add: rbind_def)

lemma rbind_Inr [simp, result_simps]: "rbind (Inr x) f = f x"
  by (simp add: rbind_def)

lemma rbind_eq_Inr: "rbind r f = Inr y \<longleftrightarrow> (\<exists>x. r = Inr x \<and> f x = Inr y)"
  by (cases r) auto

lemma err_not_Inr [simp, result_simps]: "err m \<noteq> Inr x" "Inr x \<noteq> err m"
  by (simp_all add: err_def)

definition is_ok :: "'e + 'a \<Rightarrow> bool" where
  "is_ok r = (case r of Inl _ \<Rightarrow> False | Inr _ \<Rightarrow> True)"

lemma is_ok_simps [simp, result_simps]:
  "is_ok (Inr x)" "\<not> is_ok (Inl e)" "\<not> is_ok (err m)"
  by (simp_all add: is_ok_def err_def)

lemma is_ok_ex: "is_ok r \<longleftrightarrow> (\<exists>x. r = Inr x)"
  by (cases r) auto

text \<open>\<open>iter().map(f).collect::<Result<Vec<_>>>()\<close>: stops at the first error.\<close>

fun traverse :: "('a \<Rightarrow> 'e + 'b) \<Rightarrow> 'a list \<Rightarrow> 'e + 'b list" where
  "traverse f [] = Inr []"
| "traverse f (x # xs) = rbind (f x) (\<lambda>y. rbind (traverse f xs) (\<lambda>ys. Inr (y # ys)))"

lemma traverse_Inr_iff:
  "traverse f xs = Inr ys \<longleftrightarrow> list_all2 (\<lambda>x y. f x = Inr y) xs ys"
  by (induction xs arbitrary: ys) (auto simp: rbind_eq_Inr list_all2_Cons1)

lemma traverse_cong [fundef_cong]:
  "xs = ys \<Longrightarrow> (\<And>x. x \<in> set ys \<Longrightarrow> f x = g x) \<Longrightarrow> traverse f xs = traverse g ys"
  by (induction xs arbitrary: ys) auto

text \<open>A \<open>for\<close> loop whose body only checks: the first error ends it.\<close>

fun check_all :: "('a \<Rightarrow> 'e + unit) \<Rightarrow> 'a list \<Rightarrow> 'e + unit" where
  "check_all f [] = Inr ()"
| "check_all f (x # xs) = rbind (f x) (\<lambda>_. check_all f xs)"

lemma check_all_Inr_iff: "check_all f xs = Inr u \<longleftrightarrow> (\<forall>x \<in> set xs. f x = Inr ())"
  by (induction xs) (auto simp: rbind_eq_Inr)

lemma check_all_append:
  "check_all f (xs @ ys) = rbind (check_all f xs) (\<lambda>_. check_all f ys)"
  by (induction xs) (auto simp: rbind_def split: sum.splits)

section \<open>Strings\<close>

text \<open>A Rust string is its UTF-8 bytes; a \<open>char\<close> here is one byte.\<close>

fun strip_prefix :: "string \<Rightarrow> string \<Rightarrow> string option" where
  "strip_prefix [] s = Some s"
| "strip_prefix (p # ps) [] = None"
| "strip_prefix (p # ps) (x # xs) = (if p = x then strip_prefix ps xs else None)"

definition strip_suffix :: "string \<Rightarrow> string \<Rightarrow> string option" where
  "strip_suffix p s = map_option rev (strip_prefix (rev p) (rev s))"

definition starts_with :: "string \<Rightarrow> string \<Rightarrow> bool" where
  "starts_with p s = (strip_prefix p s \<noteq> None)"

definition ends_with :: "string \<Rightarrow> string \<Rightarrow> bool" where
  "ends_with p s = (strip_suffix p s \<noteq> None)"

lemma strip_prefix_Some_iff [string_simps]: "strip_prefix p s = Some r \<longleftrightarrow> s = p @ r"
  by (induction p s rule: strip_prefix.induct) auto

lemma strip_prefix_append [simp]: "strip_prefix p (p @ r) = Some r"
  by (simp add: strip_prefix_Some_iff)

lemma strip_prefix_None_iff: "strip_prefix p s = None \<longleftrightarrow> (\<nexists>r. s = p @ r)"
  using strip_prefix_Some_iff [of p s] by (cases "strip_prefix p s") auto

lemma strip_suffix_Some_iff [string_simps]: "strip_suffix p s = Some r \<longleftrightarrow> s = r @ p"
proof -
  have "strip_suffix p s = Some r \<longleftrightarrow> rev s = rev p @ rev r"
    by (auto simp: strip_suffix_def strip_prefix_Some_iff rev_swap)
  also have "\<dots> \<longleftrightarrow> s = r @ p"
    by (metis rev_append rev_rev_ident)
  finally show ?thesis .
qed

lemma starts_with_iff [string_simps]: "starts_with p s \<longleftrightarrow> (\<exists>r. s = p @ r)"
  unfolding starts_with_def not_None_eq strip_prefix_Some_iff by blast

lemma ends_with_iff [string_simps]: "ends_with p s \<longleftrightarrow> (\<exists>r. s = r @ p)"
  unfolding ends_with_def not_None_eq strip_suffix_Some_iff by blast

text \<open>\<open>str::split_once\<close> with a character, \<open>str::rsplit_once\<close>, \<open>str::split\<close>.\<close>

fun split_once :: "char \<Rightarrow> string \<Rightarrow> (string \<times> string) option" where
  "split_once c [] = None"
| "split_once c (x # xs) =
     (if x = c then Some ([], xs)
      else (case split_once c xs of None \<Rightarrow> None | Some (a, b) \<Rightarrow> Some (x # a, b)))"

definition rsplit_once :: "char \<Rightarrow> string \<Rightarrow> (string \<times> string) option" where
  "rsplit_once c s =
     (case split_once c (rev s) of None \<Rightarrow> None | Some (a, b) \<Rightarrow> Some (rev b, rev a))"

fun split_on :: "char \<Rightarrow> string \<Rightarrow> string list" where
  "split_on c [] = [[]]"
| "split_on c (x # xs) =
     (if x = c then [] # split_on c xs
      else (case split_on c xs of [] \<Rightarrow> [[x]] | y # ys \<Rightarrow> (x # y) # ys))"

fun join_with :: "string \<Rightarrow> string list \<Rightarrow> string" where
  "join_with sep [] = []"
| "join_with sep [x] = x"
| "join_with sep (x # xs) = x @ sep @ join_with sep xs"

lemma split_once_Some_iff [string_simps]:
  "split_once c s = Some (a, b) \<longleftrightarrow> s = a @ c # b \<and> c \<notin> set a"
proof (induction s arbitrary: a)
  case (Cons x xs)
  show ?case
  proof (cases a)
    case Nil
    then show ?thesis by (cases "split_once c xs") auto
  next
    case (Cons y ys)
    then show ?thesis
      using Cons.IH [of ys] by (cases "split_once c xs") (auto simp: Cons.IH)
  qed
qed simp

lemma split_once_None_iff [string_simps]: "split_once c s = None \<longleftrightarrow> c \<notin> set s"
  by (induction s) (auto split: option.splits)

lemma split_once_append [simp]: "c \<notin> set a \<Longrightarrow> split_once c (a @ c # b) = Some (a, b)"
  by (simp add: split_once_Some_iff)

lemma split_on_not_Nil [simp]: "split_on c s \<noteq> []"
  by (induction s) (auto split: list.splits)

lemma join_with_Cons: "xs \<noteq> [] \<Longrightarrow> join_with sep (x # xs) = x @ sep @ join_with sep xs"
  by (cases xs) auto

lemma join_split_on [simp]: "join_with [c] (split_on c s) = s"
proof (induction s)
  case (Cons x xs)
  show ?case
  proof (cases "x = c")
    case True
    with Cons show ?thesis by (simp add: join_with_Cons)
  next
    case False
    obtain y ys where "split_on c xs = y # ys"
      by (meson neq_Nil_conv split_on_not_Nil)
    with False Cons show ?thesis by (cases ys) auto
  qed
qed simp

lemma split_on_pieces: "y \<in> set (split_on c s) \<Longrightarrow> c \<notin> set y"
proof (induction s arbitrary: y)
  case (Cons x xs)
  then show ?case by (auto split: if_splits list.splits)
qed simp

lemma split_on_no_sep [simp]: "c \<notin> set s \<Longrightarrow> split_on c s = [s]"
  by (induction s) auto

lemma split_on_append_sep: "c \<notin> set a \<Longrightarrow> split_on c (a @ c # b) = a # split_on c b"
  by (induction a) auto

lemma split_on_join:
  "xs \<noteq> [] \<Longrightarrow> \<forall>x \<in> set xs. c \<notin> set x \<Longrightarrow> split_on c (join_with [c] xs) = xs"
proof (induction xs)
  case (Cons x xs)
  then show ?case by (cases xs) (auto simp: split_on_append_sep)
qed simp

text \<open>\<open>str::find\<close> with a string pattern: the byte index of the first occurrence.\<close>

fun find_sub :: "string \<Rightarrow> string \<Rightarrow> nat option" where
  "find_sub p [] = (if p = [] then Some 0 else None)"
| "find_sub p (x # xs) =
     (if starts_with p (x # xs) then Some 0 else map_option Suc (find_sub p xs))"

definition contains_sub :: "string \<Rightarrow> string \<Rightarrow> bool" where
  "contains_sub p s = (find_sub p s \<noteq> None)"

lemma find_sub_Some: "find_sub p s = Some i \<Longrightarrow> \<exists>r. drop i s = p @ r"
proof (induction s arbitrary: i)
  case (Cons x xs)
  then show ?case by (auto simp: starts_with_iff split: if_splits)
qed (auto split: if_splits)

lemma find_sub_first: "find_sub p s = Some i \<Longrightarrow> j < i \<Longrightarrow> \<nexists>r. drop j s = p @ r"
proof (induction s arbitrary: i j)
  case (Cons x xs)
  then show ?case by (cases j) (auto simp: starts_with_iff split: if_splits)
qed (auto split: if_splits)

lemma find_sub_None_iff: "find_sub p s = None \<longleftrightarrow> (\<nexists>a r. s = a @ p @ r)"
proof (induction s)
  case (Cons x xs)
  show ?case
  proof (cases "starts_with p (x # xs)")
    case True
    then show ?thesis by (auto simp: starts_with_iff) (metis append_Nil)
  next
    case False
    then have "(\<nexists>a r. x # xs = a @ p @ r) \<longleftrightarrow> (\<nexists>a r. xs = a @ p @ r)"
      by (auto simp: starts_with_iff Cons_eq_append_conv)
    with False Cons show ?thesis by simp
  qed
qed simp

lemma contains_sub_iff [string_simps]: "contains_sub p s \<longleftrightarrow> (\<exists>a r. s = a @ p @ r)"
  using find_sub_None_iff [of p s] by (auto simp: contains_sub_def)

text \<open>\<open>str::split_once\<close> with a string pattern.\<close>

definition split_once_str :: "string \<Rightarrow> string \<Rightarrow> (string \<times> string) option" where
  "split_once_str p s =
     (case find_sub p s of None \<Rightarrow> None | Some i \<Rightarrow> Some (take i s, drop (i + length p) s))"

definition replace_char :: "char \<Rightarrow> string \<Rightarrow> string \<Rightarrow> string" where
  "replace_char c r s = concat (map (\<lambda>x. if x = c then r else [x]) s)"

text \<open>
  \<open>str::trim\<close> removes the characters with the Unicode property \<open>White_Space\<close>;
  these are their UTF-8 encodings.
\<close>

definition white_space :: "string list" where
  "white_space =
     [[CHR 0x09], [CHR 0x0A], [CHR 0x0B], [CHR 0x0C], [CHR 0x0D], [CHR 0x20],
      [CHR 0xC2, CHR 0x85], [CHR 0xC2, CHR 0xA0], [CHR 0xE1, CHR 0x9A, CHR 0x80],
      [CHR 0xE2, CHR 0x80, CHR 0x80], [CHR 0xE2, CHR 0x80, CHR 0x81],
      [CHR 0xE2, CHR 0x80, CHR 0x82], [CHR 0xE2, CHR 0x80, CHR 0x83],
      [CHR 0xE2, CHR 0x80, CHR 0x84], [CHR 0xE2, CHR 0x80, CHR 0x85],
      [CHR 0xE2, CHR 0x80, CHR 0x86], [CHR 0xE2, CHR 0x80, CHR 0x87],
      [CHR 0xE2, CHR 0x80, CHR 0x88], [CHR 0xE2, CHR 0x80, CHR 0x89],
      [CHR 0xE2, CHR 0x80, CHR 0x8A], [CHR 0xE2, CHR 0x80, CHR 0xA8],
      [CHR 0xE2, CHR 0x80, CHR 0xA9], [CHR 0xE2, CHR 0x80, CHR 0xAF],
      [CHR 0xE2, CHR 0x81, CHR 0x9F], [CHR 0xE3, CHR 0x80, CHR 0x80]]"

fun strip_any :: "string list \<Rightarrow> string \<Rightarrow> string option" where
  "strip_any [] s = None"
| "strip_any (w # ws) s = (case strip_prefix w s of Some r \<Rightarrow> Some r | None \<Rightarrow> strip_any ws s)"

fun trim_left :: "nat \<Rightarrow> string list \<Rightarrow> string \<Rightarrow> string" where
  "trim_left 0 ws s = s"
| "trim_left (Suc n) ws s = (case strip_any ws s of None \<Rightarrow> s | Some r \<Rightarrow> trim_left n ws r)"

text \<open>Each round removes a byte at least, so the length bounds the rounds.\<close>

definition trim_start :: "string \<Rightarrow> string" where
  "trim_start s = trim_left (length s) white_space s"

definition trim_end :: "string \<Rightarrow> string" where
  "trim_end s = rev (trim_left (length s) (map rev white_space) (rev s))"

definition trim :: "string \<Rightarrow> string" where
  "trim s = trim_end (trim_start s)"

text \<open>Decimal digits: \<open>u32::from_str\<close> and friends, and \<open>Display\<close> of an integer.\<close>

definition is_digit :: "char \<Rightarrow> bool" where
  "is_digit c = (48 \<le> (of_char c :: nat) \<and> (of_char c :: nat) \<le> 57)"

definition is_lower :: "char \<Rightarrow> bool" where
  "is_lower c = (97 \<le> (of_char c :: nat) \<and> (of_char c :: nat) \<le> 122)"

definition digit_val :: "char \<Rightarrow> nat" where
  "digit_val c = of_char c - 48"

definition digit_char :: "nat \<Rightarrow> char" where
  "digit_char d = char_of (48 + d)"

lemma of_char_digit_char [simp]: "d < 10 \<Longrightarrow> (of_char (digit_char d) :: nat) = 48 + d"
  by (simp add: digit_char_def)

lemma is_digit_digit_char [simp]: "d < 10 \<Longrightarrow> is_digit (digit_char d)"
  by (simp add: is_digit_def)

lemma digit_val_digit_char [simp]: "d < 10 \<Longrightarrow> digit_val (digit_char d) = d"
  by (simp add: digit_val_def)

fun digits_val :: "nat \<Rightarrow> string \<Rightarrow> nat option" where
  "digits_val acc [] = Some acc"
| "digits_val acc (c # cs) =
     (if is_digit c then digits_val (10 * acc + digit_val c) cs else None)"

text \<open>\<open>str::parse\<close> for an unsigned type with values below \<open>bound\<close>: an optional \<open>+\<close>,
  one digit at least, no overflow.\<close>

definition parse_unsigned :: "int \<Rightarrow> string \<Rightarrow> nat option" where
  "parse_unsigned bound s =
     (let ds = (case s of c # cs \<Rightarrow> if c = CHR ''+'' then cs else s | [] \<Rightarrow> s) in
      if ds = [] then None
      else (case digits_val 0 ds of
              None \<Rightarrow> None
            | Some n \<Rightarrow> if int n < bound then Some n else None))"

fun show_nat :: "nat \<Rightarrow> string" where
  "show_nat n = (if n < 10 then [digit_char n] else show_nat (n div 10) @ [digit_char (n mod 10)])"

declare show_nat.simps [simp del]

definition show_int :: "int \<Rightarrow> string" where
  "show_int i = (if i < 0 then CHR ''-'' # show_nat (nat (- i)) else show_nat (nat i))"

definition to_ascii_lower :: "string \<Rightarrow> string" where
  "to_ascii_lower = map (\<lambda>c. if 65 \<le> (of_char c :: nat) \<and> (of_char c :: nat) \<le> 90
     then char_of ((of_char c :: nat) + 32) else c)"

abbreviation quote :: string where
  "quote \<equiv> [CHR 0x22]"

abbreviation tick :: string where
  "tick \<equiv> [CHR 0x60]"

definition quoted :: "string \<Rightarrow> string" where
  "quoted s = tick @ s @ tick"

end
