(* ===== verification/Collections.thy ===== *)
theory Collections
  imports Prelude "HOL-Library.Multiset"
begin

text \<open>
  \<open>BTreeMap\<close> (and \<open>serde_json::Map\<close>, \<open>toml::Table\<close>, which are \<open>BTreeMap\<close>s in
  this build) as an association list in key order, \<open>BTreeSet\<close> as a list in
  order, and \<open>slice::sort_by\<close>, which is stable. The laws the components rely on
  are the locales \<open>ordered_map\<close> and \<open>comparator\<close>; both are interpreted here on
  the definitions of this theory, and \<open>comparator\<close> again where a component
  brings its own order.
\<close>

section \<open>Ordered maps\<close>

type_synonym ('k, 'v) bmap = "('k \<times> 'v) list"
type_synonym 'v smap = "(string, 'v) bmap"

abbreviation bm_get :: "('k, 'v) bmap \<Rightarrow> 'k \<Rightarrow> 'v option" where
  "bm_get \<equiv> map_of"

fun bm_insert :: "'k::linorder \<Rightarrow> 'v \<Rightarrow> ('k, 'v) bmap \<Rightarrow> ('k, 'v) bmap" where
  "bm_insert k v [] = [(k, v)]"
| "bm_insert k v ((k', v') # m) =
     (if k = k' then (k, v) # m
      else if k < k' then (k, v) # (k', v') # m
      else (k', v') # bm_insert k v m)"

definition bm_remove :: "'k \<Rightarrow> ('k, 'v) bmap \<Rightarrow> ('k, 'v) bmap" where
  "bm_remove k m = filter (\<lambda>kv. fst kv \<noteq> k) m"

definition bm_inv :: "('k::linorder, 'v) bmap \<Rightarrow> bool" where
  "bm_inv m = sorted_wrt (<) (map fst m)"

text \<open>\<open>Extend for BTreeMap\<close>: every binding of the second map is inserted in turn.\<close>

definition bm_extend :: "('k::linorder, 'v) bmap \<Rightarrow> ('k, 'v) bmap \<Rightarrow> ('k, 'v) bmap" where
  "bm_extend m n = fold (\<lambda>(k, v) acc. bm_insert k v acc) n m"

definition bm_of :: "('k::linorder \<times> 'v) list \<Rightarrow> ('k, 'v) bmap" where
  "bm_of kvs = bm_extend [] kvs"

locale ordered_map =
  fixes get :: "'m \<Rightarrow> 'k \<Rightarrow> 'v option"
    and ins :: "'k \<Rightarrow> 'v \<Rightarrow> 'm \<Rightarrow> 'm"
    and rem :: "'k \<Rightarrow> 'm \<Rightarrow> 'm"
    and inv :: "'m \<Rightarrow> bool"
  assumes get_ins: "get (ins k v m) = (get m)(k \<mapsto> v)"
    and get_rem: "get (rem k m) = (get m)(k := None)"
    and inv_ins: "inv m \<Longrightarrow> inv (ins k v m)"
    and inv_rem: "inv m \<Longrightarrow> inv (rem k m)"
begin

lemma get_fold_ins:
  "get (fold (\<lambda>(k, v) acc. ins k v acc) kvs m) = get m ++ map_of (rev kvs)"
  by (induction kvs arbitrary: m) (auto simp: get_ins map_add_upd_left map_add_def fun_eq_iff split: option.splits)

lemma inv_fold_ins: "inv m \<Longrightarrow> inv (fold (\<lambda>(k, v) acc. ins k v acc) kvs m)"
  by (induction kvs arbitrary: m) (auto simp: inv_ins)

lemma get_ins_other: "k \<noteq> k' \<Longrightarrow> get (ins k v m) k' = get m k'"
  by (simp add: get_ins)

lemma get_ins_same: "get (ins k v m) k = Some v"
  by (simp add: get_ins)

end

lemma fst_bm_insert: "fst ` set (bm_insert k v m) = insert k (fst ` set m)"
  by (induction k v m rule: bm_insert.induct) (auto simp: image_iff)

lemma map_of_bm_insert [map_simps]: "map_of (bm_insert k v m) = (map_of m)(k \<mapsto> v)"
  by (induction k v m rule: bm_insert.induct) (auto simp: fun_eq_iff)

lemma map_of_bm_remove [map_simps]: "map_of (bm_remove k m) = (map_of m)(k := None)"
  by (induction m) (auto simp: bm_remove_def fun_eq_iff)

lemma bm_inv_insert: "bm_inv m \<Longrightarrow> bm_inv (bm_insert k v m)"
proof (induction k v m rule: bm_insert.induct)
  case (2 k v k' v' m)
  have "fst ` set (bm_insert k v m) = insert k (fst ` set m)"
    by (rule fst_bm_insert)
  with 2 show ?case by (auto simp: bm_inv_def)
qed (simp add: bm_inv_def)

lemma bm_inv_remove: "bm_inv m \<Longrightarrow> bm_inv (bm_remove k m)"
  by (induction m) (auto simp: bm_inv_def bm_remove_def)

interpretation btree: ordered_map "map_of :: ('k::linorder, 'v) bmap \<Rightarrow> _" bm_insert bm_remove bm_inv
  by unfold_locales (auto simp: map_of_bm_insert map_of_bm_remove bm_inv_insert bm_inv_remove)

lemma bm_inv_Nil [simp]: "bm_inv []"
  by (simp add: bm_inv_def)

lemma bm_inv_distinct: "bm_inv m \<Longrightarrow> distinct (map fst m)"
  by (induction m) (auto simp: bm_inv_def)

lemma map_of_bm_extend [map_simps]: "bm_inv n \<Longrightarrow> map_of (bm_extend m n) = map_of m ++ map_of n"
proof -
  assume "bm_inv n"
  then have "map_of (rev n) = map_of n"
    by (intro map_of_inject_set [THEN iffD2]) (auto simp: bm_inv_distinct rev_map [symmetric])
  then show ?thesis by (simp add: bm_extend_def btree.get_fold_ins)
qed

lemma map_of_rev_keys: "map_of (rev kvs) k = None \<longleftrightarrow> k \<notin> fst ` set kvs"
  by (simp add: map_of_eq_None_iff)

lemma bm_inv_extend: "bm_inv m \<Longrightarrow> bm_inv (bm_extend m n)"
  by (simp add: bm_extend_def btree.inv_fold_ins)

lemma bm_inv_of [simp]: "bm_inv (bm_of kvs)"
  by (simp add: bm_of_def bm_inv_extend)

lemma map_of_bm_of: "map_of (bm_of kvs) = map_of (rev kvs)"
  by (simp add: bm_of_def bm_extend_def btree.get_fold_ins)

lemma bm_inv_tail: "bm_inv (kv # m) \<Longrightarrow> bm_inv m"
  by (simp add: bm_inv_def)

lemma fst_set_bm_of: "fst ` set (bm_of kvs) = fst ` set kvs"
proof -
  have "fst ` set (bm_extend m kvs) = fst ` set m \<union> fst ` set kvs" for m :: "('a \<times> 'b) list"
    unfolding bm_extend_def
  proof (induction kvs arbitrary: m)
    case (Cons kv kvs)
    then show ?case by (cases kv) (simp add: fst_bm_insert)
  qed simp
  then show ?thesis by (simp add: bm_of_def)
qed

section \<open>Ordered sets\<close>

text \<open>\<open>BTreeSet\<close>: the elements in increasing order, iterated in that order.\<close>

type_synonym 'a bset = "'a list"

fun bs_insert :: "'a::linorder \<Rightarrow> 'a bset \<Rightarrow> 'a bset" where
  "bs_insert x [] = [x]"
| "bs_insert x (y # ys) =
     (if x = y then y # ys else if x < y then x # y # ys else y # bs_insert x ys)"

lemma set_bs_insert [simp]: "set (bs_insert x xs) = insert x (set xs)"
  by (induction x xs rule: bs_insert.induct) auto

lemma bs_insert_sorted: "sorted_wrt (<) xs \<Longrightarrow> sorted_wrt (<) (bs_insert x xs)"
  by (induction x xs rule: bs_insert.induct) auto

section \<open>Stable sorting\<close>

text \<open>
  \<open>slice::sort_by\<close> is documented to be stable; with \<open>le a b\<close> for "\<open>cmp a b\<close> is not
  \<open>Greater\<close>", inserting each element before the first one it does not exceed,
  from the right, is that sort.
\<close>

fun insert_by :: "('a \<Rightarrow> 'a \<Rightarrow> bool) \<Rightarrow> 'a \<Rightarrow> 'a list \<Rightarrow> 'a list" where
  "insert_by le x [] = [x]"
| "insert_by le x (y # ys) = (if le x y then x # y # ys else y # insert_by le x ys)"

fun sort_by :: "('a \<Rightarrow> 'a \<Rightarrow> bool) \<Rightarrow> 'a list \<Rightarrow> 'a list" where
  "sort_by le [] = []"
| "sort_by le (x # xs) = insert_by le x (sort_by le xs)"

lemma mset_insert_by [simp]: "mset (insert_by le x xs) = add_mset x (mset xs)"
  by (induction xs) auto

lemma mset_sort_by [simp]: "mset (sort_by le xs) = mset xs"
  by (induction xs) auto

lemma set_insert_by [simp]: "set (insert_by le x xs) = insert x (set xs)"
  by (induction xs) auto

lemma set_sort_by [simp]: "set (sort_by le xs) = set xs"
  by (induction xs) auto

lemma length_sort_by [simp]: "length (sort_by le xs) = length xs"
  by (metis mset_sort_by size_mset)

locale comparator =
  fixes dom :: "'a \<Rightarrow> bool"
    and le :: "'a \<Rightarrow> 'a \<Rightarrow> bool"
  assumes total: "dom x \<Longrightarrow> dom y \<Longrightarrow> le x y \<or> le y x"
    and trans: "dom x \<Longrightarrow> dom y \<Longrightarrow> dom z \<Longrightarrow> le x y \<Longrightarrow> le y z \<Longrightarrow> le x z"
begin

lemma insert_by_sorted:
  "dom x \<Longrightarrow> \<forall>y \<in> set ys. dom y \<Longrightarrow> sorted_wrt le ys \<Longrightarrow> sorted_wrt le (insert_by le x ys)"
proof (induction ys)
  case (Cons y ys)
  show ?case
  proof (cases "le x y")
    case True
    with Cons.prems show ?thesis by (auto intro: trans)
  next
    case False
    with Cons.prems total have "le y x" by auto
    with Cons False show ?thesis by auto
  qed
qed simp

lemma sort_by_sorted: "\<forall>x \<in> set xs. dom x \<Longrightarrow> sorted_wrt le (sort_by le xs)"
  by (induction xs) (auto simp: insert_by_sorted)

text \<open>Stability: elements that compare equal both ways keep their order.\<close>

lemma insert_by_stable:
  assumes "dom x" "\<forall>y \<in> set ys. dom y" "dom p"
  shows "filter (\<lambda>y. le p y \<and> le y p) (insert_by le x ys)
         = filter (\<lambda>y. le p y \<and> le y p) (x # ys)"
  using assms
proof (induction ys)
  case (Cons y ys)
  show ?case
  proof (cases "le x y")
    case False
    then have "\<not> ((le p x \<and> le x p) \<and> (le p y \<and> le y p))"
      using Cons.prems trans [of x p y] by auto
    with False Cons show ?thesis by auto
  qed simp
qed simp

lemma sort_by_stable:
  "\<forall>x \<in> set xs. dom x \<Longrightarrow> dom p \<Longrightarrow>
   filter (\<lambda>y. le p y \<and> le y p) (sort_by le xs) = filter (\<lambda>y. le p y \<and> le y p) xs"
proof (induction xs)
  case (Cons x xs)
  have "\<forall>y \<in> set (sort_by le xs). dom y"
    using Cons.prems(1) by simp
  then show ?case
    using Cons insert_by_stable [of x "sort_by le xs" p] by simp
qed simp

end

interpretation key_order: comparator "\<lambda>_. True" "\<lambda>a b. fst a \<le> (fst b :: 'k::linorder)"
  by unfold_locales auto

end
