(* ===== verification/Json.thy ===== *)
theory Json
  imports Collections Complex_Main
begin

text \<open>
  The data the program moves: JSON values (\<open>serde_json::Value\<close>) and TOML values
  (\<open>toml::Value\<close>). The two crates are not part of the repository: the datatypes
  have exactly the variants the sources match on, objects and tables are
  \<open>BTreeMap\<close>s (neither crate is built with \<open>preserve_order\<close>), and the accessors
  below are the variant projections. RFC 6901 pointer lookup and the textual
  rendering of a value are parameters of the definitions that use them.
\<close>

section \<open>Floating point\<close>

text \<open>
  A finite \<open>f64\<close> is the rational it denotes. \<open>i64 as f64\<close> and \<open>u64 as f64\<close> round to
  the nearest value with 53 significant bits, ties to even; \<open>f64 as i64\<close>
  truncates and saturates.
\<close>

fun excess_bits :: "nat \<Rightarrow> nat" where
  "excess_bits n = (if n < 2 ^ 53 then 0 else Suc (excess_bits (n div 2)))"

declare excess_bits.simps [simp del]

definition round_nat :: "nat \<Rightarrow> nat" where
  "round_nat n =
     (let e = excess_bits n; q = n div 2 ^ e; r = n mod 2 ^ e in
      if 2 ^ e < 2 * r \<or> (2 * r = 2 ^ e \<and> odd q) then (q + 1) * 2 ^ e else q * 2 ^ e)"

definition int_as_f64 :: "int \<Rightarrow> rat" where
  "int_as_f64 i = (if i < 0 then - of_nat (round_nat (nat (- i))) else of_nat (round_nat (nat i)))"

definition f64_trunc :: "rat \<Rightarrow> int" where
  "f64_trunc x = (if x < 0 then \<lceil>x\<rceil> else \<lfloor>x\<rfloor>)"

definition f64_as_i64 :: "rat \<Rightarrow> int" where
  "f64_as_i64 x = max (- (2 ^ 63)) (min (2 ^ 63 - 1) (f64_trunc x))"

definition f64_as_u64 :: "rat \<Rightarrow> int" where
  "f64_as_u64 x = max 0 (min (2 ^ 64 - 1) (f64_trunc x))"

lemma round_nat_exact: "n < 2 ^ 53 \<Longrightarrow> round_nat n = n"
  by (simp add: round_nat_def excess_bits.simps [of n])

lemma int_as_f64_exact: "\<bar>i\<bar> < 2 ^ 53 \<Longrightarrow> int_as_f64 i = of_int i"
  by (auto simp: int_as_f64_def round_nat_exact nat_less_iff)

section \<open>JSON\<close>

text \<open>
  A JSON number is an integer that fits \<open>i64\<close> or \<open>u64\<close>, or a finite \<open>f64\<close>.
\<close>

datatype number = JInt int | JFloat rat

definition number_wf :: "number \<Rightarrow> bool" where
  "number_wf n = (case n of JInt i \<Rightarrow> - (2 ^ 63) \<le> i \<and> i < 2 ^ 64 | JFloat _ \<Rightarrow> True)"

definition as_i64 :: "number \<Rightarrow> int option" where
  "as_i64 n = (case n of JInt i \<Rightarrow> if - (2 ^ 63) \<le> i \<and> i < 2 ^ 63 then Some i else None
     | JFloat _ \<Rightarrow> None)"

definition as_u64 :: "number \<Rightarrow> int option" where
  "as_u64 n = (case n of JInt i \<Rightarrow> if 0 \<le> i \<and> i < 2 ^ 64 then Some i else None
     | JFloat _ \<Rightarrow> None)"

definition as_f64 :: "number \<Rightarrow> rat" where
  "as_f64 n = (case n of JInt i \<Rightarrow> int_as_f64 i | JFloat x \<Rightarrow> x)"

datatype json =
    JNull
  | JBool bool
  | JNumber number
  | JString string
  | JArray "json list"
  | JObject "(string \<times> json) list"

fun as_str :: "json \<Rightarrow> string option" where
  "as_str (JString s) = Some s"
| "as_str _ = None"

fun as_bool :: "json \<Rightarrow> bool option" where
  "as_bool (JBool b) = Some b"
| "as_bool _ = None"

fun as_array :: "json \<Rightarrow> json list option" where
  "as_array (JArray vs) = Some vs"
| "as_array _ = None"

fun as_object :: "json \<Rightarrow> json smap option" where
  "as_object (JObject o1) = Some o1"
| "as_object _ = None"

fun json_get :: "json \<Rightarrow> string \<Rightarrow> json option" where
  "json_get (JObject o1) k = map_of o1 k"
| "json_get _ k = None"

definition json_str :: "json \<Rightarrow> string \<Rightarrow> string option" where
  "json_str v k = Option.bind (json_get v k) as_str"

lemma as_str_Some [simp]: "as_str v = Some s \<longleftrightarrow> v = JString s"
  by (cases v) auto

lemma as_bool_Some [simp]: "as_bool v = Some b \<longleftrightarrow> v = JBool b"
  by (cases v) auto

lemma as_array_Some [simp]: "as_array v = Some vs \<longleftrightarrow> v = JArray vs"
  by (cases v) auto

lemma as_object_Some [simp]: "as_object v = Some vs \<longleftrightarrow> v = JObject vs"
  by (cases v) auto

lemma json_get_Some: "json_get v k = Some x \<longleftrightarrow> (\<exists>o1. v = JObject o1 \<and> map_of o1 k = Some x)"
  by (cases v) auto

lemma size_map_of: "map_of o1 k = Some v \<Longrightarrow> size v < size (JObject o1)"
  by (drule map_of_SomeD) (induction o1, auto)

section \<open>TOML\<close>

datatype f64 = Fin rat | PosInf | NegInf | NaN

datatype toml =
    TString string
  | TInteger int
  | TFloat f64
  | TBoolean bool
  | TDatetime string
  | TArray "toml list"
  | TTable "(string \<times> toml) list"

fun as_table :: "toml \<Rightarrow> toml smap option" where
  "as_table (TTable t) = Some t"
| "as_table _ = None"

fun toml_as_array :: "toml \<Rightarrow> toml list option" where
  "toml_as_array (TArray xs) = Some xs"
| "toml_as_array _ = None"

fun toml_as_str :: "toml \<Rightarrow> string option" where
  "toml_as_str (TString s) = Some s"
| "toml_as_str _ = None"

fun toml_get :: "toml \<Rightarrow> string \<Rightarrow> toml option" where
  "toml_get (TTable t) k = map_of t k"
| "toml_get _ k = None"

lemma as_table_Some [simp]: "as_table v = Some t \<longleftrightarrow> v = TTable t"
  by (cases v) auto

lemma toml_as_array_Some [simp]: "toml_as_array v = Some t \<longleftrightarrow> v = TArray t"
  by (cases v) auto

lemma toml_as_str_Some [simp]: "toml_as_str v = Some t \<longleftrightarrow> v = TString t"
  by (cases v) auto

text \<open>
  The derived \<open>PartialEq\<close> is structural, except that \<open>nan\<close> differs from itself, so
  a value that holds one is equal to nothing.
\<close>

fun has_nan :: "toml \<Rightarrow> bool" where
  "has_nan (TFloat f) = (f = NaN)"
| "has_nan (TArray xs) = list_ex has_nan xs"
| "has_nan (TTable t) = list_ex (\<lambda>kv. has_nan (snd kv)) t"
| "has_nan _ = False"

definition toml_eq :: "toml \<Rightarrow> toml \<Rightarrow> bool" where
  "toml_eq a b = (a = b \<and> \<not> has_nan a)"

definition toml_contains :: "toml list \<Rightarrow> toml \<Rightarrow> bool" where
  "toml_contains xs x = list_ex (\<lambda>y. toml_eq y x) xs"

lemma toml_contains_iff: "toml_contains xs x \<longleftrightarrow> x \<in> set xs \<and> \<not> has_nan x"
  by (auto simp: toml_contains_def toml_eq_def list_ex_iff)

end
