(* ===== verification/Governance.thy ===== *)
theory Governance
  imports Json "HOL-Library.Product_Lexorder"
begin

text \<open>
  The \<open>governance.toml\<close> contract of src/src/source/governance.rs: which operations
  the next layer may perform on the entities a package declares, where (entry and
  field policies over \<open>*\<close> patterns), and the ceiling check on the grants a
  layer hands to the layers after it.
\<close>

section \<open>The contract\<close>

datatype operation = Add | Update | Delete

definition operation_name :: "operation \<Rightarrow> string" where
  "operation_name opn = (case opn of Add \<Rightarrow> ''add'' | Update \<Rightarrow> ''update'' | Delete \<Rightarrow> ''delete'')"

definition parse_operation :: "string \<Rightarrow> operation option" where
  "parse_operation name =
     (if name = ''add'' then Some Add
      else if name = ''update'' then Some Update
      else if name = ''delete'' then Some Delete
      else None)"

lemma parse_operation_name [simp]: "parse_operation (operation_name opn) = Some opn"
  by (cases opn) (simp_all add: operation_name_def parse_operation_def)

record policy =
  allowed_entries :: "string list option"
  denied_entries :: "string list option"
  allowed_fields :: "string list option"
  denied_fields :: "string list option"

record gate =
  allowed :: "operation list"
  denied :: "operation list"
  update_policy :: "policy option"
  delete_policy :: "policy option"

record contract =
  blocks :: "(string \<times> string, gate) bmap"
  defaults :: "gate option"

definition default_contract :: contract where
  "default_contract = \<lparr>blocks = [], defaults = None\<rparr>"

section \<open>Parsing\<close>

definition string_list :: "toml option \<Rightarrow> string list option" where
  "string_list value =
     Option.bind value (\<lambda>v. map_option (List.map_filter toml_as_str) (toml_as_array v))"

definition operations :: "toml option \<Rightarrow> operation list" where
  "operations value =
     List.map_filter parse_operation (case string_list value of None \<Rightarrow> [] | Some xs \<Rightarrow> xs)"

definition parse_policy :: "toml \<Rightarrow> policy" where
  "parse_policy value =
     \<lparr>allowed_entries = string_list (toml_get value ''allowed_entries''),
      denied_entries = string_list (toml_get value ''denied_entries''),
      allowed_fields = string_list (toml_get value ''allowed_fields''),
      denied_fields = string_list (toml_get value ''denied_fields'')\<rparr>"

definition parse_gate :: "toml smap \<Rightarrow> gate" where
  "parse_gate block =
     \<lparr>allowed = operations (map_of block ''allowed_operations''),
      denied = operations (map_of block ''denied_operations''),
      update_policy = map_option parse_policy (map_of block ''update_policy''),
      delete_policy = map_option parse_policy (map_of block ''delete_policy'')\<rparr>"

fun parse_blocks :: "string \<Rightarrow> toml smap \<Rightarrow> contract \<Rightarrow> contract" where
  "parse_blocks kind [] c = c"
| "parse_blocks kind ((i, block) # rest) c =
     parse_blocks kind rest
       (case as_table block of
          None \<Rightarrow> c
        | Some t \<Rightarrow> c\<lparr>blocks := bm_insert (kind, i) (parse_gate t) (blocks c)\<rparr>)"

fun parse_kinds :: "toml smap \<Rightarrow> contract \<Rightarrow> contract" where
  "parse_kinds [] c = c"
| "parse_kinds ((kind, v) # rest) c =
     parse_kinds rest
       (case as_table v of
          None \<Rightarrow> c
        | Some bs \<Rightarrow>
            if kind = ''defaults'' then c\<lparr>defaults := Some (parse_gate bs)\<rparr>
            else parse_blocks kind bs c)"

definition parse_contract :: "toml \<Rightarrow> contract" where
  "parse_contract value =
     (case as_table value of
        None \<Rightarrow> default_contract
      | Some kinds \<Rightarrow> parse_kinds kinds default_contract)"

text \<open>
  \<open>read_governance_contract\<close>: an absent or unparsable file is the empty contract.
  The TOML parser is a parameter.
\<close>

definition read_governance_contract :: "(string \<Rightarrow> toml option) \<Rightarrow> string option \<Rightarrow> contract" where
  "read_governance_contract toml_parse text =
     (case text of
        None \<Rightarrow> default_contract
      | Some t \<Rightarrow>
          (case toml_parse t of None \<Rightarrow> default_contract | Some v \<Rightarrow> parse_contract v))"

section \<open>Patterns\<close>

fun glob_parts :: "string list \<Rightarrow> string \<Rightarrow> bool" where
  "glob_parts [] rest = True"
| "glob_parts (part # parts) rest =
     (if part = [] then glob_parts parts rest
      else (case find_sub part rest of
              None \<Rightarrow> False
            | Some found \<Rightarrow> glob_parts parts (drop (found + length part) rest)))"

definition glob_match :: "string \<Rightarrow> string \<Rightarrow> bool" where
  "glob_match pattern value =
     (case split_on (CHR ''*'') pattern of
        [] \<Rightarrow> pattern = value
      | first # parts \<Rightarrow>
          if \<not> starts_with first value then False
          else if parts = [] then pattern = value
          else glob_parts parts (drop (length first) value)
               \<and> (last parts = [] \<or> ends_with (last parts) value))"

definition passes :: "string \<Rightarrow> string list option \<Rightarrow> string list option \<Rightarrow> bool" where
  "passes value allow deny =
     (if (case deny of None \<Rightarrow> False | Some ds \<Rightarrow> list_ex (\<lambda>p. glob_match p value) ds) then False
      else (case allow of None \<Rightarrow> True | Some as \<Rightarrow> list_ex (\<lambda>p. glob_match p value) as))"

definition pattern_within :: "string \<Rightarrow> string list option \<Rightarrow> string list option \<Rightarrow> bool" where
  "pattern_within pattern allow deny =
     (if CHR ''*'' \<notin> set pattern then passes pattern allow deny
      else (case allow of None \<Rightarrow> True | Some as \<Rightarrow> pattern \<in> set as)
           \<and> (case deny of None \<Rightarrow> True | Some ds \<Rightarrow> ds = []))"

section \<open>Checks\<close>

definition gate_of :: "contract \<Rightarrow> string \<Rightarrow> string \<Rightarrow> gate option" where
  "gate_of c kind i = map_of (blocks c) (kind, i)"

definition operation_allowed :: "contract \<Rightarrow> string \<Rightarrow> string \<Rightarrow> operation \<Rightarrow> bool" where
  "operation_allowed c kind i opn =
     (let g = gate_of c kind i; d = defaults c;
          is_denied = (case g of None \<Rightarrow> False | Some g' \<Rightarrow> opn \<in> set (denied g'))
                      \<or> (case d of None \<Rightarrow> False | Some d' \<Rightarrow> opn \<in> set (denied d'));
          is_allowed = (case g of None \<Rightarrow> False | Some g' \<Rightarrow> opn \<in> set (allowed g'))
                       \<or> (case d of None \<Rightarrow> False | Some d' \<Rightarrow> opn \<in> set (allowed d'))
      in is_allowed \<and> \<not> is_denied)"

definition or_else :: "'a option \<Rightarrow> 'a option \<Rightarrow> 'a option" where
  "or_else a b = (case a of None \<Rightarrow> b | Some x \<Rightarrow> Some x)"

definition effective_policy :: "contract \<Rightarrow> string \<Rightarrow> string \<Rightarrow> operation \<Rightarrow> policy option" where
  "effective_policy c kind i opn =
     (case opn of
        Update \<Rightarrow> or_else (Option.bind (gate_of c kind i) update_policy)
                          (Option.bind (defaults c) update_policy)
      | Delete \<Rightarrow> or_else (Option.bind (gate_of c kind i) delete_policy)
                          (Option.bind (defaults c) delete_policy)
      | Add \<Rightarrow> None)"

definition check_fields :: "string \<Rightarrow> string \<Rightarrow> operation \<Rightarrow> policy \<Rightarrow> string list \<Rightarrow> unit res" where
  "check_fields kind i opn p fnames =
     check_all (\<lambda>field.
       if \<not> passes field (allowed_fields p) (denied_fields p)
       then err (''governance denies '' @ operation_name opn @ '' of field '' @ field
                 @ '' on '' @ kind @ ''.'' @ i)
       else Inr ()) fnames"

definition check :: "contract \<Rightarrow> string \<Rightarrow> string \<Rightarrow> operation \<Rightarrow> string option \<Rightarrow> string list \<Rightarrow> unit res"
  where
  "check c kind i opn entry fnames =
     (if \<not> operation_allowed c kind i opn then
        err (''governance denies '' @ operation_name opn @ '' on '' @ kind @ ''.'' @ i
             @ '': the base grants no such operation'')
      else (case effective_policy c kind i opn of
              None \<Rightarrow> Inr ()
            | Some p \<Rightarrow>
                (case entry of
                   Some e \<Rightarrow>
                     if \<not> passes e (allowed_entries p) (denied_entries p) then
                       err (''governance denies '' @ operation_name opn @ '' of entry '' @ e
                            @ '' on '' @ kind @ ''.'' @ i)
                     else check_fields kind i opn p fnames
                 | None \<Rightarrow> check_fields kind i opn p fnames)))"

section \<open>The ceiling\<close>

definition ceiling_defaults :: "contract \<Rightarrow> gate \<Rightarrow> unit res" where
  "ceiling_defaults c lower_defaults =
     check_all (\<lambda>opn.
       if \<not> (case defaults c of None \<Rightarrow> False
              | Some g \<Rightarrow> opn \<in> set (allowed g) \<and> opn \<notin> set (denied g))
       then err (''governance grant exceeds the inherited ceiling: [defaults] allows ''
                 @ operation_name opn @ '' but the base does not grant it as a default'')
       else Inr ()) (allowed lower_defaults)"

definition ceiling_patterns ::
  "string \<Rightarrow> string \<Rightarrow> operation \<Rightarrow> string \<Rightarrow> string list option
   \<Rightarrow> string list option \<Rightarrow> string list option \<Rightarrow> unit res" where
  "ceiling_patterns kind i opn label patterns allow deny =
     check_all (\<lambda>pattern.
       if \<not> pattern_within pattern allow deny
       then err (''governance grant exceeds the inherited ceiling: '' @ kind @ ''.'' @ i @ '' ''
                 @ operation_name opn @ '' '' @ label @ '' allowlist includes '' @ pattern
                 @ '', which the base does not grant'')
       else Inr ()) (case patterns of None \<Rightarrow> [] | Some ps \<Rightarrow> ps)"

definition ceiling_policy ::
  "contract \<Rightarrow> string \<Rightarrow> string \<Rightarrow> operation \<times> policy option \<Rightarrow> unit res" where
  "ceiling_policy c kind i op_policy =
     (case op_policy of (opn, p) \<Rightarrow>
       (case p of
          None \<Rightarrow> Inr ()
        | Some pol \<Rightarrow>
            (case (case opn of
                     Update \<Rightarrow> Option.bind (gate_of c kind i) update_policy
                   | _ \<Rightarrow> Option.bind (gate_of c kind i) delete_policy) of
               None \<Rightarrow> Inr ()
             | Some ceil \<Rightarrow>
                 rbind (ceiling_patterns kind i opn ''entries'' (allowed_entries pol)
                          (allowed_entries ceil) (denied_entries ceil))
                   (\<lambda>_. ceiling_patterns kind i opn ''fields'' (allowed_fields pol)
                          (allowed_fields ceil) (denied_fields ceil)))))"

definition ceiling_block ::
  "contract \<Rightarrow> (string \<Rightarrow> string \<Rightarrow> bool) \<Rightarrow> (string \<times> string) \<times> gate \<Rightarrow> unit res" where
  "ceiling_block c declared_below block =
     (case block of ((kind, i), g) \<Rightarrow>
        if \<not> declared_below kind i then Inr ()
        else rbind
          (check_all (\<lambda>opn.
             if \<not> operation_allowed c kind i opn
             then err (''governance grant exceeds the inherited ceiling: '' @ kind @ ''.'' @ i
                       @ '' allows '' @ operation_name opn @ '' but the base does not grant it'')
             else Inr ()) (allowed g))
          (\<lambda>_. check_all (ceiling_policy c kind i)
                  [(Update, update_policy g), (Delete, delete_policy g)]))"

definition check_ceiling ::
  "contract \<Rightarrow> contract \<Rightarrow> (string \<Rightarrow> string \<Rightarrow> bool) \<Rightarrow> bool \<Rightarrow> unit res" where
  "check_ceiling c lower declared_below any_declared_below =
     rbind
       (case defaults lower of
          Some lower_defaults \<Rightarrow>
            if any_declared_below then ceiling_defaults c lower_defaults else Inr ()
        | None \<Rightarrow> Inr ())
       (\<lambda>_. check_all (ceiling_block c declared_below) (blocks lower))"

section \<open>Patterns match what a wildcard means\<close>

text \<open>
  The reference: \<open>*\<close> stands for any run of characters, every other character
  for itself.
\<close>

fun wild :: "string \<Rightarrow> string \<Rightarrow> bool" where
  "wild [] v = (v = [])"
| "wild (c # p) [] = (c = CHR ''*'' \<and> wild p [])"
| "wild (c # p) (x # v) =
     (if c = CHR ''*'' then wild p (x # v) \<or> wild (c # p) v else c = x \<and> wild p v)"

text \<open>The pieces of a pattern between its stars, the last one anchored at the end.\<close>

fun pieces :: "string list \<Rightarrow> string \<Rightarrow> bool" where
  "pieces [] v = (v = [])"
| "pieces [p] v = (\<exists>a. v = a @ p)"
| "pieces (p # q # ps) v = (\<exists>a r. v = a @ p @ r \<and> pieces (q # ps) r)"

lemma pieces_prepend: "ps \<noteq> [] \<Longrightarrow> pieces ps v \<Longrightarrow> pieces ps (a @ v)"
proof (induction ps v rule: pieces.induct)
  case (2 p v)
  then obtain b where "v = b @ p" by auto
  then show ?case by (auto intro: exI [of _ "a @ b"])
next
  case (3 p q ps v)
  then obtain b r where "v = b @ p @ r" "pieces (q # ps) r" by auto
  then have "a @ v = (a @ b) @ p @ r \<and> pieces (q # ps) r" by simp
  then show ?case unfolding pieces.simps by blast
qed simp

lemma wild_star: "wild (CHR ''*'' # p) v \<longleftrightarrow> (\<exists>a r. v = a @ r \<and> wild p r)"
proof (induction v)
  case (Cons x v)
  have "(\<exists>a r. x # v = a @ r \<and> wild p r) \<longleftrightarrow> wild p (x # v) \<or> (\<exists>a r. v = a @ r \<and> wild p r)"
    by (metis Cons_eq_append_conv append_Nil append_Cons)
  with Cons show ?case by simp
qed simp

lemma wild_literal: "CHR ''*'' \<notin> set q \<Longrightarrow> wild (q @ p) v \<longleftrightarrow> (\<exists>r. v = q @ r \<and> wild p r)"
proof (induction q arbitrary: v)
  case (Cons c q)
  then show ?case by (cases v) auto
qed simp

lemma wild_pieces:
  "wild p v \<longleftrightarrow>
   (case split_on (CHR ''*'') p of
      [] \<Rightarrow> False
    | first # parts \<Rightarrow> \<exists>r. v = first @ r \<and> pieces parts r)"
proof (induction p arbitrary: v)
  case (Cons c p)
  obtain q qs where q: "split_on (CHR ''*'') p = q # qs"
    by (meson neq_Nil_conv split_on_not_Nil)
  show ?case
  proof (cases "c = CHR ''*''")
    case True
    have "(\<exists>a r. v = a @ r \<and> (\<exists>r'. r = q @ r' \<and> pieces qs r')) \<longleftrightarrow> pieces (q # qs) v"
      by (cases qs) auto
    with True q Cons.IH show ?thesis by (simp add: wild_star)
  next
    case False
    with q Cons.IH show ?thesis by (cases v) auto
  qed
qed auto

lemma glob_parts_sound:
  "parts \<noteq> [] \<Longrightarrow> glob_parts parts r \<Longrightarrow> ends_with (last parts) (w @ r) \<Longrightarrow> pieces parts r"
proof (induction parts r arbitrary: w rule: pieces.induct)
  case (2 p v)
  show ?case
  proof (cases "p = []")
    case False
    with 2 obtain i where "find_sub p v = Some i" by (auto split: option.splits)
    from find_sub_Some [OF this] have "length p \<le> length v"
      by (metis length_append length_drop le_add1 le_trans diff_le_self)
    moreover from 2 obtain u where "w @ v = u @ p" by (auto simp: ends_with_iff)
    ultimately show ?thesis
      by (auto simp: append_eq_append_conv2)
  qed simp
next
  case (3 p q ps v)
  show ?case
  proof (cases "p = []")
    case True
    with 3 show ?thesis by (auto intro: exI [of _ "[]"])
  next
    case False
    with 3 obtain i where i: "find_sub p v = Some i"
      and rest: "glob_parts (q # ps) (drop (i + length p) v)"
      by (auto split: option.splits)
    from find_sub_Some [OF i] have v: "v = take i v @ p @ drop (i + length p) v"
      by (metis append_eq_conv_conj append_take_drop_id drop_drop add.commute)
    then have "w @ v = (w @ take i v @ p) @ drop (i + length p) v" by simp
    with "3.prems"(3) have "ends_with (last (q # ps)) ((w @ take i v @ p) @ drop (i + length p) v)"
      by simp
    with "3.IH" rest have "pieces (q # ps) (drop (i + length p) v)" by blast
    with v show ?thesis by auto
  qed
qed simp

lemma pieces_last: "parts \<noteq> [] \<Longrightarrow> pieces parts r \<Longrightarrow> ends_with (last parts) (w @ r)"
proof (induction parts r arbitrary: w rule: pieces.induct)
  case (3 p q ps v)
  then obtain a r where "v = a @ p @ r" "pieces (q # ps) r" by auto
  with "3.IH" [of r "w @ a @ p"] show ?case by auto
qed (auto simp: ends_with_iff)

lemma find_sub_before: "v = a @ p @ r \<Longrightarrow> \<exists>i. find_sub p v = Some i \<and> i \<le> length a"
proof -
  assume v: "v = a @ p @ r"
  then obtain i where i: "find_sub p v = Some i"
    using find_sub_None_iff [of p v] by (cases "find_sub p v") auto
  moreover have "i \<le> length a"
    using find_sub_first [OF i, of "length a"] v by (cases "i \<le> length a") auto
  ultimately show ?thesis by blast
qed

lemma glob_parts_complete: "parts \<noteq> [] \<Longrightarrow> pieces parts r \<Longrightarrow> glob_parts parts r"
proof (induction parts arbitrary: r)
  case (Cons p ps)
  show ?case
  proof (cases "ps = []")
    case True
    with Cons.prems obtain a where "r = a @ p @ []" by auto
    from find_sub_before [OF this] True show ?thesis by auto
  next
    case False
    then obtain q qs where ps: "ps = q # qs" by (meson neq_Nil_conv)
    with Cons.prems obtain a b where r: "r = a @ p @ b" and tail: "pieces ps b"
      by auto
    obtain i where i: "find_sub p r = Some i" "i \<le> length a"
      using find_sub_before [OF r] by blast
    have "drop (i + length p) r = drop (i + length p) (a @ p) @ b"
      using r i by simp
    then have "pieces ps (drop (i + length p) r)"
      by (simp only: pieces_prepend [OF False tail])
    moreover have "pieces ps r"
      using pieces_prepend [OF False tail, of "a @ p"] r by simp
    ultimately show ?thesis using Cons.IH [OF False] i by simp
  qed
qed simp

lemma glob_match_wild: "glob_match p v \<longleftrightarrow> wild p v"
proof -
  obtain first parts where sp: "split_on (CHR ''*'') p = first # parts"
    by (meson neq_Nil_conv split_on_not_Nil)
  show ?thesis
  proof (cases "parts = []")
    case True
    with sp join_split_on [of "CHR ''*''" p] have "p = first" by simp
    with True sp show ?thesis by (auto simp: glob_match_def wild_pieces starts_with_iff)
  next
    case False
    have eq: "glob_parts parts r \<and> (last parts = [] \<or> ends_with (last parts) (first @ r))
        \<longleftrightarrow> pieces parts r" for r
      using False glob_parts_sound [of parts r first] glob_parts_complete [of parts r]
        pieces_last [of parts r first] by (auto simp: ends_with_iff)
    show ?thesis
    proof (cases "starts_with first v")
      case True
      then obtain r where v: "v = first @ r" by (auto simp: starts_with_iff)
      with False sp True eq [of r] show ?thesis by (simp add: glob_match_def wild_pieces)
    next
      case no: False
      with False sp show ?thesis by (auto simp: glob_match_def wild_pieces starts_with_iff)
    qed
  qed
qed

lemma glob_match_literal: "CHR ''*'' \<notin> set p \<Longrightarrow> glob_match p v \<longleftrightarrow> v = p"
  by (auto simp: glob_match_def starts_with_iff)

section \<open>What a passed check means\<close>

definition granted_by :: "operation \<Rightarrow> gate option \<Rightarrow> bool" where
  "granted_by opn g = (case g of None \<Rightarrow> False | Some g' \<Rightarrow> opn \<in> set (allowed g'))"

definition denied_by :: "operation \<Rightarrow> gate option \<Rightarrow> bool" where
  "denied_by opn g = (case g of None \<Rightarrow> False | Some g' \<Rightarrow> opn \<in> set (denied g'))"

lemma operation_allowed_iff:
  "operation_allowed c kind i opn \<longleftrightarrow>
     (granted_by opn (gate_of c kind i) \<or> granted_by opn (defaults c))
     \<and> \<not> denied_by opn (gate_of c kind i) \<and> \<not> denied_by opn (defaults c)"
  by (auto simp: operation_allowed_def granted_by_def denied_by_def Let_def)

lemma passes_iff:
  "passes v allow deny \<longleftrightarrow>
     (\<forall>ds. deny = Some ds \<longrightarrow> (\<forall>p \<in> set ds. \<not> glob_match p v))
     \<and> (\<forall>as. allow = Some as \<longrightarrow> (\<exists>p \<in> set as. glob_match p v))"
  by (auto simp: passes_def list_ex_iff split: option.splits)

lemma check_fields_Inr:
  "check_fields kind i opn p fs = Inr u \<longleftrightarrow>
     (\<forall>f \<in> set fs. passes f (allowed_fields p) (denied_fields p))"
  by (auto simp: check_fields_def check_all_Inr_iff)

lemma check_Inr:
  "check c kind i opn entry fs = Inr u \<longleftrightarrow>
     operation_allowed c kind i opn
     \<and> (\<forall>p. effective_policy c kind i opn = Some p \<longrightarrow>
          (\<forall>e. entry = Some e \<longrightarrow> passes e (allowed_entries p) (denied_entries p))
          \<and> (\<forall>f \<in> set fs. passes f (allowed_fields p) (denied_fields p)))"
  by (auto simp: check_def check_fields_Inr split: option.splits)

lemma pattern_within_passes:
  assumes "pattern_within p allow deny" "glob_match p v"
  shows "passes v allow deny"
proof (cases "CHR ''*'' \<in> set p")
  case True
  with assms show ?thesis
    by (auto simp: pattern_within_def passes_def list_ex_iff split: option.splits)
next
  case False
  with assms show ?thesis by (auto simp: pattern_within_def glob_match_literal)
qed

lemma passes_narrow:
  "passes v (Some xs) deny \<Longrightarrow> \<forall>p \<in> set xs. pattern_within p allow deny' \<Longrightarrow> passes v allow deny'"
  by (auto simp: passes_iff [of v "Some xs"] intro: pattern_within_passes)

definition gate_policy :: "operation \<Rightarrow> gate \<Rightarrow> policy option" where
  "gate_policy opn g =
     (case opn of Add \<Rightarrow> None | Update \<Rightarrow> update_policy g | Delete \<Rightarrow> delete_policy g)"

lemma effective_policy_own:
  "gate_of c kind i = Some g \<Longrightarrow> gate_policy opn g = Some p \<Longrightarrow> effective_policy c kind i opn = Some p"
  by (cases opn) (auto simp: effective_policy_def gate_policy_def or_else_def)

lemma check_ceiling_block:
  assumes "check_ceiling c lower below any = Inr u" "gate_of lower kind i = Some g" "below kind i"
  shows "\<forall>opn \<in> set (allowed g). operation_allowed c kind i opn"
    and "ceiling_policy c kind i (Update, update_policy g) = Inr ()"
    and "ceiling_policy c kind i (Delete, delete_policy g) = Inr ()"
proof -
  have "((kind, i), g) \<in> set (blocks lower)"
    using assms(2) by (auto simp: gate_of_def dest: map_of_SomeD)
  with assms have "ceiling_block c below ((kind, i), g) = Inr ()"
    by (auto simp: check_ceiling_def rbind_eq_Inr check_all_Inr_iff)
  with assms(3) show "\<forall>opn \<in> set (allowed g). operation_allowed c kind i opn"
    and "ceiling_policy c kind i (Update, update_policy g) = Inr ()"
    and "ceiling_policy c kind i (Delete, delete_policy g) = Inr ()"
    by (auto simp: ceiling_block_def rbind_eq_Inr check_all_Inr_iff split: if_splits)
qed

lemma ceiling_patterns_Inr:
  "ceiling_patterns kind i opn label ps allow deny = Inr u \<longleftrightarrow>
     (\<forall>xs. ps = Some xs \<longrightarrow> (\<forall>p \<in> set xs. pattern_within p allow deny))"
  by (auto simp: ceiling_patterns_def check_all_Inr_iff split: option.splits)

lemma ceiling_policy_Inr:
  assumes "ceiling_policy c kind i (opn, Some lp) = Inr u" "gate_of c kind i = Some g"
    "gate_policy opn g = Some cp"
  shows "(\<forall>xs. allowed_entries lp = Some xs \<longrightarrow>
            (\<forall>p \<in> set xs. pattern_within p (allowed_entries cp) (denied_entries cp)))
       \<and> (\<forall>xs. allowed_fields lp = Some xs \<longrightarrow>
            (\<forall>p \<in> set xs. pattern_within p (allowed_fields cp) (denied_fields cp)))"
  using assms
  by (cases opn) (auto simp: ceiling_policy_def gate_policy_def rbind_eq_Inr ceiling_patterns_Inr)

section \<open>Properties\<close>

text \<open>C10 glob_match_correct: the greedy left-to-right matcher of \<open>glob_match\<close>, with its
  final suffix test, accepts exactly the values the wildcard pattern denotes.\<close>

theorem glob_match_correct: "glob_match p v \<longleftrightarrow> wild p v"
  by (rule glob_match_wild)


text \<open>The example contracts: a base that lets the next layer update one field of one
  catalog, with and without the scope, and an open default over a closed entity.\<close>

definition tstrings :: "string list \<Rightarrow> toml" where
  "tstrings xs = TArray (map TString xs)"

definition scoped_base :: contract where
  "scoped_base = parse_contract (TTable [(''catalog'', TTable [(''plans'', TTable
     [(''allowed_operations'', tstrings [''update'']),
      (''update_policy'', TTable [(''allowed_entries'', tstrings [''free'', ''pro_*'']),
         (''allowed_fields'', tstrings [''monthly_price''])])])])])"

definition unscoped_overlay :: contract where
  "unscoped_overlay = parse_contract (TTable [(''catalog'', TTable [(''plans'', TTable
     [(''allowed_operations'', tstrings [''update''])])])])"

definition scoped_overlay :: contract where
  "scoped_overlay = parse_contract (TTable [(''catalog'', TTable [(''plans'', TTable
     [(''allowed_operations'', tstrings [''update'']),
      (''update_policy'', TTable [(''allowed_entries'', tstrings [''free'']),
         (''allowed_fields'', tstrings [''monthly_price''])])])])])"

definition guarded_base :: contract where
  "guarded_base = parse_contract (TTable
     [(''catalog'', TTable [(''plans'', TTable [(''denied_operations'', tstrings [''delete''])])]),
      (''defaults'', TTable [(''allowed_operations'', tstrings [''delete''])])])"

definition open_overlay :: contract where
  "open_overlay = parse_contract (TTable
     [(''defaults'', TTable [(''allowed_operations'', tstrings [''delete''])])])"

lemmas example_contracts =
  scoped_base_def unscoped_overlay_def scoped_overlay_def guarded_base_def open_overlay_def
  tstrings_def parse_contract_def default_contract_def parse_gate_def parse_policy_def
  operations_def string_list_def parse_operation_def List.map_filter_def



text \<open>Outside that case the ceiling lets a grant widen, against the
  contract it documents. A block without a policy passes a scoped base and then admits
  any entry and field; a \<open>[defaults]\<close> grant passes a base whose own block denies the
  operation on the entity, and then admits it there.\<close>

theorem ceiling_escapes:
  "check_ceiling scoped_base unscoped_overlay (\<lambda>_ _. True) True = Inr ()
   \<and> \<not> is_ok (check scoped_base ''catalog'' ''plans'' Update (Some ''gold'') [''name''])
   \<and> is_ok (check unscoped_overlay ''catalog'' ''plans'' Update (Some ''gold'') [''name''])
   \<and> check_ceiling guarded_base open_overlay (\<lambda>_ _. True) True = Inr ()
   \<and> \<not> is_ok (check guarded_base ''catalog'' ''plans'' Delete (Some ''gold'') [])
   \<and> is_ok (check open_overlay ''catalog'' ''plans'' Delete (Some ''gold'') [])"
  by code_simp

text \<open>A projection without a readable \<open>governance.toml\<close> grants
  nothing, whatever the operation, the entity, the entry or the fields.\<close>

theorem no_contract_denies:
  "\<not> is_ok (check (read_governance_contract toml_parse None) kind i opn entry fs)
   \<and> \<not> is_ok (check (read_governance_contract (\<lambda>_. None) (Some text)) kind i opn entry fs)"
  by (simp add: read_governance_contract_def check_def default_contract_def operation_allowed_def
      gate_of_def)

end
