(* ===== verification/Predicates.thy ===== *)
theory Predicates
  imports Prelude
begin

text \<open>
  src/src/predicate.rs: RFC 3339 timestamps (parser, formatter, the civil-day
  arithmetic under both) and CIDR blocks. The integers of the date arithmetic
  stay far inside \<open>i64\<close> and are \<open>int\<close>; the address masks are words.
\<close>

unbundle bit_operations_syntax

section \<open>Civil days\<close>

text \<open>Rust's \<open>/\<close> truncates towards zero.\<close>

definition quot :: "int \<Rightarrow> int \<Rightarrow> int" where
  "quot a b = sgn a * sgn b * (\<bar>a\<bar> div \<bar>b\<bar>)"

definition is_leap_year :: "int \<Rightarrow> bool" where
  "is_leap_year year = ((year mod 4 = 0 \<and> year mod 100 \<noteq> 0) \<or> year mod 400 = 0)"

definition valid_date :: "int \<Rightarrow> int \<Rightarrow> int \<Rightarrow> bool" where
  "valid_date year month day =
     (if month \<in> {1, 3, 5, 7, 8, 10, 12} then 1 \<le> day \<and> day \<le> 31
      else if month \<in> {4, 6, 9, 11} then 1 \<le> day \<and> day \<le> 30
      else if month = 2 then 1 \<le> day \<and> day \<le> (if is_leap_year year then 29 else 28)
      else False)"

definition days_from_civil :: "int \<Rightarrow> int \<Rightarrow> int \<Rightarrow> int" where
  "days_from_civil year0 month day =
     (let year = year0 - (if month \<le> 2 then 1 else 0);
          era = quot (if year \<ge> 0 then year else year - 399) 400;
          year_of_era = year - era * 400;
          month_prime = month + (if month > 2 then - 3 else 9);
          day_of_year = quot (153 * month_prime + 2) 5 + day - 1;
          day_of_era = year_of_era * 365 + quot year_of_era 4 - quot year_of_era 100 + day_of_year
      in era * 146097 + day_of_era - 719468)"

definition civil_from_days :: "int \<Rightarrow> int \<times> int \<times> int" where
  "civil_from_days days =
     (let z = days + 719468;
          era = quot (if z \<ge> 0 then z else z - 146096) 146097;
          day_of_era = z - era * 146097;
          year_of_era = quot (day_of_era - quot day_of_era 1460 + quot day_of_era 36524
                              - quot day_of_era 146096) 365;
          year = year_of_era + era * 400;
          day_of_year = day_of_era - (365 * year_of_era + quot year_of_era 4 - quot year_of_era 100);
          month_prime = quot (5 * day_of_year + 2) 153;
          day = day_of_year - quot (153 * month_prime + 2) 5 + 1;
          month = (if month_prime < 10 then month_prime + 3 else month_prime - 9)
      in (if month \<le> 2 then year + 1 else year, month, day))"

lemma quot_nonneg: "0 \<le> a \<Longrightarrow> 0 < b \<Longrightarrow> quot a b = a div b"
  by (cases "a = 0") (auto simp: quot_def)

lemma quot_floor: "0 < b \<Longrightarrow> quot (if a \<ge> 0 then a else a - (b - 1)) b = a div b"
proof (cases "a \<ge> 0")
  case False
  assume b: "0 < b"
  let ?q = "a div b"
  have a: "a = b * ?q + a mod b" "0 \<le> a mod b" "a mod b < b" using b by auto
  have "?q < 0" using False b by (simp add: pos_imp_zdiv_neg_iff)
  have "\<bar>a - (b - 1)\<bar> = b * (- ?q) + (b - 1 - a mod b)"
    using False b a(1) by (simp add: abs_if algebra_simps)
  moreover have "0 \<le> b - 1 - a mod b" "b - 1 - a mod b < b" using a(2,3) by linarith+
  ultimately have "\<bar>a - (b - 1)\<bar> div b = - ?q"
    using int_div_pos_eq by blast
  with False b show ?thesis by (simp add: quot_def)
qed (simp add: quot_nonneg)

text \<open>A year of the 400-year era is \<open>100 c + 4 q + r\<close>; its first day is a sum of cycles.\<close>

definition era_year :: "int \<Rightarrow> int \<Rightarrow> int \<Rightarrow> int \<Rightarrow> bool" where
  "era_year c q r doy \<longleftrightarrow>
     0 \<le> c \<and> c \<le> 3 \<and> 0 \<le> q \<and> q \<le> 24 \<and> 0 \<le> r \<and> r \<le> 3 \<and> 0 \<le> doy \<and> doy \<le> 365
     \<and> (doy = 365 \<longrightarrow> r = 3 \<and> (q \<noteq> 24 \<or> c = 3))"

lemma era_year_quotients:
  assumes "era_year c q r doy" and yoe: "yoe = 100 * c + 4 * q + r"
  shows "yoe div 4 = 25 * c + q" "yoe div 100 = c" "0 \<le> yoe" "yoe \<le> 399"
  using assms unfolding era_year_def by auto

lemma year_of_era_decodes:
  assumes e: "era_year c q r doy" and yoe: "yoe = 100 * c + 4 * q + r"
    and doe: "doe = yoe * 365 + yoe div 4 - yoe div 100 + doy"
  shows "(doe - doe div 1460 + doe div 36524 - doe div 146096) div 365 = yoe"
proof -
  have doe': "doe = 36524 * c + 1461 * q + 365 * r + doy"
    using doe yoe era_year_quotients [OF e yoe] by simp
  have b: "0 \<le> c" "c \<le> 3" "0 \<le> q" "q \<le> 24" "0 \<le> r" "r \<le> 3" "0 \<le> doy" "doy \<le> 365"
    "doy = 365 \<longrightarrow> r = 3 \<and> (q \<noteq> 24 \<or> c = 3)"
    using e by (auto simp: era_year_def)
  have d: "doe div 36524 - doe div 146096 = c"
  proof (cases "doe = 146096")
    case True
    then have "c = 3" using doe' b by linarith
    with True show ?thesis by simp
  next
    case False
    have "1461 * q + 365 * r + doy < 36524 \<or> (q = 24 \<and> r = 3 \<and> doy = 365)"
      using b by linarith
    then have lt: "1461 * q + 365 * r + doy < 36524"
      using False doe' b by auto
    then have "doe div 36524 = c" using doe' b by linarith
    moreover have "doe div 146096 = 0" using lt doe' b False by (intro div_pos_pos_trivial) linarith+
    ultimately show ?thesis by simp
  qed
  define t where "t = (24 * c + q + 365 * r + doy) div 1460"
  have D: "doe div 1460 = 25 * c + q + t"
    unfolding t_def doe' by linarith
  have "0 \<le> doy - t \<and> doy - t < 365"
    unfolding t_def using b by linarith
  moreover have "doe - doe div 1460 + doe div 36524 - doe div 146096 = 365 * yoe + (doy - t)"
    using d D doe' yoe by linarith
  ultimately show ?thesis by (simp add: int_div_pos_eq)
qed


lemma day_of_year_from_era:
  assumes e: "era_year c q r doy" and yoe: "yoe = 100 * c + 4 * q + r"
  shows "365 * yoe + yoe div 4 - yoe div 100 + doy = 36524 * c + 1461 * q + 365 * r + doy"
  using era_year_quotients [OF e yoe] yoe by simp

lemma era_year_exists:
  assumes "0 \<le> doe" "doe < 146097"
  obtains c q r doy where "era_year c q r doy" "doe = 36524 * c + 1461 * q + 365 * r + doy"
proof -
  define c where "c = min 3 (doe div 36524)"
  define m where "m = doe - 36524 * c"
  define q where "q = m div 1461"
  define n where "n = m mod 1461"
  define r where "r = min 3 (n div 365)"
  define doy where "doy = n - 365 * r"
  have c: "0 \<le> c" "c \<le> 3" "0 \<le> m" "m \<le> 36524" "m = 36524 \<longrightarrow> c = 3"
    using assms unfolding c_def m_def min_def by (auto split: if_splits)
  have q: "0 \<le> q" "q \<le> 24" "m = 1461 * q + n" "0 \<le> n" "n \<le> 1460"
    using c unfolding q_def n_def by auto
  have r: "0 \<le> r" "r \<le> 3" "0 \<le> doy" "doy \<le> 365" "n = 365 * r + doy" "doy = 365 \<longrightarrow> r = 3"
    using q unfolding r_def doy_def min_def by (auto split: if_splits)
  have "doy = 365 \<longrightarrow> q \<noteq> 24 \<or> c = 3"
    using c q r by auto
  with c q r have "era_year c q r doy" by (simp add: era_year_def)
  moreover have "doe = 36524 * c + 1461 * q + 365 * r + doy"
    using q r by (simp add: m_def)
  ultimately show ?thesis using that by blast
qed

text \<open>The months from March: \<open>(153 m + 2) div 5\<close> days precede month \<open>m\<close>.\<close>

definition month_start :: "int \<Rightarrow> int" where
  "month_start mp = (153 * mp + 2) div 5"

lemma month_decodes:
  assumes "0 \<le> mp" "mp \<le> 11" "month_start mp \<le> doy" "doy < month_start (mp + 1)"
  shows "(5 * doy + 2) div 153 = mp"
proof -
  have "mp \<in> {0, 1, 2, 3, 4, 5, 6, 7, 8, 9, 10, 11}" using assms(1,2) unfolding insert_iff empty_iff by presburger
  then show ?thesis using assms(3,4) unfolding month_start_def by auto
qed

lemma month_exists:
  assumes "0 \<le> doy" "doy \<le> 365"
  defines "mp \<equiv> (5 * doy + 2) div 153"
  shows "0 \<le> mp" "mp \<le> 11" "month_start mp \<le> doy" "doy < month_start (mp + 1)"
proof -
  have mp: "153 * mp \<le> 5 * doy + 2" "5 * doy + 2 < 153 * mp + 153"
    unfolding mp_def by linarith+
  from mp assms show "0 \<le> mp" "mp \<le> 11" by linarith+
  from mp show "month_start mp \<le> doy"
    unfolding month_start_def by linarith
  have "5 * (doy + 1) \<le> 153 * (mp + 1) + 2" using mp by presburger
  then show "doy < month_start (mp + 1)"
    unfolding month_start_def by presburger
qed

section \<open>The two conversions are inverse\<close>

lemma march_year: "quot (if y \<ge> 0 then y else y - 399) 400 = y div 400"
  using quot_floor [of 400 y] by (auto split: if_splits)

lemma march_day: "quot (if z \<ge> 0 then z else z - 146096) 146097 = z div 146097"
  using quot_floor [of 146097 z] by (auto split: if_splits)

lemma year_in_era:
  fixes y :: int
  defines "yoe \<equiv> y mod 400"
  obtains c q r where "yoe = 100 * c + 4 * q + r" "0 \<le> c" "c \<le> 3" "0 \<le> q" "q \<le> 24" "0 \<le> r" "r \<le> 3"
proof
  show "yoe = 100 * (yoe div 100) + 4 * (yoe mod 100 div 4) + yoe mod 100 mod 4" by simp
  have "0 \<le> yoe" "yoe < 400" by (simp_all add: yoe_def)
  then show "0 \<le> yoe div 100" "yoe div 100 \<le> 3" "0 \<le> yoe mod 100 div 4" "yoe mod 100 div 4 \<le> 24"
    "0 \<le> yoe mod 100 mod 4" "yoe mod 100 mod 4 \<le> 3"
    by auto
qed

text \<open>February of the civil year \<open>y + 1\<close> ends the March year \<open>y\<close>.\<close>

lemma leap_from_era:
  assumes "y mod 400 = 100 * c + 4 * q + r" "0 \<le> c" "c \<le> 3" "0 \<le> q" "q \<le> 24" "0 \<le> r" "r \<le> 3"
  shows "is_leap_year (y + 1) \<longleftrightarrow> r = 3 \<and> (q \<noteq> 24 \<or> c = 3)"
proof -
  define k where "k = y div 400"
  have "y = 400 * k + (100 * c + 4 * q + r)"
    using assms(1) unfolding k_def by (metis mult_div_mod_eq)
  then have y4: "y + 1 = 4 * (100 * k + 25 * c + q) + (r + 1)"
    and y100: "y + 1 = 100 * (4 * k + c) + (4 * q + r + 1)"
    and y400: "y + 1 = 400 * k + (100 * c + 4 * q + r + 1)" by simp_all
  have top: "s mod n = 0 \<longleftrightarrow> s = n" if "1 \<le> s" "s \<le> n" for s n :: int
    using that by (cases "s = n") auto
  have "(y + 1) mod 4 = 0 \<longleftrightarrow> r + 1 = 4"
    unfolding y4 mod_mult_self4 by (rule top) (use assms in linarith)+
  moreover have "(y + 1) mod 100 = 0 \<longleftrightarrow> 4 * q + r + 1 = 100"
    unfolding y100 mod_mult_self4 by (rule top) (use assms in linarith)+
  moreover have "(y + 1) mod 400 = 0 \<longleftrightarrow> 100 * c + 4 * q + r + 1 = 400"
    unfolding y400 mod_mult_self4 by (rule top) (use assms in linarith)+
  moreover have "4 * q + r + 1 = 100 \<longleftrightarrow> q = 24 \<and> r + 1 = 4"
    using assms(4-7) by (intro iffI conjI) linarith+
  moreover have "100 * c + 4 * q + r + 1 = 400 \<longleftrightarrow> c = 3 \<and> q = 24 \<and> r + 1 = 4"
    using assms(2-7) by (intro iffI conjI) linarith+
  ultimately show ?thesis by (auto simp: is_leap_year_def)
qed

lemma civil_decomposed:
  assumes "era_year c q r doy" "yoe = 100 * c + 4 * q + r"
    "days = era * 146097 + (yoe * 365 + yoe div 4 - yoe div 100 + doy) - 719468"
  defines "mp \<equiv> (5 * doy + 2) div 153"
  shows "civil_from_days days =
     (let m = (if mp < 10 then mp + 3 else mp - 9) in
      (if m \<le> 2 then yoe + era * 400 + 1 else yoe + era * 400, m, doy - month_start mp + 1))"
proof -
  define doe where "doe = yoe * 365 + yoe div 4 - yoe div 100 + doy"
  have q: "yoe div 4 = 25 * c + q" "yoe div 100 = c" "0 \<le> yoe" "yoe \<le> 399"
    using era_year_quotients [OF assms(1,2)] by auto
  have doe': "doe = 36524 * c + 1461 * q + 365 * r + doy"
    using day_of_year_from_era [OF assms(1,2)] by (simp add: doe_def)
  have b: "0 \<le> doe" "doe < 146097" "0 \<le> doy" "doy \<le> 365"
    using assms(1) unfolding doe' era_year_def by linarith+
  have z: "days + 719468 = era * 146097 + doe" using assms(3) by (simp add: doe_def)
  have era: "(era * 146097 + doe) div 146097 = era" using b(1,2) by simp
  have yr: "(doe - doe div 1460 + doe div 36524 - doe div 146096) div 365 = yoe"
    using year_of_era_decodes [OF assms(1,2)] doe_def by simp
  have nn: "0 \<le> doe - doe div 1460 + doe div 36524 - doe div 146096"
    using b by linarith
  have doy: "doe - (365 * yoe + yoe div 4 - yoe div 100) = doy"
    by (simp add: doe_def)
  have dq: "quot doe 1460 = doe div 1460" "quot doe 36524 = doe div 36524"
    "quot doe 146096 = doe div 146096" "quot yoe 4 = yoe div 4" "quot yoe 100 = yoe div 100"
    using b q by (simp_all only: quot_nonneg zero_less_numeral)
  have yq: "quot (doe - doe div 1460 + doe div 36524 - doe div 146096) 365 = yoe"
    using nn yr by (simp only: quot_nonneg zero_less_numeral)
  have mp: "quot (5 * doy + 2) 153 = mp" "0 \<le> mp"
    using b(3) month_exists(1) [OF b(3,4)] by (simp_all add: quot_nonneg mp_def)
  have ms: "quot (153 * mp + 2) 5 = month_start mp"
    using mp(2) by (simp add: quot_nonneg month_start_def)
  have de: "era * 146097 + doe - era * 146097 = doe" by simp
  show ?thesis
    unfolding civil_from_days_def Let_def march_day z era de dq yq doy mp(1) ms by (rule refl)
qed


lemma days_from_civil_era:
  assumes yy: "y - (if m \<le> 2 then 1 else 0) = yy" and mp: "m + (if m > 2 then - 3 else 9) = mp"
    and "0 \<le> mp"
  shows "days_from_civil y m d = yy div 400 * 146097
     + (yy mod 400 * 365 + yy mod 400 div 4 - yy mod 400 div 100 + (month_start mp + d - 1)) - 719468"
proof -
  have yoe: "yy - yy div 400 * 400 = yy mod 400" by (simp add: minus_div_mult_eq_mod)
  have q: "quot (yy mod 400) 4 = yy mod 400 div 4" "quot (yy mod 400) 100 = yy mod 400 div 100"
    "quot (153 * mp + 2) 5 = month_start mp"
    using assms(3) by (simp_all add: quot_nonneg month_start_def)
  show ?thesis
    unfolding days_from_civil_def Let_def yy mp march_year yoe q by (simp only: add_diff_eq add.assoc)
qed

lemma civil_from_days_from_civil:
  assumes "valid_date y m d"
  shows "civil_from_days (days_from_civil y m d) = (y, m, d)"
proof -
  define mp where "mp = (if m > 2 then m - 3 else m + 9)"
  define yy where "yy = y - (if m \<le> 2 then 1 else 0)"
  define doy where "doy = month_start mp + d - 1"
  have m: "1 \<le> m" "m \<le> 12" and d: "1 \<le> d" "d \<le> 31"
    using assms by (auto simp: valid_date_def split: if_splits)
  obtain c q r where y: "yy mod 400 = 100 * c + 4 * q + r"
    and b: "0 \<le> c" "c \<le> 3" "0 \<le> q" "q \<le> 24" "0 \<le> r" "r \<le> 3"
    by (rule year_in_era [of yy])
  have leap: "is_leap_year (yy + 1) \<longleftrightarrow> r = 3 \<and> (q \<noteq> 24 \<or> c = 3)"
    by (rule leap_from_era [OF y b])
  have mm: "m \<in> {1, 2, 3, 4, 5, 6, 7, 8, 9, 10, 11, 12}"
    using m unfolding insert_iff empty_iff by presburger
  have mp: "0 \<le> mp" "mp \<le> 11" using m unfolding mp_def by auto
  have month: "month_start mp \<le> doy" "doy < month_start (mp + 1)"
    using mm assms unfolding doy_def mp_def month_start_def valid_date_def
    by (auto split: if_splits)
  have "doy = 365 \<longrightarrow> is_leap_year (yy + 1)" "0 \<le> doy" "doy \<le> 365"
    using mm assms unfolding doy_def mp_def month_start_def valid_date_def yy_def
    by (auto split: if_splits)
  then have e: "era_year c q r doy" using b leap by (auto simp: era_year_def)
  have dec: "(5 * doy + 2) div 153 = mp" using month_decodes [OF mp month] .
  have "y - (if m \<le> 2 then 1 else 0) = yy" "m + (if m > 2 then - 3 else 9) = mp"
    by (simp_all add: yy_def mp_def)
  note days = days_from_civil_era [OF this mp(1), of d, folded doy_def]
  have yy: "yy mod 400 + yy div 400 * 400 = yy" by simp
  show ?thesis
    unfolding civil_decomposed [OF e y days] dec Let_def yy
    using m by (auto simp: mp_def doy_def yy_def)
qed

lemma days_from_civil_from_days:
  assumes "civil_from_days z = (y, m, d)"
  shows "valid_date y m d" "days_from_civil y m d = z"
proof -
  define era where "era = (z + 719468) div 146097"
  define doe where "doe = (z + 719468) mod 146097"
  have "0 \<le> doe" "doe < 146097" by (simp_all add: doe_def)
  then obtain c q r doy where e: "era_year c q r doy"
    and doe: "doe = 36524 * c + 1461 * q + 365 * r + doy"
    by (rule era_year_exists)
  define yoe where "yoe = 100 * c + 4 * q + r"
  define mp where "mp = (5 * doy + 2) div 153"
  have b: "0 \<le> doy" "doy \<le> 365" using e by (auto simp: era_year_def)
  note mo = month_exists [OF b, folded mp_def]
  have z: "z = era * 146097 + (yoe * 365 + yoe div 4 - yoe div 100 + doy) - 719468"
    using day_of_year_from_era [OF e yoe_def] doe unfolding era_def doe_def
    by (simp add: algebra_simps minus_mod_eq_mult_div [symmetric])
  have ymd: "m = (if mp < 10 then mp + 3 else mp - 9)" "d = doy - month_start mp + 1"
    "y = (if m \<le> 2 then yoe + era * 400 + 1 else yoe + era * 400)"
    using assms unfolding civil_decomposed [OF e yoe_def z] by (auto simp: Let_def mp_def)
  have y400: "(yoe + era * 400) mod 400 = yoe"
    using era_year_quotients [OF e yoe_def] by simp
  have leap: "doy = 365 \<longrightarrow> is_leap_year (yoe + era * 400 + 1)"
    using e leap_from_era [of "yoe + era * 400" c q r] y400 yoe_def by (auto simp: era_year_def)
  have mm: "mp \<in> {0, 1, 2, 3, 4, 5, 6, 7, 8, 9, 10, 11}"
    using mo(1,2) unfolding insert_iff empty_iff by presburger
  show v: "valid_date y m d"
    using mm mo(3,4) leap b unfolding ymd valid_date_def month_start_def
    by (auto split: if_splits)
  have yy: "y - (if m \<le> 2 then 1 else 0) = yoe + era * 400" "m + (if m > 2 then - 3 else 9) = mp"
    using ymd mo(1,2) by auto
  have "(yoe + era * 400) div 400 = era"
    using era_year_quotients [OF e yoe_def] by simp
  then show "days_from_civil y m d = z"
    unfolding days_from_civil_era [OF yy mo(1)] y400 ymd(2) z by simp
qed

section \<open>Timestamps\<close>

datatype rfc3339_timestamp = Timestamp (seconds: int) (nanos: nat)

text \<open>The derived order: seconds first, then nanoseconds.\<close>

instantiation rfc3339_timestamp :: linorder
begin

definition less_rfc3339_timestamp :: "rfc3339_timestamp \<Rightarrow> rfc3339_timestamp \<Rightarrow> bool" where
  "a < b = (seconds a < seconds b \<or> (seconds a = seconds b \<and> nanos a < nanos b))"

definition less_eq_rfc3339_timestamp :: "rfc3339_timestamp \<Rightarrow> rfc3339_timestamp \<Rightarrow> bool" where
  "a \<le> b = (seconds a < seconds b \<or> (seconds a = seconds b \<and> nanos a \<le> nanos b))"

instance
  by standard
    (auto simp: less_rfc3339_timestamp_def less_eq_rfc3339_timestamp_def
      intro: rfc3339_timestamp.expand)

end

definition byte_at :: "string \<Rightarrow> nat \<Rightarrow> char option" where
  "byte_at s i = (if i < length s then Some (s ! i) else None)"

definition parse_digits :: "string \<Rightarrow> nat \<Rightarrow> nat \<Rightarrow> nat option" where
  "parse_digits s start len =
     (if start + len \<le> length s then digits_val 0 (take len (drop start s)) else None)"

definition expect :: "string \<Rightarrow> nat \<Rightarrow> char \<Rightarrow> unit option" where
  "expect s i c = (if byte_at s i = Some c then Some () else None)"

text \<open>The loop over the fraction: digits read so far, their value, the rest; a tenth
  digit ends the parse.\<close>

fun fraction_digits :: "nat \<Rightarrow> nat \<Rightarrow> string \<Rightarrow> (nat \<times> nat \<times> string) option" where
  "fraction_digits k v [] = Some (k, v, [])"
| "fraction_digits k v (c # cs) =
     (if \<not> is_digit c then Some (k, v, c # cs)
      else if k \<ge> 9 then None
      else fraction_digits (k + 1) (v * 10 + digit_val c) cs)"

definition parse_fraction :: "string \<Rightarrow> (nat \<times> string) option" where
  "parse_fraction rest =
     (case rest of
        c # cs \<Rightarrow>
          if c = CHR ''.'' then
            (case fraction_digits 0 0 cs of
               None \<Rightarrow> None
             | Some (k, v, r) \<Rightarrow> if k = 0 then None else Some (v * 10 ^ (9 - k), r))
          else Some (0, rest)
      | [] \<Rightarrow> Some (0, rest))"

definition parse_offset :: "string \<Rightarrow> int option" where
  "parse_offset rest =
     (case byte_at rest 0 of
        None \<Rightarrow> None
      | Some c \<Rightarrow>
          if (c = CHR ''Z'' \<or> c = CHR ''z'') \<and> length rest = 1 then Some 0
          else if (c = CHR ''+'' \<or> c = CHR ''-'') \<and> length rest = 6 then
            Option.bind (parse_digits rest 1 2) (\<lambda>oh.
            Option.bind (expect rest 3 (CHR '':'')) (\<lambda>_.
            Option.bind (parse_digits rest 4 2) (\<lambda>om.
              if oh > 23 \<or> om > 59 then None
              else Some ((if c = CHR ''+'' then 1 else - 1) * (int oh * 3600 + int om * 60)))))
          else None)"

definition parse_rfc3339_timestamp :: "string \<Rightarrow> rfc3339_timestamp option" where
  "parse_rfc3339_timestamp s =
     (if length s < 20 then None else
      Option.bind (parse_digits s 0 4) (\<lambda>year.
      Option.bind (expect s 4 (CHR ''-'')) (\<lambda>_.
      Option.bind (parse_digits s 5 2) (\<lambda>month.
      Option.bind (expect s 7 (CHR ''-'')) (\<lambda>_.
      Option.bind (parse_digits s 8 2) (\<lambda>day.
      if byte_at s 10 \<noteq> Some (CHR ''T'') \<and> byte_at s 10 \<noteq> Some (CHR ''t'') then None else
      Option.bind (parse_digits s 11 2) (\<lambda>hour.
      Option.bind (expect s 13 (CHR '':'')) (\<lambda>_.
      Option.bind (parse_digits s 14 2) (\<lambda>minute.
      Option.bind (expect s 16 (CHR '':'')) (\<lambda>_.
      Option.bind (parse_digits s 17 2) (\<lambda>second.
      if \<not> valid_date (int year) (int month) (int day) \<or> hour > 23 \<or> minute > 59 \<or> second > 59
      then None else
      Option.bind (parse_fraction (drop 19 s)) (\<lambda>(frac, rest).
      Option.bind (parse_offset rest) (\<lambda>offset.
        Some (Timestamp
          (days_from_civil (int year) (int month) (int day) * 86400 + int hour * 3600
            + int minute * 60 + int second - offset) frac))))))))))))))"

text \<open>\<open>{:0w}\<close> of an unsigned and of a signed integer.\<close>

definition zero_pad :: "nat \<Rightarrow> nat \<Rightarrow> string" where
  "zero_pad w n = replicate (w - length (show_nat n)) (CHR ''0'') @ show_nat n"

definition zero_pad_int :: "nat \<Rightarrow> int \<Rightarrow> string" where
  "zero_pad_int w i = (if i < 0 then CHR ''-'' # zero_pad (w - 1) (nat (- i)) else zero_pad w (nat i))"

definition trim_end_zeros :: "string \<Rightarrow> string" where
  "trim_end_zeros s = rev (dropWhile (\<lambda>c. c = CHR ''0'') (rev s))"

definition format_rfc3339_utc :: "int \<Rightarrow> nat \<Rightarrow> string" where
  "format_rfc3339_utc secs ns =
     (let days = secs div 86400;
          second_of_day = nat (secs mod 86400);
          (year, month, day) = civil_from_days days;
          hour = second_of_day div 3600;
          minute = second_of_day mod 3600 div 60;
          second = second_of_day mod 60
      in zero_pad_int 4 year @ ''-'' @ zero_pad_int 2 month @ ''-'' @ zero_pad_int 2 day @ ''T''
         @ zero_pad 2 hour @ '':'' @ zero_pad 2 minute @ '':'' @ zero_pad 2 second
         @ (if ns \<noteq> 0 then ''.'' @ trim_end_zeros (zero_pad 9 ns) else [])
         @ ''Z'')"

section \<open>Reading back what was formatted\<close>

lemma digits_val_append:
  "digits_val acc (xs @ ys) = Option.bind (digits_val acc xs) (\<lambda>a. digits_val a ys)"
  by (induction acc xs rule: digits_val.induct) auto

lemma digits_val_zeros: "digits_val acc (replicate k (CHR ''0'')) = Some (acc * 10 ^ k)"
  by (induction k arbitrary: acc) (auto simp: is_digit_def digit_val_def)

lemma show_nat_digits: "\<forall>c \<in> set (show_nat n). is_digit c"
  by (induction n rule: show_nat.induct) (subst show_nat.simps, auto)

lemma show_nat_not_Nil [simp]: "show_nat n \<noteq> []"
  by (subst show_nat.simps) auto

lemma digits_val_show_nat: "digits_val acc (show_nat n) = Some (acc * 10 ^ length (show_nat n) + n)"
proof (induction n arbitrary: acc rule: show_nat.induct)
  case (1 n)
  show ?case
  proof (cases "n < 10")
    case True
    then show ?thesis by (simp add: show_nat.simps [of n])
  next
    case False
    with "1.IH" [of acc] show ?thesis
      by (simp add: show_nat.simps [of n] digits_val_append algebra_simps)
  qed
qed

lemma length_show_nat: "0 < w \<Longrightarrow> n < 10 ^ w \<Longrightarrow> length (show_nat n) \<le> w"
proof (induction n arbitrary: w rule: show_nat.induct)
  case (1 n)
  show ?case
  proof (cases "n < 10")
    case False
    with "1.prems" obtain v where w: "w = Suc v" "0 < v"
      by (cases w; cases "w - 1") auto
    with "1.prems"(2) have "n div 10 < 10 ^ v" by simp
    with "1.IH" [OF False w(2)] False w show ?thesis by (simp add: show_nat.simps [of n])
  qed (use "1.prems" in \<open>simp add: show_nat.simps [of n]\<close>)
qed

lemma zero_pad_facts:
  assumes "0 < w" "n < 10 ^ w"
  shows "length (zero_pad w n) = w" "digits_val 0 (zero_pad w n) = Some n"
    "\<forall>c \<in> set (zero_pad w n). is_digit c"
  using length_show_nat [OF assms] show_nat_digits [of n]
  by (auto simp: zero_pad_def digits_val_append digits_val_zeros digits_val_show_nat is_digit_def)

lemma fraction_digits_all:
  "\<forall>c \<in> set ds. is_digit c \<Longrightarrow> digits_val v ds = Some x \<Longrightarrow> k + length ds \<le> 9 \<Longrightarrow>
   \<not> is_digit z \<Longrightarrow> fraction_digits k v (ds @ [z]) = Some (k + length ds, x, [z])"
  by (induction ds arbitrary: k v) (auto simp: mult.commute)

lemma trim_end_zeros_split:
  obtains k where "s = trim_end_zeros s @ replicate k (CHR ''0'')"
proof -
  let ?z = "takeWhile (\<lambda>c. c = CHR ''0'') (rev s)"
  have "set ?z \<subseteq> {CHR ''0''}" by (auto dest: set_takeWhileD)
  then have z: "?z = replicate (length ?z) (CHR ''0'')"
    by (intro replicate_eqI) auto
  have "rev s = ?z @ dropWhile (\<lambda>c. c = CHR ''0'') (rev s)" by simp
  then have "rev (rev s) = rev (?z @ dropWhile (\<lambda>c. c = CHR ''0'') (rev s))" by (rule arg_cong)
  then have "s = trim_end_zeros s @ rev ?z"
    by (simp only: trim_end_zeros_def rev_append rev_rev_ident)
  moreover have "rev ?z = replicate (length ?z) (CHR ''0'')"
    by (subst z) (simp only: rev_replicate)
  ultimately show ?thesis using that [of "length ?z"] by simp
qed

lemma parse_fraction_formatted:
  assumes "ns < 10 ^ 9"
  shows "parse_fraction ((if ns \<noteq> 0 then ''.'' @ trim_end_zeros (zero_pad 9 ns) else []) @ ''Z'')
         = Some (ns, ''Z'')"
proof (cases "ns = 0")
  case False
  let ?s = "zero_pad 9 ns"
  let ?f = "trim_end_zeros ?s"
  obtain k where k: "?s = ?f @ replicate k (CHR ''0'')" by (rule trim_end_zeros_split)
  note z = zero_pad_facts [of 9 ns, simplified, OF assms [simplified]]
  have len: "length ?f + k = 9" using z(1) k by (metis length_append length_replicate)
  have dig: "\<forall>c \<in> set ?f. is_digit c" using z(3) k by (metis Un_iff set_append)
  obtain x where x: "digits_val 0 ?f = Some x" "x * 10 ^ k = ns"
    using z(2) by (subst (asm) k) (auto simp: digits_val_append digits_val_zeros bind_eq_Some_conv)
  have "?f \<noteq> []" using x False by auto
  moreover have "fraction_digits 0 0 (?f @ ''Z'') = Some (length ?f, x, ''Z'')"
    using fraction_digits_all [OF dig x(1), of 0 "CHR ''Z''"] len by (simp add: is_digit_def)
  moreover have "9 - length ?f = k" using len by simp
  ultimately show ?thesis using False x(2) by (simp add: parse_fraction_def)
qed (simp add: parse_fraction_def)

lemma length_2_explode: "length xs = 2 \<Longrightarrow> \<exists>a b. xs = [a, b]"
  by (auto simp: numeral_2_eq_2 length_Suc_conv)

lemma length_4_explode: "length xs = 4 \<Longrightarrow> \<exists>a b c d. xs = [a, b, c, d]"
  by (auto simp: numeral_eq_Suc length_Suc_conv)

text \<open>The parser on text already cut into its fields.\<close>

lemma parse_rfc3339_fields:
  assumes l: "length Y = 4" "length M = 2" "length D = 2" "length h = 2" "length mi = 2" "length sc = 2"
    and v: "digits_val 0 Y = Some year" "digits_val 0 M = Some month" "digits_val 0 D = Some day"
      "digits_val 0 h = Some hour" "digits_val 0 mi = Some minute" "digits_val 0 sc = Some second"
    and ok: "valid_date (int year) (int month) (int day)" "hour \<le> 23" "minute \<le> 59" "second \<le> 59"
    and f: "parse_fraction rest = Some (ns, ''Z'')" "rest \<noteq> []"
  shows "parse_rfc3339_timestamp
           (Y @ ''-'' @ M @ ''-'' @ D @ ''T'' @ h @ '':'' @ mi @ '':'' @ sc @ rest)
         = Some (Timestamp (days_from_civil (int year) (int month) (int day) * 86400
                  + int hour * 3600 + int minute * 60 + int second) ns)"
proof -
  obtain r rs where rest: "rest = r # rs" using f(2) by (cases rest) auto
  obtain y1 y2 y3 y4 where Y: "Y = [y1, y2, y3, y4]" using length_4_explode [OF l(1)] by blast
  obtain m1 m2 where M: "M = [m1, m2]" using length_2_explode [OF l(2)] by blast
  obtain d1 d2 where D: "D = [d1, d2]" using length_2_explode [OF l(3)] by blast
  obtain h1 h2 where H: "h = [h1, h2]" using length_2_explode [OF l(4)] by blast
  obtain i1 i2 where I: "mi = [i1, i2]" using length_2_explode [OF l(5)] by blast
  obtain s1 s2 where S: "sc = [s1, s2]" using length_2_explode [OF l(6)] by blast
  let ?t = "Y @ ''-'' @ M @ ''-'' @ D @ ''T'' @ h @ '':'' @ mi @ '':'' @ sc @ rest"
  have digits: "parse_digits ?t 0 4 = Some year" "parse_digits ?t 5 2 = Some month"
    "parse_digits ?t 8 2 = Some day" "parse_digits ?t 11 2 = Some hour"
    "parse_digits ?t 14 2 = Some minute" "parse_digits ?t 17 2 = Some second"
    using v unfolding Y M D H I S parse_digits_def by simp_all
  have marks: "expect ?t 4 (CHR ''-'') = Some ()" "expect ?t 7 (CHR ''-'') = Some ()"
    "expect ?t 13 (CHR '':'') = Some ()" "expect ?t 16 (CHR '':'') = Some ()"
    "byte_at ?t 10 = Some (CHR ''T'')" "drop 19 ?t = rest"
    unfolding Y M D H I S rest expect_def byte_at_def by simp_all
  have off: "parse_offset ''Z'' = Some 0" by (simp add: parse_offset_def byte_at_def)
  have long: "(length ?t < 20) = False" using l f(2) by (cases rest) simp_all
  show ?thesis
    unfolding parse_rfc3339_timestamp_def long if_False digits marks off Option.bind.simps f(1) split_conv
    using ok by simp
qed

lemma parse_format_rfc3339:
  assumes civil: "civil_from_days (secs div 86400) = (year, month, day)"
    and range: "0 \<le> year" "year \<le> 9999" and ns: "ns < 10 ^ 9"
  shows "parse_rfc3339_timestamp (format_rfc3339_utc secs ns) = Some (Timestamp secs ns)"
proof -
  define sod where "sod = nat (secs mod 86400)"
  have sod: "sod < 86400" "int sod = secs mod 86400" by (simp_all add: sod_def)
  have valid: "valid_date year month day" and days: "days_from_civil year month day = secs div 86400"
    using days_from_civil_from_days [OF civil] by simp_all
  have md: "0 \<le> month" "month < 100" "0 \<le> day" "day < 100"
    using valid by (auto simp: valid_date_def split: if_splits)
  have b: "sod div 3600 \<le> 23" "sod mod 3600 div 60 \<le> 59" "sod mod 60 \<le> 59"
    using sod(1) by (auto intro: less_mult_imp_div_less simp: less_Suc_eq_le [symmetric])
  have Y: "zero_pad_int 4 year = zero_pad 4 (nat year)"
    and MD: "zero_pad_int 2 month = zero_pad 2 (nat month)" "zero_pad_int 2 day = zero_pad 2 (nat day)"
    using range md by (simp_all add: zero_pad_int_def)
  have z2: "n < 100 \<Longrightarrow> length (zero_pad 2 n) = 2 \<and> digits_val 0 (zero_pad 2 n) = Some n" for n
    using zero_pad_facts [of 2 n] by simp
  have z4: "length (zero_pad 4 (nat year)) = 4" "digits_val 0 (zero_pad 4 (nat year)) = Some (nat year)"
    using zero_pad_facts [of 4 "nat year"] range by simp_all
  let ?rest = "(if ns \<noteq> 0 then ''.'' @ trim_end_zeros (zero_pad 9 ns) else []) @ ''Z''"
  have "sod mod 3600 mod 60 = sod mod 60" by (rule mod_mod_cancel) simp
  then have split: "sod = sod div 3600 * 3600 + sod mod 3600 div 60 * 60 + sod mod 60"
    using div_mult_mod_eq [of sod 3600] div_mult_mod_eq [of "sod mod 3600" 60] by linarith
  have total: "secs div 86400 * 86400 + int (sod div 3600) * 3600 + int (sod mod 3600 div 60) * 60
      + int (sod mod 60) = secs"
    using arg_cong [OF split, of int] sod(2) div_mult_mod_eq [of secs 86400] by simp
  have "parse_rfc3339_timestamp (format_rfc3339_utc secs ns)
      = parse_rfc3339_timestamp (zero_pad 4 (nat year) @ ''-'' @ zero_pad 2 (nat month) @ ''-''
          @ zero_pad 2 (nat day) @ ''T'' @ zero_pad 2 (sod div 3600) @ '':''
          @ zero_pad 2 (sod mod 3600 div 60) @ '':'' @ zero_pad 2 (sod mod 60) @ ?rest)"
    unfolding format_rfc3339_utc_def civil Let_def sod_def [symmetric] split_conv Y MD by simp
  also have "\<dots> = Some (Timestamp (days_from_civil (int (nat year)) (int (nat month)) (int (nat day)) * 86400
      + int (sod div 3600) * 3600 + int (sod mod 3600 div 60) * 60 + int (sod mod 60)) ns)"
    by (rule parse_rfc3339_fields)
      (use z4 z2 md b range valid parse_fraction_formatted [OF ns] in auto)
  also have "\<dots> = Some (Timestamp secs ns)"
    using range md by (simp add: days total del: of_nat_div of_nat_mod)
  finally show ?thesis .
qed

section \<open>CIDR blocks\<close>

text \<open>An address is its family and its bits; reading one from text is the standard
  library's and stays a parameter.\<close>

datatype ip_addr = V4 "32 word" | V6 "128 word"

datatype cidr_block =
    BlockV4 (network4: "32 word") (prefix4: nat)
  | BlockV6 (network6: "128 word") (prefix6: nat)

definition prefix_mask_v4 :: "nat \<Rightarrow> 32 word" where
  "prefix_mask_v4 p = (if p = 0 then 0 else push_bit (32 - p) (- 1))"

definition prefix_mask_v6 :: "nat \<Rightarrow> 128 word" where
  "prefix_mask_v6 p = (if p = 0 then 0 else push_bit (128 - p) (- 1))"

text \<open>The prefix length a block's text asks for: written after the slash, or the whole width.\<close>

definition cidr_text :: "string \<Rightarrow> (string \<times> nat option) option" where
  "cidr_text value =
     (case split_once (CHR ''/'') value of
        Some (addr, prefix) \<Rightarrow>
          (case parse_unsigned 256 prefix of None \<Rightarrow> None | Some p \<Rightarrow> Some (addr, Some p))
      | None \<Rightarrow> Some (value, None))"

definition cidr_parse :: "(string \<Rightarrow> ip_addr option) \<Rightarrow> string \<Rightarrow> cidr_block option" where
  "cidr_parse parse_ip value =
     Option.bind
       (cidr_text value)
       (\<lambda>(addr, prefix).
          case parse_ip addr of
            None \<Rightarrow> None
          | Some (V4 a) \<Rightarrow>
              (let p = (case prefix of Some p \<Rightarrow> p | None \<Rightarrow> 32)
               in if p > 32 then None else Some (BlockV4 (and a (prefix_mask_v4 p)) p))
          | Some (V6 a) \<Rightarrow>
              (let p = (case prefix of Some p \<Rightarrow> p | None \<Rightarrow> 128)
               in if p > 128 then None else Some (BlockV6 (and a (prefix_mask_v6 p)) p)))"

fun cidr_contains :: "cidr_block \<Rightarrow> ip_addr \<Rightarrow> bool" where
  "cidr_contains (BlockV4 network p) (V4 v) = (and v (prefix_mask_v4 p) = network)"
| "cidr_contains (BlockV6 network p) (V6 v) = (and v (prefix_mask_v6 p) = network)"
| "cidr_contains _ _ = False"

text \<open>What a block means: the same family, and the same leading bits.\<close>

definition addr_bits :: "ip_addr \<Rightarrow> nat" where
  "addr_bits a = (case a of V4 _ \<Rightarrow> 32 | V6 _ \<Rightarrow> 128)"

definition addr_nat :: "ip_addr \<Rightarrow> nat" where
  "addr_nat a = (case a of V4 v \<Rightarrow> unat v | V6 v \<Rightarrow> unat v)"

definition same_leading :: "nat \<Rightarrow> ip_addr \<Rightarrow> ip_addr \<Rightarrow> bool" where
  "same_leading p a b = (addr_bits a = addr_bits b \<and>
     addr_nat a div 2 ^ (addr_bits a - p) = addr_nat b div 2 ^ (addr_bits b - p))"

lemma and_push_bit_mask_eq_iff:
  fixes a b :: "'a::len word"
  shows "and b (push_bit k (- 1)) = and a (push_bit k (- 1)) \<longleftrightarrow> unat b div 2 ^ k = unat a div 2 ^ k"
proof -
  have "and b (push_bit k (- 1)) = and a (push_bit k (- 1)) \<longleftrightarrow> drop_bit k b = drop_bit k a"
  proof
    assume eq: "and b (push_bit k (- 1)) = and a (push_bit k (- 1))"
    show "drop_bit k b = drop_bit k a"
    proof (rule bit_eqI)
      fix n assume n: "possible_bit TYPE('a word) n"
      have "bit (and b (push_bit k (- 1))) (k + n) = bit (and a (push_bit k (- 1))) (k + n)"
        using eq by simp
      then show "bit (drop_bit k b) n = bit (drop_bit k a) n"
        using n bit_imp_le_length [of b "k + n"] bit_imp_le_length [of a "k + n"]
        by (auto simp: bit_and_iff bit_push_bit_iff bit_drop_bit_eq
            simp del: push_bit_minus_one_eq_not_mask push_bit_minus_one)
    qed
  next
    assume eq: "drop_bit k b = drop_bit k a"
    show "and b (push_bit k (- 1)) = and a (push_bit k (- 1))"
    proof (rule bit_eqI)
      fix n
      have "bit (drop_bit k b) (n - k) = bit (drop_bit k a) (n - k)" using eq by simp
      then show "bit (and b (push_bit k (- 1))) n = bit (and a (push_bit k (- 1))) n"
        by (auto simp: bit_and_iff bit_push_bit_iff bit_drop_bit_eq
            simp del: push_bit_minus_one_eq_not_mask push_bit_minus_one)
    qed
  qed
  also have "\<dots> \<longleftrightarrow> unat b div 2 ^ k = unat a div 2 ^ k"
    by (simp add: word_unat_eq_iff unat_drop_bit_eq flip: drop_bit_eq_div)
  finally show ?thesis .
qed

lemma unat_lt2p_words: "unat (v :: 32 word) < 2 ^ 32" "unat (w :: 128 word) < 2 ^ 128"
  by (rule order_less_le_trans [OF unsigned_less], simp)+

lemma unat_bounds: "unat (v :: 32 word) div 4294967296 = 0"
  "unat (w :: 128 word) div 340282366920938463463374607431768211456 = 0"
  using unat_lt2p_words(1) [of v] unat_lt2p_words(2) [of w] by simp_all

lemma prefix_mask_v4_leading:
  "and b (prefix_mask_v4 p) = and a (prefix_mask_v4 p) \<longleftrightarrow> unat b div 2 ^ (32 - p) = unat a div 2 ^ (32 - p)"
  by (cases "p = 0") (simp_all add: prefix_mask_v4_def and_push_bit_mask_eq_iff unat_bounds
      del: push_bit_minus_one_eq_not_mask push_bit_minus_one)

lemma prefix_mask_v6_leading:
  "and b (prefix_mask_v6 p) = and a (prefix_mask_v6 p) \<longleftrightarrow> unat b div 2 ^ (128 - p) = unat a div 2 ^ (128 - p)"
  by (cases "p = 0") (simp_all add: prefix_mask_v6_def and_push_bit_mask_eq_iff unat_bounds
      del: push_bit_minus_one_eq_not_mask push_bit_minus_one)

lemma cidr_parse_text:
  assumes "cidr_text value = Some (addr, prefix)" "parse_ip addr = Some a"
    "p = (case prefix of Some p \<Rightarrow> p | None \<Rightarrow> addr_bits a)"
  shows "cidr_parse parse_ip value =
    (if p \<le> addr_bits a
     then Some (case a of V4 v \<Rightarrow> BlockV4 (and v (prefix_mask_v4 p)) p
                        | V6 v \<Rightarrow> BlockV6 (and v (prefix_mask_v6 p)) p)
     else None)"
  using assms unfolding cidr_parse_def
  by (cases a; cases prefix) (simp_all add: addr_bits_def Let_def)

lemma cidr_contains_leading:
  assumes "cidr_text value = Some (addr, prefix)" "parse_ip addr = Some a"
    "cidr_parse parse_ip value = Some block"
  shows "cidr_contains block b \<longleftrightarrow>
    same_leading (case prefix of Some p \<Rightarrow> p | None \<Rightarrow> addr_bits a) b a"
  using assms(3) unfolding cidr_parse_text [where parse_ip = parse_ip, OF assms(1) assms(2) refl]
  by (cases a; cases b)
    (auto simp: same_leading_def addr_bits_def addr_nat_def prefix_mask_v4_leading
      prefix_mask_v6_leading split: if_splits)

section \<open>What the module promises\<close>

text \<open>C12 rfc3339_round_trip: every timestamp the formatter writes for a year of four digits
  is read back by the parser as exactly the seconds and nanoseconds it was made from.\<close>

theorem rfc3339_round_trip:
  assumes "fst (civil_from_days (secs div 86400)) \<in> {0..9999}" "ns < 10 ^ 9"
  shows "parse_rfc3339_timestamp (format_rfc3339_utc secs ns) = Some (Timestamp secs ns)"
proof -
  obtain year month day where c: "civil_from_days (secs div 86400) = (year, month, day)"
    by (cases "civil_from_days (secs div 86400)")
  show ?thesis using parse_format_rfc3339 [OF c _ _ assms(2)] assms(1) c by simp
qed

theorem rfc3339_round_trip_witness:
  "fst (civil_from_days (1782736496 div 86400)) = 2026 \<and>
   parse_rfc3339_timestamp (format_rfc3339_utc 1782736496 500000000)
     = Some (Timestamp 1782736496 500000000)"
proof -
  have c: "fst (civil_from_days (1782736496 div 86400)) = 2026" by code_simp
  then show ?thesis using rfc3339_round_trip [of 1782736496 500000000] by simp
qed



text \<open>A block parsed from text contains an address exactly when the
  address is of the same family as the block's and agrees with it on the leading bits the prefix
  names (all bits when the text has no prefix); the block is refused exactly when the prefix is
  longer than the family's addresses.\<close>

theorem cidr_contains_meaning:
  assumes "cidr_text value = Some (addr, prefix)" "parse_ip addr = Some a"
    "p = (case prefix of Some p \<Rightarrow> p | None \<Rightarrow> addr_bits a)"
  shows "case cidr_parse parse_ip value of
           Some block \<Rightarrow> p \<le> addr_bits a \<and> (\<forall>b. cidr_contains block b = same_leading p b a)
         | None \<Rightarrow> addr_bits a < p"
proof (cases "cidr_parse parse_ip value")
  case None
  then show ?thesis using cidr_parse_text [where parse_ip = parse_ip, OF assms] by (auto split: if_splits)
next
  case (Some block)
  then have "p \<le> addr_bits a"
    using cidr_parse_text [where parse_ip = parse_ip, OF assms] by (auto split: if_splits)
  then show ?thesis
    using Some cidr_contains_leading [where parse_ip = parse_ip, OF assms(1,2) Some] assms(3) by simp
qed

definition example_parse_ip :: "string \<Rightarrow> ip_addr option" where
  "example_parse_ip s = (if s = ''10.1.2.3'' then Some (V4 167838211) else None)"

theorem cidr_contains_meaning_witness:
  "cidr_parse example_parse_ip ''10.1.2.3/16'' = Some (BlockV4 167837696 16) \<and>
   cidr_contains (BlockV4 167837696 16) (V4 167838975) = same_leading 16 (V4 167838975) (V4 167838211)"
proof -
  have p: "cidr_parse example_parse_ip ''10.1.2.3/16'' = Some (BlockV4 167837696 16)" by code_simp
  have t: "cidr_text ''10.1.2.3/16'' = Some (''10.1.2.3'', Some 16)" by code_simp
  have a: "example_parse_ip ''10.1.2.3'' = Some (V4 167838211)" by (simp add: example_parse_ip_def)
  show ?thesis
    using cidr_contains_meaning [where parse_ip = example_parse_ip, OF t a refl] p
    by (simp del: cidr_contains.simps)
qed

end
