(* ===== verification/Address.thy ===== *)
theory Address
  imports Prelude
begin

text \<open>
  The addressing grammar of a package (src/src/address.rs): entity classes, steps,
  addresses and references, their parser, validator, printer and the resolution of a
  relative reference against a base.
\<close>

section \<open>Classes and steps\<close>

datatype entity_class =
    PackageClass | ManifestClass | GovernanceClass | VariableClass | CatalogClass | EntryClass
  | ListClass | EvaluationContextClass | SampleClass | LayerClass | LinterClass

definition all_classes :: "entity_class list" where
  "all_classes = [PackageClass, ManifestClass, GovernanceClass, VariableClass, CatalogClass,
     EntryClass, ListClass, EvaluationContextClass, SampleClass, LayerClass, LinterClass]"

fun class_name :: "entity_class \<Rightarrow> string" where
  "class_name PackageClass = ''package''"
| "class_name ManifestClass = ''manifest''"
| "class_name GovernanceClass = ''governance''"
| "class_name VariableClass = ''variable''"
| "class_name CatalogClass = ''catalog''"
| "class_name EntryClass = ''entry''"
| "class_name ListClass = ''list''"
| "class_name EvaluationContextClass = ''evaluation-context''"
| "class_name SampleClass = ''sample''"
| "class_name LayerClass = ''layer''"
| "class_name LinterClass = ''linter''"

definition parse_class_name :: "string \<Rightarrow> entity_class option" where
  "parse_class_name name = List.find (\<lambda>c. class_name c = name) all_classes"

definition is_singleton :: "entity_class \<Rightarrow> bool" where
  "is_singleton c = (c \<in> {PackageClass, ManifestClass, GovernanceClass})"

definition parent_class :: "entity_class \<Rightarrow> entity_class option" where
  "parent_class c =
     (case c of
        EntryClass \<Rightarrow> Some CatalogClass
      | SampleClass \<Rightarrow> Some EvaluationContextClass
      | _ \<Rightarrow> None)"

definition has_document :: "entity_class \<Rightarrow> bool" where
  "has_document c = (c \<noteq> PackageClass \<and> c \<noteq> LinterClass)"

datatype step_id = EmptyId | Subtree string | Entity string

record step =
  step_class :: entity_class
  step_ident :: step_id

datatype address_depth = DepthPackage | DepthCollective | DepthSubtree | DepthEntity

record address =
  steps :: "step list"
  pointer :: "string option"

section \<open>Validation\<close>

definition invalid :: "string \<Rightarrow> string \<Rightarrow> 'a res" where
  "invalid src msg = err (''invalid address '' @ quoted src @ '': '' @ msg)"

definition class_names :: string where
  "class_names = join_with '', '' (map class_name all_classes)"

definition bound_class :: "entity_class \<Rightarrow> string" where
  "bound_class c = quoted (class_name c @ ''='')"

definition id_char :: "char \<Rightarrow> bool" where
  "id_char c = (is_lower c \<or> is_digit c \<or> c = CHR ''_'')"

definition is_valid_entity_id :: "string \<Rightarrow> bool" where
  "is_valid_entity_id i =
     (i \<noteq> [] \<and> list_all (\<lambda>seg. seg \<noteq> [] \<and> list_all id_char seg) (split_on (CHR ''/'') i))"

definition validate_id :: "string \<Rightarrow> string \<Rightarrow> unit res" where
  "validate_id src i =
     (if i = [] then invalid src ''an id cannot be empty''
      else if \<not> is_valid_entity_id i then
        invalid src (''id '' @ quoted i @ '' must be lowercase snake_case segments separated by ''
                     @ quoted ''/'')
      else Inr ())"

text \<open>Every tilde is followed by a 0 or a 1.\<close>

fun tildes_ok :: "string \<Rightarrow> bool" where
  "tildes_ok [] = True"
| "tildes_ok (b # bs) =
     (if b = CHR ''~'' \<and> \<not> (case bs of c # _ \<Rightarrow> c = CHR ''0'' \<or> c = CHR ''1'' | [] \<Rightarrow> False)
      then False else tildes_ok bs)"

definition validate_pointer :: "string \<Rightarrow> string \<Rightarrow> string res" where
  "validate_pointer src p =
     (if p = [] then Inr []
      else if \<not> starts_with ''/'' p then
        invalid src (''JSON pointer '' @ quoted p @ '' must be empty or start with '' @ quoted ''/'')
      else if \<not> tildes_ok p then
        invalid src (''JSON pointer '' @ quoted p @ '' has a '' @ quoted ''~'' @ '' not followed by 0 or 1'')
      else Inr p)"

definition parse_step_id :: "string \<Rightarrow> entity_class \<Rightarrow> string \<Rightarrow> step_id res" where
  "parse_step_id src c i =
     (if i = [] then Inr EmptyId
      else if is_singleton c then
        invalid src (bound_class c @ '' is a singleton and takes no id'')
      else (case strip_suffix ''/'' i of
              Some prefix \<Rightarrow>
                if prefix = [] then
                  invalid src (quoted (class_name c @ ''=/'')
                    @ '' is not a subtree; the empty id is already the collective'')
                else rbind (validate_id src prefix) (\<lambda>_. Inr (Subtree prefix))
            | None \<Rightarrow> rbind (validate_id src i) (\<lambda>_. Inr (Entity i))))"

definition is_entity_id :: "step_id \<Rightarrow> bool" where
  "is_entity_id i = (case i of Entity _ \<Rightarrow> True | _ \<Rightarrow> False)"

text \<open>The loop of \<open>validate\<close>, with the step before the current one.\<close>

fun validate_steps :: "string \<Rightarrow> step option \<Rightarrow> step list \<Rightarrow> unit res" where
  "validate_steps src previous [] = Inr ()"
| "validate_steps src previous (st # rest) =
     (case (previous, parent_class (step_class st)) of
        (None, None) \<Rightarrow> validate_steps src (Some st) rest
      | (None, Some parent) \<Rightarrow>
          invalid src (bound_class (step_class st) @ '' only nests under '' @ bound_class parent
            @ ''; it cannot start an address'')
      | (Some _, None) \<Rightarrow>
          invalid src (bound_class (step_class st) @ '' is a root class; it cannot nest'')
      | (Some prev, Some parent) \<Rightarrow>
          if step_class prev \<noteq> parent then
            invalid src (bound_class (step_class st) @ '' nests under '' @ bound_class parent
              @ '', not '' @ bound_class (step_class prev))
          else if \<not> is_entity_id (step_ident prev) then
            invalid src (''nesting needs a concrete parent: give '' @ bound_class (step_class prev)
              @ '' an id before '' @ bound_class (step_class st))
          else validate_steps src (Some st) rest)"

text \<open>\<open>last_step\<close> expects a step; every address built by the module has one.\<close>

definition last_step :: "address \<Rightarrow> step" where
  "last_step a = last (steps a)"

definition is_entity :: "address \<Rightarrow> bool" where
  "is_entity a =
     (is_entity_id (step_ident (last_step a))
      \<or> (is_singleton (step_class (last_step a)) \<and> step_class (last_step a) \<noteq> PackageClass))"

definition validate :: "string \<Rightarrow> address \<Rightarrow> unit res" where
  "validate src a =
     rbind (validate_steps src None (steps a)) (\<lambda>_.
       case pointer a of
         None \<Rightarrow> Inr ()
       | Some _ \<Rightarrow>
           if \<not> is_entity a then
             invalid src ''a # pointer needs a concrete entity, not a collective or subtree''
           else if \<not> has_document (step_class (last_step a)) then
             invalid src (bound_class (step_class (last_step a))
               @ '' entities have no document for a # pointer to walk'')
           else Inr ())"

definition depth :: "address \<Rightarrow> address_depth" where
  "depth a =
     (case step_ident (last_step a) of
        EmptyId \<Rightarrow>
          if step_class (last_step a) = PackageClass then DepthPackage
          else if is_singleton (step_class (last_step a)) then DepthEntity
          else DepthCollective
      | Subtree _ \<Rightarrow> DepthSubtree
      | Entity _ \<Rightarrow> DepthEntity)"

section \<open>Parsing and printing\<close>

definition parse_segment :: "string \<Rightarrow> string \<Rightarrow> step res" where
  "parse_segment src segment =
     (case split_once (CHR ''='') segment of
        None \<Rightarrow>
          invalid src (''step '' @ quoted segment @ '' is missing the '' @ quoted ''=''
            @ '' between class and id'')
      | Some (name, i) \<Rightarrow>
          (case parse_class_name name of
             None \<Rightarrow>
               invalid src (''unknown entity class '' @ quoted name @ ''; expected one of '' @ class_names)
           | Some c \<Rightarrow>
               rbind (parse_step_id src c i) (\<lambda>sid. Inr \<lparr>step_class = c, step_ident = sid\<rparr>)))"

definition parse_pointer_part :: "string \<Rightarrow> string option \<Rightarrow> string option res" where
  "parse_pointer_part src p =
     (case p of
        Some p' \<Rightarrow> rbind (validate_pointer src p') (\<lambda>v. Inr (Some v))
      | None \<Rightarrow> Inr None)"

definition split_pointer :: "string \<Rightarrow> string \<times> string option" where
  "split_pointer src =
     (case split_once (CHR ''#'') src of
        Some (path, p) \<Rightarrow> (path, Some p)
      | None \<Rightarrow> (src, None))"

definition parse_address :: "string \<Rightarrow> address res" where
  "parse_address src =
     (case split_pointer src of (entity_path, p) \<Rightarrow>
        if entity_path = [] then
          invalid src ''an address needs at least one class=id step before any # pointer''
        else
          rbind (traverse (parse_segment src) (split_on (CHR '':'') entity_path)) (\<lambda>sts.
          rbind (parse_pointer_part src p) (\<lambda>ptr.
            let a = \<lparr>steps = sts, pointer = ptr\<rparr> in
            rbind (validate src a) (\<lambda>_. Inr a))))"

definition display_id :: "step_id \<Rightarrow> string" where
  "display_id i = (case i of EmptyId \<Rightarrow> [] | Subtree p \<Rightarrow> p @ ''/'' | Entity e \<Rightarrow> e)"

definition display_step :: "step \<Rightarrow> string" where
  "display_step st = class_name (step_class st) @ ''='' @ display_id (step_ident st)"

definition display_address :: "address \<Rightarrow> string" where
  "display_address a =
     join_with '':'' (map display_step (steps a))
     @ (case pointer a of None \<Rightarrow> [] | Some p \<Rightarrow> CHR ''#'' # p)"

section \<open>References\<close>

datatype reference =
    Absolute address
  | FragmentOnly string
  | BareId string "string option"

definition parse_reference :: "string \<Rightarrow> reference res" where
  "parse_reference src =
     (case strip_prefix ''#'' src of
        Some p \<Rightarrow> rbind (validate_pointer src p) (\<lambda>v. Inr (FragmentOnly v))
      | None \<Rightarrow>
          (case split_pointer src of (entity_part, p) \<Rightarrow>
             if CHR ''='' \<in> set entity_part \<or> CHR '':'' \<in> set entity_part then
               rbind (parse_address src) (\<lambda>a. Inr (Absolute a))
             else
               rbind (validate_id src entity_part) (\<lambda>_.
               rbind (parse_pointer_part src p) (\<lambda>ptr. Inr (BareId entity_part ptr)))))"

definition fill_slot :: "step list \<Rightarrow> string \<Rightarrow> step list" where
  "fill_slot sts i = butlast sts @ [(last sts)\<lparr>step_ident := Entity i\<rparr>]"

definition resolve_reference :: "reference \<Rightarrow> address \<Rightarrow> address res" where
  "resolve_reference ref base =
     (case ref of
        Absolute a \<Rightarrow> Inr a
      | FragmentOnly p \<Rightarrow>
          if \<not> is_entity base then
            err (''a fragment-only reference needs an entity base, got '' @ quoted (display_address base))
          else if \<not> has_document (step_class (last_step base)) then
            err (''the base '' @ quoted (display_address base)
                 @ '' has no document for a # pointer to walk'')
          else Inr \<lparr>steps = steps base, pointer = Some p\<rparr>
      | BareId i p \<Rightarrow>
          if is_singleton (step_class (last_step base)) \<or> step_ident (last_step base) \<noteq> EmptyId then
            err (''a bare id resolves against a base ending in an open id slot (for example ''
                 @ quoted ''catalog=x:entry='' @ ''), got '' @ quoted (display_address base))
          else
            let resolved = \<lparr>steps = fill_slot (steps base) i, pointer = p\<rparr> in
            rbind (validate (display_address resolved) resolved) (\<lambda>_. Inr resolved))"

section \<open>Well-formed addresses\<close>

text \<open>What the grammar at the head of the source file says, written over the parsed value.\<close>

definition wf_step :: "step \<Rightarrow> bool" where
  "wf_step st =
     (case step_ident st of
        EmptyId \<Rightarrow> True
      | Subtree p \<Rightarrow> \<not> is_singleton (step_class st) \<and> is_valid_entity_id p
      | Entity i \<Rightarrow> \<not> is_singleton (step_class st) \<and> is_valid_entity_id i)"

definition nests_under :: "step \<Rightarrow> step \<Rightarrow> bool" where
  "nests_under prev st =
     (parent_class (step_class st) = Some (step_class prev) \<and> is_entity_id (step_ident prev))"

definition wf_pointer :: "string \<Rightarrow> bool" where
  "wf_pointer p = (p = [] \<or> (\<exists>r. p = CHR ''/'' # r) \<and> tildes_ok p)"

definition wf_address :: "address \<Rightarrow> bool" where
  "wf_address a =
     (steps a \<noteq> [] \<and> (\<forall>st \<in> set (steps a). wf_step st)
      \<and> parent_class (step_class (hd (steps a))) = None
      \<and> successively nests_under (steps a)
      \<and> (\<forall>p. pointer a = Some p \<longrightarrow>
           wf_pointer p \<and> is_entity a \<and> has_document (step_class (last_step a))))"

lemma invalid_not_Inr [simp]: "invalid src m \<noteq> Inr x"
  by (simp add: invalid_def)

lemma parse_class_name_iff: "parse_class_name name = Some c \<longleftrightarrow> name = class_name c"
proof
  assume "parse_class_name name = Some c"
  then show "name = class_name c"
    unfolding parse_class_name_def by (auto simp: find_Some_iff)
next
  assume "name = class_name c"
  then show "parse_class_name name = Some c"
    by (cases c) (simp_all add: parse_class_name_def all_classes_def)
qed

lemma parse_class_name_name [simp]: "parse_class_name (class_name c) = Some c"
  by (simp add: parse_class_name_iff)

lemma class_name_inject: "class_name a = class_name b \<longleftrightarrow> a = b"
  using parse_class_name_iff [of "class_name a"] by (metis option.inject)

lemma class_name_chars: "CHR ''='' \<notin> set (class_name c)" "CHR '':'' \<notin> set (class_name c)"
  "CHR ''#'' \<notin> set (class_name c)" "class_name c \<noteq> []"
  by (cases c; simp)+

lemma id_chars: "id_char c \<Longrightarrow> c \<noteq> CHR ''='' \<and> c \<noteq> CHR '':'' \<and> c \<noteq> CHR ''#'' \<and> c \<noteq> CHR ''/''"
  by (auto simp: id_char_def is_lower_def is_digit_def)

lemma join_chars: "c \<in> set (join_with sep xs) \<Longrightarrow> (\<exists>x \<in> set xs. c \<in> set x) \<or> c \<in> set sep"
  by (induction sep xs rule: join_with.induct) auto

lemma valid_id_chars:
  assumes "is_valid_entity_id i" "c \<in> set i"
  shows "id_char c \<or> c = CHR ''/''"
proof -
  have "c \<in> set (join_with ''/'' (split_on (CHR ''/'') i))" using assms(2) by simp
  then consider x where "x \<in> set (split_on (CHR ''/'') i)" "c \<in> set x" | "c \<in> set ''/''"
    using join_chars by blast
  then show ?thesis
    using assms(1) by cases (auto simp: is_valid_entity_id_def list_all_iff)
qed

lemma valid_id_no_marks:
  "is_valid_entity_id i \<Longrightarrow> CHR ''='' \<notin> set i \<and> CHR '':'' \<notin> set i \<and> CHR ''#'' \<notin> set i"
proof (intro conjI notI)
  assume "is_valid_entity_id i"
  note chars = valid_id_chars [OF this]
  show False if "CHR ''='' \<in> set i" using chars [OF that] by (simp add: id_char_def is_lower_def is_digit_def)
  show False if "CHR '':'' \<in> set i" using chars [OF that] by (simp add: id_char_def is_lower_def is_digit_def)
  show False if "CHR ''#'' \<in> set i" using chars [OF that] by (simp add: id_char_def is_lower_def is_digit_def)
qed

lemma split_on_snoc_sep: "split_on c (a @ [c]) = split_on c a @ [[]]"
  by (induction a) (auto split: list.splits)

lemma valid_id_no_trailing: "is_valid_entity_id i \<Longrightarrow> i \<noteq> p @ ''/''"
  by (auto simp: is_valid_entity_id_def split_on_snoc_sep)

lemma valid_id_nonempty: "is_valid_entity_id i \<Longrightarrow> i \<noteq> []"
  by (simp add: is_valid_entity_id_def)

lemma validate_id_Inr: "validate_id src i = Inr u \<longleftrightarrow> is_valid_entity_id i"
  by (auto simp: validate_id_def is_valid_entity_id_def)

lemma validate_pointer_Inr: "validate_pointer src p = Inr v \<longleftrightarrow> v = p \<and> wf_pointer p"
  by (auto simp: validate_pointer_def wf_pointer_def starts_with_iff)

lemma parse_pointer_part_Inr:
  "parse_pointer_part src p = Inr v \<longleftrightarrow> v = p \<and> (\<forall>q. p = Some q \<longrightarrow> wf_pointer q)"
  by (cases p) (auto simp: parse_pointer_part_def rbind_eq_Inr validate_pointer_Inr)

lemma strip_suffix_append: "strip_suffix p (a @ p) = Some a"
  by (simp add: strip_suffix_Some_iff)

lemma parse_step_id_Inr:
  "parse_step_id src c i = Inr sid \<longleftrightarrow>
     i = display_id sid \<and> wf_step \<lparr>step_class = c, step_ident = sid\<rparr>"
proof (cases sid)
  case EmptyId
  then show ?thesis
    by (auto simp: parse_step_id_def display_id_def wf_step_def rbind_eq_Inr split: option.splits if_splits)
next
  case (Subtree p)
  then show ?thesis
    using valid_id_nonempty [of p]
    by (auto simp: parse_step_id_def display_id_def wf_step_def rbind_eq_Inr validate_id_Inr
        strip_suffix_Some_iff strip_suffix_append split: option.splits if_splits)
next
  case (Entity e)
  show ?thesis
  proof
    assume "parse_step_id src c i = Inr sid"
    with Entity show "i = display_id sid \<and> wf_step \<lparr>step_class = c, step_ident = sid\<rparr>"
      by (auto simp: parse_step_id_def display_id_def wf_step_def rbind_eq_Inr validate_id_Inr
          split: option.splits if_splits)
  next
    assume i: "i = display_id sid \<and> wf_step \<lparr>step_class = c, step_ident = sid\<rparr>"
    with Entity have e: "i = e" "\<not> is_singleton c" "is_valid_entity_id e"
      by (simp_all add: display_id_def wf_step_def)
    then have "strip_suffix ''/'' i = None"
      using valid_id_no_trailing [of e] strip_suffix_Some_iff [of "''/''" i] by (cases "strip_suffix ''/'' i") auto
    with e Entity show "parse_step_id src c i = Inr sid"
      using valid_id_nonempty [of e] by (simp add: parse_step_id_def rbind_def validate_id_Inr validate_id_def)
  qed
qed

lemma validate_steps_Inr_some:
  "validate_steps src (Some prev) sts = Inr u \<longleftrightarrow> successively nests_under (prev # sts)"
proof (induction sts arbitrary: prev)
  case (Cons st sts)
  show ?case
  proof (cases "nests_under prev st")
    case True
    with Cons.IH [of st] show ?thesis by (simp add: nests_under_def)
  next
    case False
    then show ?thesis by (auto simp: nests_under_def split: option.splits)
  qed
qed simp

lemma validate_steps_Inr:
  "sts \<noteq> [] \<Longrightarrow> validate_steps src None sts = Inr u \<longleftrightarrow>
     parent_class (step_class (hd sts)) = None \<and> successively nests_under sts"
  by (cases sts) (auto simp: validate_steps_Inr_some split: option.splits)

lemma validate_Inr:
  assumes "steps a \<noteq> []"
  shows "validate src a = Inr u \<longleftrightarrow>
     parent_class (step_class (hd (steps a))) = None \<and> successively nests_under (steps a)
     \<and> (\<forall>p. pointer a = Some p \<longrightarrow> is_entity a \<and> has_document (step_class (last_step a)))"
  using assms by (auto simp: validate_def rbind_eq_Inr validate_steps_Inr split: option.splits if_splits)

lemma parse_segment_Inr:
  "parse_segment src seg = Inr st \<longleftrightarrow> seg = display_step st \<and> wf_step st"
proof -
  obtain c sid where st: "st = \<lparr>step_class = c, step_ident = sid\<rparr>" by (cases st)
  have "parse_segment src seg = Inr st \<longleftrightarrow>
      split_once (CHR ''='') seg = Some (class_name c, display_id sid) \<and> wf_step st"
    unfolding st parse_segment_def
    by (auto simp: rbind_eq_Inr parse_class_name_iff class_name_inject parse_step_id_Inr split: option.splits)
  then show ?thesis
    by (simp add: st display_step_def split_once_Some_iff class_name_chars)
qed

lemma traverse_segments_Inr:
  "traverse (parse_segment src) segs = Inr sts \<longleftrightarrow> segs = map display_step sts \<and> (\<forall>st \<in> set sts. wf_step st)"
proof (induction segs arbitrary: sts)
  case (Cons seg segs)
  show ?case by (cases sts) (auto simp: rbind_eq_Inr parse_segment_Inr Cons.IH)
qed auto

lemma display_step_chars:
  assumes "wf_step st"
  shows "CHR '':'' \<notin> set (display_step st)" "CHR ''#'' \<notin> set (display_step st)"
  using assms class_name_chars valid_id_no_marks
  by (auto simp: wf_step_def display_step_def display_id_def split: step_id.splits)

lemma display_step_nonempty [simp]: "display_step st \<noteq> []"
  by (simp add: display_step_def)

lemma join_nonempty: "xs \<noteq> [] \<Longrightarrow> hd xs \<noteq> [] \<Longrightarrow> join_with sep xs \<noteq> []"
  by (cases xs; cases "tl xs") auto

lemma join_steps:
  assumes "\<forall>st \<in> set sts. wf_step st" "sts \<noteq> []"
  shows "split_on (CHR '':'') (join_with '':'' (map display_step sts)) = map display_step sts"
    "CHR ''#'' \<notin> set (join_with '':'' (map display_step sts))"
    "join_with '':'' (map display_step sts) \<noteq> []"
proof -
  show "split_on (CHR '':'') (join_with '':'' (map display_step sts)) = map display_step sts"
    using assms display_step_chars(1) by (intro split_on_join) auto
  show "CHR ''#'' \<notin> set (join_with '':'' (map display_step sts))"
    using assms(1) display_step_chars(2) join_chars [of "CHR ''#''" "'':''" "map display_step sts"] by auto
  show "join_with '':'' (map display_step sts) \<noteq> []"
    using assms(2) by (intro join_nonempty) (auto simp: hd_map)
qed

lemma split_pointer_iff:
  "split_pointer src = (path, p) \<longleftrightarrow>
     src = path @ (case p of None \<Rightarrow> [] | Some q \<Rightarrow> CHR ''#'' # q) \<and> CHR ''#'' \<notin> set path"
proof
  assume "split_pointer src = (path, p)"
  then show "src = path @ (case p of None \<Rightarrow> [] | Some q \<Rightarrow> CHR ''#'' # q) \<and> CHR ''#'' \<notin> set path"
    by (auto simp: split_pointer_def split_once_Some_iff split_once_None_iff split: option.splits)
next
  assume "src = path @ (case p of None \<Rightarrow> [] | Some q \<Rightarrow> CHR ''#'' # q) \<and> CHR ''#'' \<notin> set path"
  moreover from this have "p = None \<Longrightarrow> split_once (CHR ''#'') src = None"
    by (simp add: split_once_None_iff)
  ultimately show "split_pointer src = (path, p)"
    by (cases p) (simp_all add: split_pointer_def)
qed

lemma parse_address_Inr: "parse_address src = Inr a \<longleftrightarrow> wf_address a \<and> src = display_address a"
proof -
  obtain path p where sp: "split_pointer src = (path, p)" by (cases "split_pointer src")
  note src = sp [unfolded split_pointer_iff]
  obtain sts ptr where a: "a = \<lparr>steps = sts, pointer = ptr\<rparr>" by (cases a)
  have parse: "parse_address src = Inr a \<longleftrightarrow>
      path \<noteq> [] \<and> split_on (CHR '':'') path = map display_step sts \<and> (\<forall>st \<in> set sts. wf_step st)
      \<and> ptr = p \<and> (\<forall>q. p = Some q \<longrightarrow> wf_pointer q) \<and> validate src a = Inr ()"
    unfolding parse_address_def sp a
    by (auto simp: rbind_eq_Inr traverse_segments_Inr parse_pointer_part_Inr Let_def)
  show ?thesis
  proof
    assume "parse_address src = Inr a"
    note f = this [unfolded parse]
    then have ne: "sts \<noteq> []" by auto
    have v: "parent_class (step_class (hd sts)) = None \<and> successively nests_under sts
        \<and> (\<forall>p. ptr = Some p \<longrightarrow> is_entity a \<and> has_document (step_class (last_step a)))"
    proof -
      have sa: "steps a = sts" "pointer a = ptr" by (simp_all add: a)
      have "validate src a = Inr ()" using f by blast
      then show ?thesis using validate_Inr [of a src "()"] ne unfolding sa by blast
    qed
    from f have "path = join_with '':'' (map display_step sts)"
      using join_split_on [of "CHR '':''" path] by simp
    with f ne src v show "wf_address a \<and> src = display_address a"
      by (auto simp: a wf_address_def display_address_def)
  next
    assume w: "wf_address a \<and> src = display_address a"
    then have ne: "sts \<noteq> []" and ws: "\<forall>st \<in> set sts. wf_step st" by (simp_all add: a wf_address_def)
    note js = join_steps [OF ws ne]
    have "split_pointer src = (join_with '':'' (map display_step sts), ptr)"
      unfolding split_pointer_iff using w js by (simp add: display_address_def a)
    with sp have "path = join_with '':'' (map display_step sts)" "p = ptr" by simp_all
    then show "parse_address src = Inr a"
      unfolding parse using js ws w validate_Inr [of a src "()"] ne by (simp add: a wf_address_def)
  qed
qed

lemma wf_step_entity: "step_ident (last sts) = EmptyId \<Longrightarrow> \<not> is_singleton (step_class (last sts)) \<Longrightarrow>
  is_valid_entity_id i \<Longrightarrow> wf_step ((last sts)\<lparr>step_ident := Entity i\<rparr>)"
  by (simp add: wf_step_def)

lemma fill_slot_wf:
  assumes "\<forall>st \<in> set sts. wf_step st" "step_ident (last sts) = EmptyId" "\<not> is_singleton (step_class (last sts))"
    "is_valid_entity_id i"
  shows "\<forall>st \<in> set (fill_slot sts i). wf_step st"
  using assms wf_step_entity [OF assms(2,3,4)] unfolding fill_slot_def by (auto dest: in_set_butlastD)

lemma parse_reference_parts:
  assumes "parse_reference src = Inr ref"
  shows "case ref of Absolute a \<Rightarrow> wf_address a | FragmentOnly p \<Rightarrow> wf_pointer p
    | BareId i p \<Rightarrow> is_valid_entity_id i \<and> (\<forall>q. p = Some q \<longrightarrow> wf_pointer q)"
  using assms
  by (auto simp: parse_reference_def rbind_eq_Inr validate_pointer_Inr validate_id_Inr parse_address_Inr
      parse_pointer_part_Inr split: option.splits prod.splits if_splits)

lemma resolve_reference_wf:
  assumes "parse_reference src = Inr ref" "wf_address base" "resolve_reference ref base = Inr a"
  shows "wf_address a"
proof (cases ref)
  case (Absolute b)
  with assms parse_reference_parts [OF assms(1)] show ?thesis by (simp add: resolve_reference_def)
next
  case (FragmentOnly p)
  with assms parse_reference_parts [OF assms(1)] show ?thesis
    by (auto simp: resolve_reference_def wf_address_def is_entity_def last_step_def split: if_splits)
next
  case (BareId i p)
  let ?r = "\<lparr>steps = fill_slot (steps base) i, pointer = p\<rparr>"
  from assms(3) BareId have r: "a = ?r" "validate (display_address ?r) ?r = Inr ()"
    "step_ident (last (steps base)) = EmptyId" "\<not> is_singleton (step_class (last (steps base)))"
    by (auto simp: resolve_reference_def rbind_eq_Inr Let_def last_step_def split: if_splits)
  from parse_reference_parts [OF assms(1)] BareId
  have i: "is_valid_entity_id i" "\<forall>q. p = Some q \<longrightarrow> wf_pointer q" by simp_all
  have "\<forall>st \<in> set (fill_slot (steps base) i). wf_step st"
    by (rule fill_slot_wf) (use assms(2) r i in \<open>auto simp: wf_address_def\<close>)
  moreover have "steps ?r \<noteq> []" by (simp add: fill_slot_def)
  ultimately show ?thesis using r(1,2) i validate_Inr [of ?r] by (simp add: wf_address_def)
qed

section \<open>Properties\<close>

text \<open>C20 address_grammar: the parser accepts exactly the texts of well-formed addresses, and
  reads each as the address it is the text of: parsing what is printed gives the address back, printing
  what was parsed gives the text back, and nothing malformed gets through.\<close>

theorem address_grammar: "parse_address src = Inr a \<longleftrightarrow> wf_address a \<and> src = display_address a"
  by (rule parse_address_Inr)

text \<open>Resolving a parsed reference against a well-formed base either
  fails or gives an address that is itself in the grammar, so that its text parses back to it.\<close>

theorem resolved_reference_valid:
  assumes "parse_reference src = Inr ref" "wf_address base" "resolve_reference ref base = Inr a"
  shows "wf_address a \<and> parse_address (display_address a) = Inr a"
  using resolve_reference_wf [OF assms] by (simp add: parse_address_Inr)

theorem resolved_reference_valid_witness:
  "parse_address (display_address \<lparr>steps = [\<lparr>step_class = CatalogClass, step_ident = Entity ''mail''\<rparr>,
       \<lparr>step_class = EntryClass, step_ident = Entity ''welcome''\<rparr>], pointer = Some ''/body''\<rparr>)
   = Inr \<lparr>steps = [\<lparr>step_class = CatalogClass, step_ident = Entity ''mail''\<rparr>,
       \<lparr>step_class = EntryClass, step_ident = Entity ''welcome''\<rparr>], pointer = Some ''/body''\<rparr>"
proof -
  let ?base = "\<lparr>steps = [\<lparr>step_class = CatalogClass, step_ident = Entity ''mail''\<rparr>,
       \<lparr>step_class = EntryClass, step_ident = EmptyId\<rparr>], pointer = None\<rparr>"
  have "parse_reference ''welcome#/body'' = Inr (BareId ''welcome'' (Some ''/body''))" by code_simp
  moreover have "parse_address ''catalog=mail:entry='' = Inr ?base" by code_simp
  then have "wf_address ?base" by (simp add: parse_address_Inr)
  moreover have "resolve_reference (BareId ''welcome'' (Some ''/body'')) ?base
      = Inr \<lparr>steps = [\<lparr>step_class = CatalogClass, step_ident = Entity ''mail''\<rparr>,
       \<lparr>step_class = EntryClass, step_ident = Entity ''welcome''\<rparr>], pointer = Some ''/body''\<rparr>" by code_simp
  ultimately show ?thesis by (rule resolved_reference_valid [THEN conjunct2])
qed

end
