(* ===== verification/Cel_Analysis.thy ===== *)
theory Cel_Analysis
  imports Json Predicates
begin

text \<open>
  The analysis of an expression (src/src/expression/references.rs, types.rs,
  upcoming.rs, and the data of mod.rs): which context and entry paths, variables
  and lists it reads, the scalar family each context path is used as, whether it is
  boolean, and the instants it compares \<open>env.now\<close> against. The syntax tree is the
  \<open>cel\<close> crate's; the datatype has the variants and fields the sources match on, an
  operator is kept apart from a named function so that the crate's spelling of
  operators plays no role, and literal kinds the sources do not name are one
  constructor. Node ids are dropped: nothing reads them.
\<close>

section \<open>The syntax tree\<close>

datatype operator =
    EQUALS | NOT_EQUALS | LESS | LESS_EQUALS | GREATER | GREATER_EQUALS
  | IN | LOGICAL_AND | LOGICAL_OR | LOGICAL_NOT | INDEX

datatype callee = Operator operator | Function string

datatype literal =
    LBoolean bool
  | LInt int
  | LUInt nat
  | LDouble rat
  | LString string
  | LOther string

datatype cel =
    Call callee "cel option" "cel list"
  | Comprehension (iter_range: cel) (iter_var: string) (iter_var2: "string option")
      (accu_var: string) (accu_init: cel) (loop_cond: cel) (loop_step: cel) (comp_result: cel)
  | ListExpr "cel list"
  | MapExpr "cel_entry list"
  | Select cel string
  | StructExpr string "cel_entry list"
  | Ident string
  | Literal literal
  | Unspecified
and cel_entry = MapEntry cel cel | StructField string cel

fun entry_parts :: "cel_entry \<Rightarrow> cel list" where
  "entry_parts (MapEntry k v) = [k, v]"
| "entry_parts (StructField _ v) = []"

fun field_parts :: "cel_entry \<Rightarrow> cel list" where
  "field_parts (StructField _ v) = [v]"
| "field_parts (MapEntry k v) = []"

fun cel_children :: "cel \<Rightarrow> cel list" where
  "cel_children (Call f target args) = (case target of Some t \<Rightarrow> [t] | None \<Rightarrow> []) @ args"
| "cel_children (Comprehension rng v v2 accu ini cond step res) = [rng, ini, cond, step, res]"
| "cel_children (ListExpr elements) = elements"
| "cel_children (MapExpr entries) = concat (map entry_parts entries)"
| "cel_children (Select operand field) = [operand]"
| "cel_children (StructExpr name entries) = concat (map field_parts entries)"
| "cel_children (Ident _) = []"
| "cel_children (Literal _) = []"
| "cel_children Unspecified = []"

lemma size_entry_parts: "c \<in> set (entry_parts e) \<Longrightarrow> size c < size e"
  by (cases e) auto

lemma size_field_parts: "c \<in> set (field_parts e) \<Longrightarrow> size c < size e"
  by (cases e) auto

lemma size_list_member: "e \<in> set es \<Longrightarrow> size e \<le> size_list size es"
  by (simp add: size_list_estimation')

lemma cel_children_size: "c \<in> set (cel_children e) \<Longrightarrow> size c < size e"
proof (induction e rule: cel_children.induct)
  case (4 entries)
  then obtain en where "en \<in> set entries" "size c < size en" by (auto dest: size_entry_parts)
  with size_list_member [of en entries] show ?case by simp
next
  case (6 name entries)
  then obtain en where "en \<in> set entries" "size c < size en" by (auto dest: size_field_parts)
  with size_list_member [of en entries] show ?case by simp
qed (auto split: option.splits dest: size_list_member)

text \<open>A chain \<open>root.a.b\<close> or \<open>root["a"]["b"]\<close>: its root and its segments.\<close>

fun cel_path :: "cel \<Rightarrow> (string \<times> string list) option" where
  "cel_path (Ident name) = Some (name, [])"
| "cel_path (Select operand field) =
     (case cel_path operand of
        None \<Rightarrow> None
      | Some (rt, segments) \<Rightarrow> Some (rt, segments @ [field]))"
| "cel_path (Call (Operator INDEX) None [operand, Literal (LString key)]) =
     (case cel_path operand of
        None \<Rightarrow> None
      | Some (rt, segments) \<Rightarrow> Some (rt, segments @ [key]))"
| "cel_path _ = None"

section \<open>References\<close>

datatype scalar_type = TyBool | TyNumber | TyString | TyIp | TyTimestamp

datatype root_issue =
    LegacyQualifier
  | UnknownEnvMember string
  | UnknownRoot string

text \<open>The derived orders, which fix the order of the sets below.\<close>

fun scalar_rank :: "scalar_type \<Rightarrow> nat" where
  "scalar_rank TyBool = 0"
| "scalar_rank TyNumber = 1"
| "scalar_rank TyString = 2"
| "scalar_rank TyIp = 3"
| "scalar_rank TyTimestamp = 4"

lemma scalar_rank_inject [simp]: "scalar_rank a = scalar_rank b \<longleftrightarrow> a = b"
  by (cases a; cases b) auto

instantiation scalar_type :: linorder
begin

definition less_scalar_type :: "scalar_type \<Rightarrow> scalar_type \<Rightarrow> bool" where
  "a < b = (scalar_rank a < scalar_rank b)"

definition less_eq_scalar_type :: "scalar_type \<Rightarrow> scalar_type \<Rightarrow> bool" where
  "a \<le> b = (scalar_rank a \<le> scalar_rank b)"

instance
  by standard (auto simp: less_scalar_type_def less_eq_scalar_type_def antisym)

end

fun issue_rank :: "root_issue \<Rightarrow> nat \<times> string" where
  "issue_rank LegacyQualifier = (0, [])"
| "issue_rank (UnknownEnvMember m) = (1, m)"
| "issue_rank (UnknownRoot r) = (2, r)"

lemma issue_rank_inject: "issue_rank a = issue_rank b \<longleftrightarrow> a = b"
  by (cases a; cases b) auto

definition issue_le :: "root_issue \<Rightarrow> root_issue \<Rightarrow> bool" where
  "issue_le a b = (fst (issue_rank a) < fst (issue_rank b)
     \<or> (fst (issue_rank a) = fst (issue_rank b) \<and> snd (issue_rank a) \<le> snd (issue_rank b)))"

instantiation root_issue :: linorder
begin

definition less_eq_root_issue :: "root_issue \<Rightarrow> root_issue \<Rightarrow> bool" where
  "a \<le> b = issue_le a b"

definition less_root_issue :: "root_issue \<Rightarrow> root_issue \<Rightarrow> bool" where
  "a < b = (issue_le a b \<and> a \<noteq> b)"

instance
proof
  fix a b :: root_issue
  assume "a \<le> b" "b \<le> a"
  then have "issue_rank a = issue_rank b"
    by (intro prod_eqI) (auto simp: less_eq_root_issue_def issue_le_def)
  then show "a = b" by (simp add: issue_rank_inject)
next
  fix a b :: root_issue
  show "(a < b) = (a \<le> b \<and> \<not> b \<le> a)"
  proof
    assume "a < b"
    then have ab: "issue_le a b" "issue_rank a \<noteq> issue_rank b"
      by (auto simp: less_root_issue_def issue_rank_inject)
    then have "\<not> issue_le b a" by (auto simp: issue_le_def prod_eq_iff)
    with ab show "a \<le> b \<and> \<not> b \<le> a" by (simp add: less_eq_root_issue_def)
  qed (auto simp: less_eq_root_issue_def less_root_issue_def issue_le_def)
qed (auto simp: less_eq_root_issue_def issue_le_def)

end

record expression_references =
  context_paths :: "string bset"
  entry_paths :: "string bset"
  ref_variables :: "string bset"
  ref_lists :: "string bset"
  context_path_lists :: "(string, string bset) bmap"
  context_path_types :: "(string, scalar_type bset) bmap"
  invalid_roots :: "root_issue bset"
  uses_resolving :: bool

definition no_references :: expression_references where
  "no_references = \<lparr>context_paths = [], entry_paths = [], ref_variables = [], ref_lists = [],
     context_path_lists = [], context_path_types = [], invalid_roots = [], uses_resolving = False\<rparr>"

definition describe_issue :: "root_issue \<Rightarrow> string" where
  "describe_issue issue =
     (case issue of
        LegacyQualifier \<Rightarrow>
          ''expression uses the retired qualifier root; qualifiers dissolved into bool variables, referenced as variables['' @ quote @ ''<id>'' @ quote @ '']''
      | UnknownEnvMember m \<Rightarrow> ''expression references unknown env member: env.'' @ m
      | UnknownRoot r \<Rightarrow> ''expression references unknown identifier: '' @ r)"

definition matches_schema_type :: "scalar_type \<Rightarrow> string \<Rightarrow> bool" where
  "matches_schema_type ty schema_type =
     (case ty of
        TyBool \<Rightarrow> schema_type = ''boolean''
      | TyNumber \<Rightarrow> schema_type = ''number'' \<or> schema_type = ''integer''
      | TyString \<Rightarrow> schema_type = ''string''
      | TyIp \<Rightarrow> schema_type = ''string''
      | TyTimestamp \<Rightarrow> schema_type = ''string'')"

definition required_formats :: "scalar_type \<Rightarrow> string list" where
  "required_formats ty =
     (case ty of
        TyIp \<Rightarrow> [''ipv4'', ''ipv6'']
      | TyTimestamp \<Rightarrow> [''date-time'']
      | _ \<Rightarrow> [])"

definition type_label :: "scalar_type \<Rightarrow> string" where
  "type_label ty =
     (case ty of
        TyBool \<Rightarrow> ''boolean''
      | TyNumber \<Rightarrow> ''number''
      | TyString \<Rightarrow> ''string''
      | TyIp \<Rightarrow> ''an IP address''
      | TyTimestamp \<Rightarrow> ''a timestamp'')"

datatype reference =
    RefContext string
  | RefEntry string
  | RefVariable string
  | RefList string
  | RefEnvNow
  | RefResolvingVariable

definition reference_of_path :: "string \<Rightarrow> string list \<Rightarrow> reference option" where
  "reference_of_path rt segments =
     (if segments = [] then None
      else if rt = ''context'' then Some (RefContext (join_with ''.'' segments))
      else if rt = ''entry'' then Some (RefEntry (join_with ''.'' segments))
      else if rt = ''variables'' then Some (RefVariable (hd segments))
      else if rt = ''lists'' then Some (RefList (hd segments))
      else if rt = ''env'' then
        (if segments = [''now''] then Some RefEnvNow
         else if segments = [''resolving'', ''variable''] then Some RefResolvingVariable
         else None)
      else None)"

definition cel_reference :: "cel \<Rightarrow> reference option" where
  "cel_reference e =
     (case cel_path e of None \<Rightarrow> None | Some (rt, segments) \<Rightarrow> reference_of_path rt segments)"

definition issue_of_path :: "string \<Rightarrow> string list \<Rightarrow> root_issue option" where
  "issue_of_path rt segments =
     (if segments = [] then None
      else if rt \<in> {''context'', ''entry'', ''variables'', ''lists''} then None
      else if rt = ''env'' then
        (if segments = [''now''] then None
         else if length segments = 2 \<and> hd segments = ''qualifier'' then Some LegacyQualifier
         else if segments = [''resolving'', ''variable''] then None
         else Some (UnknownEnvMember (join_with ''.'' segments)))
      else if rt = ''qualifier'' then Some LegacyQualifier
      else Some (UnknownRoot rt))"

definition cel_root_issue :: "cel \<Rightarrow> root_issue option" where
  "cel_root_issue e =
     (case cel_path e of None \<Rightarrow> None | Some (rt, segments) \<Rightarrow> issue_of_path rt segments)"

section \<open>Type constraints\<close>

text \<open>\<open>types.entry(path).or_default().insert(scalar)\<close>.\<close>

definition bm_add :: "string \<Rightarrow> 'a::linorder \<Rightarrow> (string, 'a bset) bmap \<Rightarrow> (string, 'a bset) bmap" where
  "bm_add k x m = bm_insert k (bs_insert x (case map_of m k of Some xs \<Rightarrow> xs | None \<Rightarrow> [])) m"

definition cel_context_path :: "cel \<Rightarrow> string option" where
  "cel_context_path e =
     (case cel_path e of
        None \<Rightarrow> None
      | Some (rt, segments) \<Rightarrow>
          if rt = ''context'' \<and> segments \<noteq> [] then Some (join_with ''.'' segments) else None)"

definition cel_literal_scalar :: "cel \<Rightarrow> scalar_type option" where
  "cel_literal_scalar e =
     (case e of
        Literal (LBoolean _) \<Rightarrow> Some TyBool
      | Literal (LInt _) \<Rightarrow> Some TyNumber
      | Literal (LUInt _) \<Rightarrow> Some TyNumber
      | Literal (LDouble _) \<Rightarrow> Some TyNumber
      | Literal (LString _) \<Rightarrow> Some TyString
      | _ \<Rightarrow> None)"

definition cel_literal_ordering :: "cel \<Rightarrow> scalar_type option" where
  "cel_literal_ordering e =
     (case cel_literal_scalar e of Some TyBool \<Rightarrow> None | other \<Rightarrow> other)"

type_synonym path_types = "(string, scalar_type bset) bmap"

definition constrain_side :: "(cel \<Rightarrow> scalar_type option) \<Rightarrow> cel \<Rightarrow> cel \<Rightarrow> path_types \<Rightarrow> path_types" where
  "constrain_side classify path_side literal_side types =
     (case (cel_context_path path_side, classify literal_side) of
        (Some path, Some scalar) \<Rightarrow> bm_add path scalar types
      | _ \<Rightarrow> types)"

definition constrain_pair :: "cel list \<Rightarrow> (cel \<Rightarrow> scalar_type option) \<Rightarrow> path_types \<Rightarrow> path_types" where
  "constrain_pair args classify types =
     (case args of
        [a, b] \<Rightarrow> constrain_side classify b a (constrain_side classify a b types)
      | _ \<Rightarrow> types)"

definition constrain_all :: "scalar_type \<Rightarrow> cel list \<Rightarrow> path_types \<Rightarrow> path_types" where
  "constrain_all scalar args types =
     fold (\<lambda>arg ts. case cel_context_path arg of Some path \<Rightarrow> bm_add path scalar ts | None \<Rightarrow> ts) args types"

definition constrain_members :: "cel list \<Rightarrow> path_types \<Rightarrow> path_types" where
  "constrain_members args types =
     (case args of
        [a, ListExpr elements] \<Rightarrow>
          (case cel_context_path a of
             None \<Rightarrow> types
           | Some path \<Rightarrow>
               fold (\<lambda>el ts. case cel_literal_scalar el of Some sc \<Rightarrow> bm_add path sc ts | None \<Rightarrow> ts)
                 elements types)
      | _ \<Rightarrow> types)"

definition string_arg0_function :: "string \<Rightarrow> bool" where
  "string_arg0_function name = (name \<in> {''startsWith'', ''starts_with'', ''prefix'', ''endsWith'',
     ''ends_with'', ''suffix'', ''matches'', ''regex'', ''glob'', ''semver''})"

definition refined_arg0_function :: "string \<Rightarrow> scalar_type option" where
  "refined_arg0_function name =
     (if name \<in> {''cidr'', ''inCidr'', ''in_cidr''} then Some TyIp
      else if name \<in> {''timeAfter'', ''time_after'', ''timeAtOrAfter'', ''time_at_or_after'',
        ''timeBefore'', ''time_before'', ''timeAtOrBefore'', ''time_at_or_before'', ''timeBetween'',
        ''time_between''} then Some TyTimestamp
      else None)"

definition constrain_arg0 :: "scalar_type \<Rightarrow> cel list \<Rightarrow> path_types \<Rightarrow> path_types" where
  "constrain_arg0 scalar args types =
     (case args of
        [] \<Rightarrow> types
      | a # _ \<Rightarrow> (case cel_context_path a of Some path \<Rightarrow> bm_add path scalar types | None \<Rightarrow> types))"

definition cel_constraints :: "cel \<Rightarrow> path_types \<Rightarrow> path_types" where
  "cel_constraints e types =
     (case e of
        Call f target args \<Rightarrow>
          (case f of
             Operator opr \<Rightarrow>
               if opr \<in> {EQUALS, NOT_EQUALS} then constrain_pair args cel_literal_scalar types
               else if opr \<in> {LESS, LESS_EQUALS, GREATER, GREATER_EQUALS}
               then constrain_pair args cel_literal_ordering types
               else if opr = IN then constrain_members args types
               else if opr \<in> {LOGICAL_AND, LOGICAL_OR, LOGICAL_NOT} then constrain_all TyBool args types
               else types
           | Function name \<Rightarrow>
               if string_arg0_function name then constrain_arg0 TyString args types
               else (case refined_arg0_function name of
                       Some refined \<Rightarrow> constrain_arg0 refined args types
                     | None \<Rightarrow> types))
      | _ \<Rightarrow> types)"

definition cel_list_memberships :: "cel \<Rightarrow> (string, string bset) bmap \<Rightarrow> (string, string bset) bmap" where
  "cel_list_memberships e memberships =
     (case e of
        Call (Operator IN) target [a, b] \<Rightarrow>
          (case (cel_context_path a, cel_reference b) of
             (Some path, Some (RefList i)) \<Rightarrow> bm_add path i memberships
           | _ \<Rightarrow> memberships)
      | _ \<Rightarrow> memberships)"

section \<open>Collecting the references\<close>

definition note_reference :: "reference \<Rightarrow> expression_references \<Rightarrow> expression_references" where
  "note_reference ref r =
     (case ref of
        RefContext path \<Rightarrow> r\<lparr>context_paths := bs_insert path (context_paths r)\<rparr>
      | RefEntry path \<Rightarrow> r\<lparr>entry_paths := bs_insert path (entry_paths r)\<rparr>
      | RefVariable i \<Rightarrow> r\<lparr>ref_variables := bs_insert i (ref_variables r)\<rparr>
      | RefList i \<Rightarrow> r\<lparr>ref_lists := bs_insert i (ref_lists r)\<rparr>
      | RefEnvNow \<Rightarrow> r
      | RefResolvingVariable \<Rightarrow> r\<lparr>uses_resolving := True\<rparr>)"

definition note_constraints :: "cel \<Rightarrow> expression_references \<Rightarrow> expression_references" where
  "note_constraints e r =
     r\<lparr>context_path_types := cel_constraints e (context_path_types r),
       context_path_lists := cel_list_memberships e (context_path_lists r)\<rparr>"

definition rooted_in :: "string list \<Rightarrow> cel \<Rightarrow> bool" where
  "rooted_in bound e = (case cel_path e of None \<Rightarrow> False | Some (rt, _) \<Rightarrow> rt \<in> set bound)"

definition comprehension_binds :: "cel \<Rightarrow> string list" where
  "comprehension_binds e =
     (case e of
        Comprehension rng v v2 accu ini cond step res \<Rightarrow>
          [v] @ (case v2 of Some x \<Rightarrow> [x] | None \<Rightarrow> []) @ [accu]
      | _ \<Rightarrow> [])"

function (sequential) collect_cel ::
  "cel \<Rightarrow> string list \<Rightarrow> expression_references \<Rightarrow> expression_references" where
  "collect_cel e bound r =
     (let r1 = note_constraints e r in
      if rooted_in bound e then r1
      else (case cel_reference e of
              Some ref \<Rightarrow> note_reference ref r1
            | None \<Rightarrow>
                (case cel_root_issue e of
                   Some issue \<Rightarrow> r1\<lparr>invalid_roots := bs_insert issue (invalid_roots r1)\<rparr>
                 | None \<Rightarrow>
                     (case e of
                        Comprehension rng v v2 accu ini cond step res \<Rightarrow>
                          (let outer = collect_cel ini bound (collect_cel rng bound r1);
                               inner = bound @ comprehension_binds e
                           in collect_cel res inner (collect_cel step inner (collect_cel cond inner outer)))
                      | _ \<Rightarrow> fold (\<lambda>c acc. collect_cel c bound acc) (cel_children e) r1))))"
  by pat_completeness auto
termination
  by (relation "measure (\<lambda>(e, bound, r). size e)") (auto simp del: cel_children.simps dest!: cel_children_size)

declare collect_cel.simps [simp del]

definition references_from_cel :: "cel \<Rightarrow> expression_references" where
  "references_from_cel e = collect_cel e [] no_references"

datatype result_hint = HintBool | HintValue

definition result_hint_from_cel :: "cel \<Rightarrow> result_hint" where
  "result_hint_from_cel e =
     (case e of
        Literal (LBoolean _) \<Rightarrow> HintBool
      | Call f _ _ \<Rightarrow>
          (case f of
             Operator opr \<Rightarrow> if opr = INDEX then HintValue else HintBool
           | Function name \<Rightarrow> if name \<in> {''path'', ''size''} then HintValue else HintBool)
      | _ \<Rightarrow> HintValue)"

section \<open>Time boundaries\<close>

record time_boundary =
  instant :: string
  timestamp :: rfc3339_timestamp
  comparison :: string

definition time_comparisons :: "string list" where
  "time_comparisons = [''timeAfter'', ''time_after'', ''timeAtOrAfter'', ''time_at_or_after'',
     ''timeBefore'', ''time_before'', ''timeAtOrBefore'', ''time_at_or_before'']"

definition is_env_now :: "cel \<Rightarrow> bool" where
  "is_env_now e = (cel_reference e = Some RefEnvNow)"

definition push_literal :: "string \<Rightarrow> cel \<Rightarrow> time_boundary list \<Rightarrow> time_boundary list" where
  "push_literal cmp e boundaries =
     (case e of
        Literal (LString i) \<Rightarrow>
          (case parse_rfc3339_timestamp i of
             None \<Rightarrow> boundaries
           | Some ts \<Rightarrow> boundaries @ [\<lparr>instant = i, timestamp = ts, comparison = cmp\<rparr>])
      | _ \<Rightarrow> boundaries)"

definition push_pair :: "string \<Rightarrow> cel \<Rightarrow> cel \<Rightarrow> time_boundary list \<Rightarrow> time_boundary list" where
  "push_pair cmp a b boundaries =
     (if is_env_now a then push_literal cmp b boundaries
      else if is_env_now b then push_literal cmp a boundaries
      else boundaries)"

definition comparison_operator :: "callee \<Rightarrow> string option" where
  "comparison_operator f =
     (case f of
        Operator EQUALS \<Rightarrow> Some ''==''
      | Operator NOT_EQUALS \<Rightarrow> Some ''!=''
      | Operator LESS \<Rightarrow> Some ''<''
      | Operator LESS_EQUALS \<Rightarrow> Some ''<=''
      | Operator GREATER \<Rightarrow> Some ''>''
      | Operator GREATER_EQUALS \<Rightarrow> Some ''>=''
      | _ \<Rightarrow> None)"

definition call_boundaries :: "cel \<Rightarrow> time_boundary list \<Rightarrow> time_boundary list" where
  "call_boundaries e boundaries =
     (case e of
        Call (Function name) target args \<Rightarrow>
          if name \<in> set time_comparisons \<and> length args = 2
          then push_pair name (args ! 0) (args ! 1) boundaries
          else if name \<in> {''timeBetween'', ''time_between''} \<and> length args = 3 \<and> is_env_now (args ! 0)
          then push_literal name (args ! 2) (push_literal name (args ! 1) boundaries)
          else boundaries
      | Call f target args \<Rightarrow>
          (case comparison_operator f of
             Some cmp \<Rightarrow> if length args = 2 then push_pair cmp (args ! 0) (args ! 1) boundaries else boundaries
           | None \<Rightarrow> boundaries)
      | _ \<Rightarrow> boundaries)"

function (sequential) collect_boundaries :: "cel \<Rightarrow> time_boundary list \<Rightarrow> time_boundary list" where
  "collect_boundaries e boundaries =
     fold (\<lambda>c acc. collect_boundaries c acc) (cel_children e) (call_boundaries e boundaries)"
  by pat_completeness auto
termination
  by (relation "measure (\<lambda>(e, b). size e)") (auto simp del: cel_children.simps dest!: cel_children_size)

declare collect_boundaries.simps [simp del]

definition time_boundaries :: "cel \<Rightarrow> time_boundary list" where
  "time_boundaries e = collect_boundaries e []"

section \<open>What is collected\<close>

text \<open>
  The reference: \<open>occurs bound e bound' s\<close> says that \<open>s\<close> is a node of \<open>e\<close>, and that
  with \<open>bound\<close> bound around \<open>e\<close> the identifiers \<open>bound'\<close> are bound around \<open>s\<close>.
\<close>

inductive occurs :: "string list \<Rightarrow> cel \<Rightarrow> string list \<Rightarrow> cel \<Rightarrow> bool" where
  occurs_self: "occurs bound e bound e"
| occurs_outer: "occurs bound (iter_range e) bound' s \<or> occurs bound (accu_init e) bound' s \<Longrightarrow>
    e = Comprehension rng v v2 accu ini cond step res \<Longrightarrow> occurs bound e bound' s"
| occurs_inner: "c \<in> {loop_cond e, loop_step e, comp_result e} \<Longrightarrow>
    occurs (bound @ comprehension_binds e) c bound' s \<Longrightarrow>
    e = Comprehension rng v v2 accu ini cond step res \<Longrightarrow> occurs bound e bound' s"
| occurs_child: "c \<in> set (cel_children e) \<Longrightarrow> occurs bound c bound' s \<Longrightarrow>
    comprehension_binds e = [] \<Longrightarrow> occurs bound e bound' s"

inductive_cases occurs_cases: "occurs bound e bound' s"

text \<open>An id is read through a root when some node is a chain from that root, not bound
  there, whose first segment is the id.\<close>

definition reads :: "string \<Rightarrow> string list \<Rightarrow> cel \<Rightarrow> string set" where
  "reads rt bound e =
     {x. \<exists>bound' s rest. occurs bound e bound' s \<and> cel_path s = Some (rt, x # rest) \<and> rt \<notin> set bound'}"

definition reads_at :: "string \<Rightarrow> string list \<Rightarrow> cel \<Rightarrow> string set" where
  "reads_at rt bound s = {x. \<exists>rest. cel_path s = Some (rt, x # rest) \<and> rt \<notin> set bound}"

lemma reads_Union:
  "reads rt bound e = (\<Union>(bound', s) \<in> {(bound', s). occurs bound e bound' s}. reads_at rt bound' s)"
  unfolding reads_def reads_at_def by blast

lemma comprehension_binds_Nil:
  "comprehension_binds e = [] \<longleftrightarrow> (\<nexists>rng v v2 accu ini cond step res.
      e = Comprehension rng v v2 accu ini cond step res)"
  by (cases e) (auto simp: comprehension_binds_def)

lemma plain_case:
  assumes "comprehension_binds e = []"
  shows "(case e of Comprehension rng v v2 accu ini cond step res \<Rightarrow> f rng v v2 accu ini cond step res
          | _ \<Rightarrow> y) = y"
  using assms by (cases e) (simp_all add: comprehension_binds_def)

lemma path_children:
  assumes "cel_path e = Some (rt, segs)"
  shows "comprehension_binds e = []"
    "c \<in> set (cel_children e) \<Longrightarrow>
      (\<exists>seg segs'. cel_path c = Some (rt, segs') \<and> segs = segs' @ [seg]) \<or> (\<exists>k. c = Literal (LString k))"
  using assms
  by (induction e rule: cel_path.induct) (auto simp: comprehension_binds_def split: option.splits)

lemma occurs_literal: "occurs bound (Literal l) bound' s \<longleftrightarrow> s = Literal l \<and> bound' = bound"
  by (auto elim: occurs_cases intro: occurs_self simp: comprehension_binds_def)

lemma occurs_chain:
  assumes "occurs bound e bound' s" "cel_path e = Some (rt, segs)"
  shows "bound' = bound \<and> ((\<exists>segs' more. cel_path s = Some (rt, segs') \<and> segs = segs' @ more) \<or> cel_path s = None)"
  using assms
proof (induction arbitrary: segs rule: occurs.induct)
  case (occurs_child c e bound bound' s)
  consider seg segs' where "cel_path c = Some (rt, segs')" "segs = segs' @ [seg]" | k where "c = Literal (LString k)"
    using path_children(2) [OF occurs_child.prems occurs_child.hyps(1)] by blast
  then show ?case
  proof cases
    case 1
    with occurs_child.IH [OF 1(1)] show ?thesis by auto
  next
    case 2
    with occurs_child.hyps(2) show ?thesis by (simp add: occurs_literal)
  qed
qed auto

lemma reads_chain:
  assumes "cel_path e = Some (rt, segs)"
  shows "reads rt' bound e = (if rt' = rt \<and> rt \<notin> set bound \<and> segs \<noteq> [] then {hd segs} else {})"
proof (rule set_eqI, rule iffI)
  fix x assume "x \<in> reads rt' bound e"
  then obtain bound' s rest where s: "occurs bound e bound' s" "cel_path s = Some (rt', x # rest)" "rt' \<notin> set bound'"
    by (auto simp: reads_def)
  from occurs_chain [OF s(1) assms] s(2,3)
  show "x \<in> (if rt' = rt \<and> rt \<notin> set bound \<and> segs \<noteq> [] then {hd segs} else {})" by auto
next
  fix x assume "x \<in> (if rt' = rt \<and> rt \<notin> set bound \<and> segs \<noteq> [] then {hd segs} else {})"
  then have "rt' = rt" "rt \<notin> set bound" "segs = x # tl segs" by (auto split: if_splits)
  with assms occurs_self show "x \<in> reads rt' bound e" unfolding reads_def by fastforce
qed

lemma occurs_plain_iff:
  assumes "comprehension_binds e = []"
  shows "occurs bound e bound' s \<longleftrightarrow>
    (s = e \<and> bound' = bound) \<or> (\<exists>c \<in> set (cel_children e). occurs bound c bound' s)"
proof
  assume "occurs bound e bound' s"
  then show "(s = e \<and> bound' = bound) \<or> (\<exists>c \<in> set (cel_children e). occurs bound c bound' s)"
    by (rule occurs_cases) (use assms in \<open>auto simp: comprehension_binds_def\<close>)
next
  assume "(s = e \<and> bound' = bound) \<or> (\<exists>c \<in> set (cel_children e). occurs bound c bound' s)"
  then show "occurs bound e bound' s"
    using occurs_self occurs_child [OF _ _ assms] by blast
qed

lemma occurs_comprehension_iff:
  assumes e: "e = Comprehension rng v v2 accu ini cond step res"
  shows "occurs bound e bound' s \<longleftrightarrow>
    (s = e \<and> bound' = bound) \<or> occurs bound rng bound' s \<or> occurs bound ini bound' s
    \<or> (\<exists>c \<in> {cond, step, res}. occurs (bound @ comprehension_binds e) c bound' s)" (is "_ = ?R")
proof
  assume "occurs bound e bound' s"
  then show ?R
    by (rule occurs_cases) (use e in \<open>auto simp: comprehension_binds_def\<close>)
next
  assume ?R
  moreover have "{loop_cond e, loop_step e, comp_result e} = {cond, step, res}"
    "iter_range e = rng" "accu_init e = ini" using e by simp_all
  ultimately show "occurs bound e bound' s"
    using occurs_self [of bound e] occurs_outer [OF _ e, of bound bound' s]
      occurs_inner [OF _ _ e, of _ bound bound' s] by metis
qed

lemma reads_children:
  assumes "cel_path e = None" "comprehension_binds e = []"
  shows "reads rt bound e = (\<Union>c \<in> set (cel_children e). reads rt bound c)"
  using assms(1) unfolding reads_def occurs_plain_iff [OF assms(2)] by auto

lemma reads_comprehension:
  assumes e: "e = Comprehension rng v v2 accu ini cond step res"
  shows "reads rt bound e = reads rt bound rng \<union> reads rt bound ini \<union>
    (\<Union>c \<in> {cond, step, res}. reads rt (bound @ comprehension_binds e) c)"
proof -
  have none: "reads_at rt bound e = {}" using e by (simp add: reads_at_def)
  have "{(bound', s). occurs bound e bound' s} = {(bound, e)} \<union> {(bound', s). occurs bound rng bound' s}
      \<union> {(bound', s). occurs bound ini bound' s}
      \<union> (\<Union>c \<in> {cond, step, res}. {(bound', s). occurs (bound @ comprehension_binds e) c bound' s})"
    unfolding set_eq_iff split_paired_All by (simp add: occurs_comprehension_iff [OF e]) blast
  then show ?thesis by (simp add: reads_Union none Un_assoc)
qed

lemma note_constraints_reads [simp]:
  "ref_variables (note_constraints e r) = ref_variables r"
  "ref_lists (note_constraints e r) = ref_lists r"
  by (simp_all add: note_constraints_def)

lemma collected_fold:
  assumes "\<And>c acc. c \<in> set cs \<Longrightarrow> set (get (f c acc)) = set (get acc) \<union> R c"
  shows "set (get (fold f cs r)) = set (get r) \<union> (\<Union>c \<in> set cs. R c)"
  using assms
proof (induction cs arbitrary: r)
  case (Cons c cs)
  have "set (get (fold f cs (f c r))) = set (get (f c r)) \<union> (\<Union>c \<in> set cs. R c)"
    using Cons.prems by (intro Cons.IH) auto
  with Cons.prems [of c r] show ?case by auto
qed simp

lemma reference_of_path_reads:
  assumes "rt \<notin> set bound"
  shows "reference_of_path rt segs = Some ref \<Longrightarrow>
    set (ref_variables (note_reference ref r)) =
      set (ref_variables r) \<union> (if rt = ''variables'' \<and> segs \<noteq> [] then {hd segs} else {})"
    "reference_of_path rt segs = Some ref \<Longrightarrow>
    set (ref_lists (note_reference ref r)) =
      set (ref_lists r) \<union> (if rt = ''lists'' \<and> segs \<noteq> [] then {hd segs} else {})"
    "reference_of_path rt segs = None \<Longrightarrow> \<not> (rt \<in> {''variables'', ''lists''} \<and> segs \<noteq> [])"
  by (auto simp: reference_of_path_def note_reference_def split: if_splits)

lemma cel_path_ident: "cel_path e = Some (rt, []) \<Longrightarrow> e = Ident rt"
  by (cases e rule: cel_path.cases) (auto split: option.splits)

lemma no_reference_no_issue:
  "reference_of_path rt segs = None \<Longrightarrow> issue_of_path rt segs = None \<Longrightarrow> segs = []"
  by (auto simp: reference_of_path_def issue_of_path_def split: if_splits)

definition collects :: "cel \<Rightarrow> string list \<Rightarrow> expression_references \<Rightarrow> expression_references \<Rightarrow> bool" where
  "collects e bound r r' =
     (set (ref_variables r') = set (ref_variables r) \<union> reads ''variables'' bound e \<and>
      set (ref_lists r') = set (ref_lists r) \<union> reads ''lists'' bound e)"

lemma collects_chain:
  assumes p: "cel_path e = Some (rt, segs)"
  shows "collects e bound r (collect_cel e bound r)"
proof (cases "rt \<in> set bound")
  case True
  with p show ?thesis
    by (auto simp: collects_def collect_cel.simps [of e] Let_def rooted_in_def reads_chain [OF p])
next
  case False
  show ?thesis
  proof (cases "reference_of_path rt segs")
    case (Some ref)
    then show ?thesis
      using p False reference_of_path_reads(1,2) [OF False Some]
      by (simp add: collects_def collect_cel.simps [of e] Let_def rooted_in_def cel_reference_def
          reads_chain [OF p])
  next
    case None
    show ?thesis
    proof (cases "issue_of_path rt segs")
      case (Some issue)
      then show ?thesis
        using p False None reference_of_path_reads(3) [OF False None]
        by (auto simp: collects_def collect_cel.simps [of e] Let_def rooted_in_def cel_reference_def
            cel_root_issue_def reads_chain [OF p])
    next
      case no: None
      with None have segs: "segs = []" by (rule no_reference_no_issue)
      then have e: "e = Ident rt" using p by (auto dest: cel_path_ident)
      show ?thesis
        using p segs None no False unfolding e
        by (simp add: collects_def collect_cel.simps [of "Ident rt"] Let_def rooted_in_def cel_reference_def
            cel_root_issue_def reads_chain [where rt = rt and segs = "[]"])
    qed
  qed
qed

lemma collects_fold:
  assumes "\<And>c acc. c \<in> set cs \<Longrightarrow> collects c bound acc (collect_cel c bound acc)"
    and "reads ''variables'' bound e = (\<Union>c \<in> set cs. reads ''variables'' bound c)"
    "reads ''lists'' bound e = (\<Union>c \<in> set cs. reads ''lists'' bound c)"
  shows "collects e bound r (fold (\<lambda>c acc. collect_cel c bound acc) cs r)"
proof -
  have "set (ref_variables (fold (\<lambda>c acc. collect_cel c bound acc) cs r))
      = set (ref_variables r) \<union> (\<Union>c \<in> set cs. reads ''variables'' bound c)"
    by (rule collected_fold) (use assms(1) in \<open>simp add: collects_def\<close>)
  moreover have "set (ref_lists (fold (\<lambda>c acc. collect_cel c bound acc) cs r))
      = set (ref_lists r) \<union> (\<Union>c \<in> set cs. reads ''lists'' bound c)"
    by (rule collected_fold) (use assms(1) in \<open>simp add: collects_def\<close>)
  ultimately show ?thesis by (simp add: collects_def assms(2,3))
qed

lemma collects_note: "collects e bound (note_constraints e r) r' \<longleftrightarrow> collects e bound r r'"
  by (simp add: collects_def)

lemma collect_cel_reads: "collects e bound r (collect_cel e bound r)"
proof (induction e arbitrary: bound r rule: measure_induct_rule [where f = size])
  case (less e)
  show ?case
  proof (cases "cel_path e")
    case (Some p)
    then show ?thesis by (cases p) (simp add: collects_chain)
  next
    case None
    then have plain: "\<not> rooted_in bound e" "cel_reference e = None" "cel_root_issue e = None"
      by (simp_all add: rooted_in_def cel_reference_def cel_root_issue_def)
    show ?thesis
    proof (cases "comprehension_binds e = []")
      case True
      have body: "collect_cel e bound r =
          fold (\<lambda>c acc. collect_cel c bound acc) (cel_children e) (note_constraints e r)"
        unfolding collect_cel.simps [of e] using plain by (simp add: Let_def plain_case [OF True])
      have "collects e bound (note_constraints e r) (collect_cel e bound r)"
        unfolding body by (rule collects_fold) (use less.IH cel_children_size reads_children [OF None True] in auto)
      then show ?thesis by (simp only: collects_note)
    next
      case False
      then obtain rng v v2 accu ini cond step res where e: "e = Comprehension rng v v2 accu ini cond step res"
        unfolding comprehension_binds_Nil by blast
      let ?in = "bound @ comprehension_binds e"
      have body: "collect_cel e bound r = collect_cel res ?in (collect_cel step ?in (collect_cel cond ?in
          (collect_cel ini bound (collect_cel rng bound (note_constraints e r)))))"
        unfolding collect_cel.simps [of e] using plain by (simp add: e Let_def)
      have "collects c b acc (collect_cel c b acc)" if "c \<in> {rng, ini, cond, step, res}" for c b acc
        using that e by (intro less.IH) auto
      then show ?thesis
        unfolding body by (simp add: collects_def reads_comprehension [OF e]) blast
    qed
  qed
qed

section \<open>What a boundary is\<close>

text \<open>The reference: a node that compares \<open>env.now\<close> with a literal instant.\<close>

definition compares_now :: "cel \<Rightarrow> string \<Rightarrow> string \<Rightarrow> bool" where
  "compares_now s cmp i =
     (\<exists>f target args. s = Call f target args \<and>
        ((\<exists>a b. args = [a, b] \<and>
            ((f = Function cmp \<and> cmp \<in> set time_comparisons) \<or> comparison_operator f = Some cmp) \<and>
            (is_env_now a \<and> b = Literal (LString i) \<or> is_env_now b \<and> a = Literal (LString i)))
         \<or> (\<exists>a lo hi. args = [a, lo, hi] \<and> f = Function cmp \<and> cmp \<in> {''timeBetween'', ''time_between''} \<and>
              is_env_now a \<and> Literal (LString i) \<in> {lo, hi})))"

lemma push_literal_set:
  "set (push_literal cmp e bs) = set bs \<union>
     {bd. comparison bd = cmp \<and> e = Literal (LString (instant bd))
          \<and> parse_rfc3339_timestamp (instant bd) = Some (timestamp bd)}"
  by (auto simp: push_literal_def split: cel.splits literal.splits option.splits intro: time_boundary.equality)

lemma is_env_now_literal [simp]: "\<not> is_env_now (Literal l)"
  by (simp add: is_env_now_def cel_reference_def)

lemma push_pair_set:
  "set (push_pair cmp a b bs) = set bs \<union>
     {bd. comparison bd = cmp \<and> (is_env_now a \<and> b = Literal (LString (instant bd))
            \<or> is_env_now b \<and> a = Literal (LString (instant bd)))
          \<and> parse_rfc3339_timestamp (instant bd) = Some (timestamp bd)}"
  by (auto simp: push_pair_def push_literal_set)

lemma length_2_args: "length args = 2 \<longleftrightarrow> (\<exists>a b. args = [a, b])"
  by (auto simp: numeral_2_eq_2 length_Suc_conv)

lemma length_3_args: "length args = 3 \<longleftrightarrow> (\<exists>a b c. args = [a, b, c])"
  by (auto simp: numeral_3_eq_3 length_Suc_conv)

lemma between_not_comparison: "cmp \<in> {''timeBetween'', ''time_between''} \<Longrightarrow> cmp \<notin> set time_comparisons"
  by (auto simp: time_comparisons_def)

definition found_at :: "cel \<Rightarrow> time_boundary set" where
  "found_at s = {bd. compares_now s (comparison bd) (instant bd)
     \<and> parse_rfc3339_timestamp (instant bd) = Some (timestamp bd)}"

lemma call_boundaries_function:
  "set (call_boundaries (Call (Function name) target args) bs) = set bs \<union> found_at (Call (Function name) target args)"
proof -
  have op: "comparison_operator (Function name) = None" by (simp add: comparison_operator_def)
  consider "name \<in> set time_comparisons \<and> length args = 2"
    | "\<not> (name \<in> set time_comparisons \<and> length args = 2)"
      "name \<in> {''timeBetween'', ''time_between''} \<and> length args = 3 \<and> is_env_now (args ! 0)"
    | "\<not> (name \<in> set time_comparisons \<and> length args = 2)"
      "\<not> (name \<in> {''timeBetween'', ''time_between''} \<and> length args = 3 \<and> is_env_now (args ! 0))"
    by blast
  then show ?thesis
  proof cases
    case 1
    then obtain a b where "args = [a, b]" by (auto simp: length_2_args)
    with 1 op show ?thesis
      by (auto simp: call_boundaries_def push_pair_set found_at_def compares_now_def)
  next
    case 2
    then obtain a b c where "args = [a, b, c]" by (auto simp: length_3_args)
    with 2 op show ?thesis
      by (auto simp: call_boundaries_def push_literal_set found_at_def compares_now_def)
  next
    case 3
    then have "call_boundaries (Call (Function name) target args) bs = bs"
      unfolding call_boundaries_def cel.case callee.case by (simp only: if_False)
    moreover have "found_at (Call (Function name) target args) = {}"
      using 3 op by (auto simp: found_at_def compares_now_def)
    ultimately show ?thesis by simp
  qed
qed

lemma call_boundaries_set: "set (call_boundaries s bs) = set bs \<union> found_at s"
proof (cases s)
  case (Call f target args)
  show ?thesis
  proof (cases f)
    case (Function name)
    with Call call_boundaries_function show ?thesis by simp
  next
    case (Operator opr)
    show ?thesis
    proof (cases "length args = 2")
      case True
      then obtain a b where "args = [a, b]" by (auto simp: length_2_args)
      then show ?thesis unfolding Call Operator
        by (cases "comparison_operator (Operator opr)")
          (auto simp: call_boundaries_def push_pair_set found_at_def compares_now_def)
    next
      case False
      then show ?thesis unfolding Call Operator
        by (cases "comparison_operator (Operator opr)")
          (auto simp: call_boundaries_def found_at_def compares_now_def)
    qed
  qed
qed (auto simp: call_boundaries_def found_at_def compares_now_def)

inductive node_of :: "cel \<Rightarrow> cel \<Rightarrow> bool" where
  node_self: "node_of e e"
| node_child: "c \<in> set (cel_children e) \<Longrightarrow> node_of s c \<Longrightarrow> node_of s e"

inductive_simps node_of_simps: "node_of s e"

lemma set_fold_Un:
  assumes "\<And>c acc. c \<in> set cs \<Longrightarrow> set (f c acc) = set acc \<union> R c"
  shows "set (fold f cs r) = set r \<union> (\<Union>c \<in> set cs. R c)"
  using collected_fold [of cs "\<lambda>x. x" f R r] assms by simp

lemma collect_boundaries_set:
  "set (collect_boundaries e bs) = set bs \<union> {bd. \<exists>s. node_of s e \<and> bd \<in> found_at s}"
proof (induction e arbitrary: bs rule: measure_induct_rule [where f = size])
  case (less e)
  have "set (collect_boundaries e bs) = set (call_boundaries e bs) \<union>
      (\<Union>c \<in> set (cel_children e). {bd. \<exists>s. node_of s c \<and> bd \<in> found_at s})"
    unfolding collect_boundaries.simps [of e]
    by (rule set_fold_Un) (use less.IH cel_children_size in auto)
  then show ?case
    unfolding call_boundaries_set node_of_simps [of _ e] by blast
qed

section \<open>Properties\<close>


text \<open>The upcoming-change analysis reports an instant exactly when some
  node of the expression compares \<open>env.now\<close> with that literal (either side of a comparison, or an
  edge of a window) and the literal is an RFC3339 timestamp, and reports the comparison and the
  parsed instant of that node.\<close>

theorem time_boundaries_exact:
  "bd \<in> set (time_boundaries e) \<longleftrightarrow>
     (\<exists>s. node_of s e \<and> compares_now s (comparison bd) (instant bd))
     \<and> parse_rfc3339_timestamp (instant bd) = Some (timestamp bd)"
  by (auto simp: time_boundaries_def collect_boundaries_set found_at_def)

end
