(* ===== verification/Effects.thy ===== *)
theory Effects
  imports Prelude Complex_Main
begin

text \<open>
  Code that may fail and that threads a state: a \<open>&mut\<close> parameter becomes a state
  passed in and returned, whether the code returned a value or an error. Recursion
  whose end is not syntactic runs on fuel, and \<open>None\<close> is "out of fuel", distinct
  from every result the code can return. \<open>and_then\<close> is the \<open>?\<close> operator. The last
  section holds the two ways runs are reasoned about: total runs that keep an
  invariant, and the simulation of one run by another over a different state.
\<close>

type_synonym ('s, 'a) run = "'s \<Rightarrow> ('a res \<times> 's) option"

definition ret :: "'a \<Rightarrow> ('s, 'a) run" where
  "ret x = (\<lambda>s. Some (Inr x, s))"

definition lift :: "'a res \<Rightarrow> ('s, 'a) run" where
  "lift r = (\<lambda>s. Some (r, s))"

definition and_then :: "('s, 'a) run \<Rightarrow> ('a \<Rightarrow> ('s, 'b) run) \<Rightarrow> ('s, 'b) run" where
  "and_then m f = (\<lambda>s.
     (case m s of
        None \<Rightarrow> None
      | Some (Inl e, s') \<Rightarrow> Some (Inl e, s')
      | Some (Inr x, s') \<Rightarrow> f x s'))"

text \<open>A \<open>for\<close> loop that collects what its body returns, until the first error.\<close>

fun for_each :: "('a \<Rightarrow> ('s, 'b) run) \<Rightarrow> 'a list \<Rightarrow> ('s, 'b list) run" where
  "for_each f [] = ret []"
| "for_each f (x # xs) = and_then (f x) (\<lambda>y. and_then (for_each f xs) (\<lambda>ys. ret (y # ys)))"

section \<open>Runs that return and keep an invariant\<close>

definition returns :: "('s \<Rightarrow> bool) \<Rightarrow> ('s, 'a) run \<Rightarrow> bool" where
  "returns I m = (\<forall>s. I s \<longrightarrow> (\<exists>r s'. m s = Some (r, s') \<and> I s'))"

lemma returns_ret: "returns I (ret x)"
  by (simp add: returns_def ret_def)

lemma returns_lift: "returns I (lift r)"
  by (simp add: returns_def lift_def)

lemma returns_and_then:
  assumes "returns I m" "\<And>x. returns I (f x)"
  shows "returns I (and_then m f)"
  unfolding returns_def
proof (intro allI impI)
  fix s assume "I s"
  with assms(1) obtain r s' where m: "m s = Some (r, s')" "I s'" by (auto simp: returns_def)
  show "\<exists>r s'. and_then m f s = Some (r, s') \<and> I s'"
  proof (cases r)
    case (Inr x)
    with m assms(2) [of x] show ?thesis by (auto simp: returns_def and_then_def)
  qed (use m in \<open>simp add: and_then_def\<close>)
qed

lemma returns_for_each: "(\<And>x. x \<in> set xs \<Longrightarrow> returns I (f x)) \<Longrightarrow> returns I (for_each f xs)"
  by (induction xs) (auto intro!: returns_ret returns_and_then)

lemma returns_if: "(c \<Longrightarrow> returns I m) \<Longrightarrow> (\<not> c \<Longrightarrow> returns I m') \<Longrightarrow> returns I (if c then m else m')"
  by simp

lemma returns_option:
  "(\<And>x. v = Some x \<Longrightarrow> returns I (f x)) \<Longrightarrow> returns I m \<Longrightarrow> returns I (case v of Some x \<Rightarrow> f x | None \<Rightarrow> m)"
  by (cases v) simp_all

lemmas returns_intros = returns_ret returns_lift returns_and_then returns_for_each returns_if returns_option

section \<open>Simulation\<close>

text \<open>
  \<open>simulates J m d\<close>: from a state in \<open>J\<close>, when the run \<open>m\<close> succeeds then the indexed run
  \<open>d\<close>, over the trivial state, returns the same value at every index from some point on; a
  failing \<open>m\<close> keeps \<open>J\<close> as well.
\<close>

type_synonym 'a denotation = "nat \<Rightarrow> (unit, 'a) run"

definition yields :: "'a denotation \<Rightarrow> 'a \<Rightarrow> bool" where
  "yields d x = (\<forall>\<^sub>F n in sequentially. d n () = Some (Inr x, ()))"

lemma yields_unique: "yields d x \<Longrightarrow> yields d y \<Longrightarrow> x = y"
proof -
  assume "yields d x" "yields d y"
  then have "\<forall>\<^sub>F n in sequentially. d n () = Some (Inr x, ()) \<and> d n () = Some (Inr y, ())"
    unfolding yields_def by (rule eventually_conj)
  then obtain n where "d n () = Some (Inr x, ())" "d n () = Some (Inr y, ())"
    unfolding eventually_sequentially by blast
  then show "x = y" by simp
qed

definition simulates :: "('s \<Rightarrow> bool) \<Rightarrow> ('s, 'a) run \<Rightarrow> 'a denotation \<Rightarrow> bool" where
  "simulates J m d = (\<forall>s r s'. J s \<longrightarrow> m s = Some (r, s') \<longrightarrow> J s' \<and> (\<forall>x. r = Inr x \<longrightarrow> yields d x))"

lemma yields_ret: "yields (\<lambda>_. ret x) x"
  by (simp add: yields_def ret_def)

lemma yields_lift: "r = Inr x \<Longrightarrow> yields (\<lambda>_. lift r) x"
  by (simp add: yields_def lift_def)

lemma yields_and_then:
  assumes "yields d x" "yields (\<lambda>n. f n x) y"
  shows "yields (\<lambda>n. and_then (d n) (f n)) y"
  using eventually_conj [OF assms [unfolded yields_def]] unfolding yields_def
  by (rule eventually_mono) (simp add: and_then_def)

lemma simulates_ret: "simulates J (ret x) (\<lambda>_. ret x)"
  using yields_ret [of x] by (auto simp: simulates_def ret_def)

lemma simulates_lift: "simulates J (lift r) (\<lambda>_. lift r)"
  using yields_lift [of r] by (auto simp: simulates_def lift_def)

lemma simulates_and_then:
  assumes "simulates J m d" "\<And>x. simulates J (f x) (\<lambda>n. g n x)"
  shows "simulates J (and_then m f) (\<lambda>n. and_then (d n) (g n))"
  unfolding simulates_def
proof (intro allI impI)
  fix s r s' assume "J s" and run: "and_then m f s = Some (r, s')"
  then obtain r1 s1 where m: "m s = Some (r1, s1)" by (auto simp: and_then_def split: option.splits)
  with assms(1) \<open>J s\<close> have 1: "J s1" "\<And>x. r1 = Inr x \<Longrightarrow> yields d x" by (auto simp: simulates_def)
  show "J s' \<and> (\<forall>x. r = Inr x \<longrightarrow> yields (\<lambda>n. and_then (d n) (g n)) x)"
  proof (cases r1)
    case (Inl e)
    with m run have "r = Inl e" "s' = s1" by (simp_all add: and_then_def)
    with 1(1) show ?thesis by simp
  next
    case (Inr x)
    with m run have "f x s1 = Some (r, s')" by (simp add: and_then_def)
    then have 2: "J s'" "\<And>y. r = Inr y \<Longrightarrow> yields (\<lambda>n. g n x) y"
      using assms(2) [unfolded simulates_def, rule_format, OF 1(1)] by simp_all
    show ?thesis
    proof (intro conjI allI impI)
      fix y assume "r = Inr y"
      then show "yields (\<lambda>n. and_then (d n) (g n)) y"
        by (intro yields_and_then [where x = x] 1(2) 2(2) Inr)
    qed (rule 2(1))
  qed
qed

lemma simulates_for_each:
  "(\<And>x. x \<in> set xs \<Longrightarrow> simulates J (f x) (\<lambda>n. g n x)) \<Longrightarrow>
   simulates J (for_each f xs) (\<lambda>n. for_each (g n) xs)"
proof (induction xs)
  case (Cons x xs)
  have "simulates J (and_then (f x) (\<lambda>y. and_then (for_each f xs) (\<lambda>ys. ret (y # ys))))
     (\<lambda>n. and_then (g n x) (\<lambda>y. and_then (for_each (g n) xs) (\<lambda>ys. ret (y # ys))))"
    by (intro simulates_and_then simulates_ret Cons) auto
  then show ?case by simp
qed (simp add: simulates_ret)

lemma simulates_if:
  "(c \<Longrightarrow> simulates J m d) \<Longrightarrow> (\<not> c \<Longrightarrow> simulates J m' d') \<Longrightarrow>
   simulates J (if c then m else m') (\<lambda>n. if c then d n else d' n)"
  by (cases c) simp_all

lemma simulates_option:
  "(\<And>x. v = Some x \<Longrightarrow> simulates J (f x) (\<lambda>n. g n x)) \<Longrightarrow> simulates J m d \<Longrightarrow>
   simulates J (case v of Some x \<Rightarrow> f x | None \<Rightarrow> m) (\<lambda>n. case v of Some x \<Rightarrow> g n x | None \<Rightarrow> d n)"
  by (cases v) simp_all

lemmas simulates_intros = simulates_ret simulates_lift simulates_and_then simulates_for_each
  simulates_if simulates_option

section \<open>Runs that follow a successful reference\<close>

text \<open>
  The other direction, at one index: whenever the reference run \<open>d\<close> succeeds, so does \<open>m\<close>,
  with the same value, from every state in \<open>J\<close>, and ends in \<open>J\<close>.
\<close>

definition follows :: "('s \<Rightarrow> bool) \<Rightarrow> ('s, 'a) run \<Rightarrow> (unit, 'a) run \<Rightarrow> bool" where
  "follows J m d = (\<forall>s x. J s \<longrightarrow> d () = Some (Inr x, ()) \<longrightarrow> (\<exists>s'. m s = Some (Inr x, s') \<and> J s'))"

lemma follows_ret: "follows J (ret x) (ret x)"
  by (simp add: follows_def ret_def)

lemma follows_lift: "follows J (lift r) (lift r)"
  by (auto simp: follows_def lift_def)

lemma follows_and_then:
  assumes "follows J m d" "\<And>x. follows J (f x) (g x)"
  shows "follows J (and_then m f) (and_then d g)"
  unfolding follows_def
proof (intro allI impI)
  fix s y assume J: "J s" and d: "and_then d g () = Some (Inr y, ())"
  obtain x where x: "d () = Some (Inr x, ())" "g x () = Some (Inr y, ())"
    using d by (auto simp: and_then_def split: option.splits sum.splits)
  from assms(1) J x(1) obtain s1 where s1: "m s = Some (Inr x, s1)" "J s1"
    unfolding follows_def by blast
  from assms(2) [of x] s1(2) x(2) obtain s2 where "f x s1 = Some (Inr y, s2)" "J s2"
    unfolding follows_def by blast
  with s1 show "\<exists>s'. and_then m f s = Some (Inr y, s') \<and> J s'" by (simp add: and_then_def)
qed

lemma follows_for_each:
  "(\<And>x. x \<in> set xs \<Longrightarrow> follows J (f x) (g x)) \<Longrightarrow> follows J (for_each f xs) (for_each g xs)"
  by (induction xs) (auto intro!: follows_ret follows_and_then)

lemma follows_if:
  "(c \<Longrightarrow> follows J m d) \<Longrightarrow> (\<not> c \<Longrightarrow> follows J m' d') \<Longrightarrow>
   follows J (if c then m else m') (if c then d else d')"
  by simp

lemma follows_option:
  "(\<And>x. v = Some x \<Longrightarrow> follows J (f x) (g x)) \<Longrightarrow> follows J m d \<Longrightarrow>
   follows J (case v of Some x \<Rightarrow> f x | None \<Rightarrow> m) (case v of Some x \<Rightarrow> g x | None \<Rightarrow> d)"
  by (cases v) simp_all

lemmas follows_intros = follows_ret follows_lift follows_and_then follows_for_each follows_if
  follows_option

text \<open>More fuel does not change a result.\<close>

definition extends_run :: "('s, 'a) run \<Rightarrow> ('s, 'a) run \<Rightarrow> bool" where
  "extends_run m m' = (\<forall>s rs. m s = Some rs \<longrightarrow> m' s = Some rs)"

lemma extends_refl: "extends_run m m"
  by (simp add: extends_run_def)

lemma extends_and_then:
  assumes "extends_run m m'" "\<And>x. extends_run (f x) (f' x)"
  shows "extends_run (and_then m f) (and_then m' f')"
  unfolding extends_run_def
proof (intro allI impI)
  fix s rs assume a: "and_then m f s = Some rs"
  then obtain r1 s1 where m: "m s = Some (r1, s1)" by (auto simp: and_then_def split: option.splits)
  with assms(1) have m': "m' s = Some (r1, s1)" by (simp add: extends_run_def)
  show "and_then m' f' s = Some rs"
  proof (cases r1)
    case (Inr x)
    with a m have "f x s1 = Some rs" by (simp add: and_then_def)
    with assms(2) [of x] have "f' x s1 = Some rs" unfolding extends_run_def by blast
    with m' Inr show ?thesis by (simp add: and_then_def)
  qed (use a m m' in \<open>simp add: and_then_def\<close>)
qed

lemma extends_for_each:
  "(\<And>x. x \<in> set xs \<Longrightarrow> extends_run (f x) (f' x)) \<Longrightarrow> extends_run (for_each f xs) (for_each f' xs)"
  by (induction xs) (auto intro!: extends_refl extends_and_then)

lemma extends_if:
  "(c \<Longrightarrow> extends_run m d) \<Longrightarrow> (\<not> c \<Longrightarrow> extends_run m' d') \<Longrightarrow>
   extends_run (if c then m else m') (if c then d else d')"
  by simp

lemma extends_option:
  "(\<And>x. v = Some x \<Longrightarrow> extends_run (f x) (g x)) \<Longrightarrow> extends_run m d \<Longrightarrow>
   extends_run (case v of Some x \<Rightarrow> f x | None \<Rightarrow> m) (case v of Some x \<Rightarrow> g x | None \<Rightarrow> d)"
  by (cases v) simp_all

lemmas extends_intros = extends_refl extends_and_then extends_for_each extends_if extends_option

end
