(* ===== verification/Evaluation.thy ===== *)
theory Evaluation
  imports Cel_Analysis Effects
begin

text \<open>
  Evaluation of an expression (src/src/expression/eval.rs and the \<open>Expression\<close> methods
  of src/src/expression/mod.rs) and the stable hash behind buckets (the end of
  src/src/resolve.rs). The \<open>cel\<close> engine is a parameter, the record \<open>cel_engine\<close>: what
  the sources call of it. So are the crates behind single functions, the record
  \<open>crates\<close>: \<open>regex\<close>, \<open>glob\<close>, \<open>semver\<close>, the parser of IP addresses, JSON pointers and the
  text of a JSON value. What the repository itself provides to the engine, the
  functions it registers and the roots it binds, is defined here.
\<close>

section \<open>The engine and the crates\<close>

record crates =
  regex_match :: "string \<Rightarrow> string \<Rightarrow> string + bool"
  glob_pattern :: "string \<Rightarrow> string \<Rightarrow> string + bool"
  semver_match :: "string \<Rightarrow> string \<Rightarrow> string + bool"
  parse_ip_addr :: "string \<Rightarrow> string + ip_addr"
  json_pointer :: "json \<Rightarrow> string \<Rightarrow> json option"
  json_text :: "json \<Rightarrow> string"

text \<open>\<open>ExecutionError\<close>: the source tells one variant apart, and makes the second itself.\<close>

datatype exec_error =
    NoSuchKey string
  | FunctionError string string
  | OtherExecError string

type_synonym 'v fn_result = "exec_error + 'v"

text \<open>A registered function, by the types of its arguments, to which the engine matches the
  actual arguments; \<open>'v\<close> is the engine's value type.\<close>

datatype 'v cel_function =
    FnStrStr "string \<Rightarrow> string \<Rightarrow> 'v fn_result"
  | FnValVal "'v \<Rightarrow> 'v \<Rightarrow> 'v fn_result"
  | FnValStr "'v \<Rightarrow> string \<Rightarrow> 'v fn_result"
  | FnStrVal "string \<Rightarrow> 'v \<Rightarrow> 'v fn_result"
  | FnVal "'v \<Rightarrow> 'v fn_result"
  | FnStrStrStr "string \<Rightarrow> string \<Rightarrow> string \<Rightarrow> 'v fn_result"
  | FnValStrIntInt "'v \<Rightarrow> string \<Rightarrow> int \<Rightarrow> int \<Rightarrow> 'v fn_result"

type_synonym 'v function_table = "(string \<times> 'v cel_function) list"

record 'v cel_engine =
  compile :: "string \<Rightarrow> string + cel"
  bool_value :: "bool \<Rightarrow> 'v"
  int_value :: "int \<Rightarrow> 'v"
  cel_value :: "json \<Rightarrow> string + 'v"
  value_json :: "'v \<Rightarrow> string + json"
  cel_run :: "'v function_table \<Rightarrow> (string \<times> 'v) list \<Rightarrow> cel \<Rightarrow> exec_error + 'v"
  exec_text :: "exec_error \<Rightarrow> string"

section \<open>Equality of JSON values\<close>

definition i64_f64_equal :: "int \<Rightarrow> rat \<Rightarrow> bool" where
  "i64_f64_equal i x = (of_int (f64_trunc x) = x \<and> f64_as_i64 x = i \<and> int_as_f64 i = x)"

definition u64_f64_equal :: "int \<Rightarrow> rat \<Rightarrow> bool" where
  "u64_f64_equal i x = (of_int (f64_trunc x) = x \<and> x \<ge> 0 \<and> f64_as_u64 x = i \<and> int_as_f64 i = x)"

definition json_numbers_equal :: "number \<Rightarrow> number \<Rightarrow> bool" where
  "json_numbers_equal left right =
     (if left = right then True else
      (case (as_i64 left, as_u64 left, as_i64 right, as_u64 right) of
         (Some l, _, Some r, _) \<Rightarrow> l = r
       | (_, Some l, _, Some r) \<Rightarrow> l = r
       | (Some l, _, _, _) \<Rightarrow> i64_f64_equal l (as_f64 right)
       | (_, Some l, _, _) \<Rightarrow> u64_f64_equal l (as_f64 right)
       | (_, _, Some r, _) \<Rightarrow> i64_f64_equal r (as_f64 left)
       | (_, _, _, Some r) \<Rightarrow> u64_f64_equal r (as_f64 left)
       | _ \<Rightarrow> as_f64 left = as_f64 right))"

definition json_values_equal :: "json \<Rightarrow> json \<Rightarrow> bool" where
  "json_values_equal left right =
     (case (left, right) of
        (JNumber l, JNumber r) \<Rightarrow> json_numbers_equal l r
      | _ \<Rightarrow> left = right)"

definition contains_value :: "json \<Rightarrow> json \<Rightarrow> bool" where
  "contains_value left right =
     (case (left, right) of
        (JString l, JString r) \<Rightarrow> contains_sub r l
      | (JArray l, r) \<Rightarrow> list_ex (\<lambda>value. json_values_equal value r) l
      | _ \<Rightarrow> False)"

section \<open>The stable hash\<close>

text \<open>FNV-1a over \<open>salt:value\<close>.\<close>

definition canonical_context_value :: "(json \<Rightarrow> string) \<Rightarrow> json \<Rightarrow> string" where
  "canonical_context_value text value = (case value of JString s \<Rightarrow> s | _ \<Rightarrow> text value)"

definition fnv_step :: "char \<Rightarrow> 64 word \<Rightarrow> 64 word" where
  "fnv_step byte hash = xor hash (of_char byte) * 1099511628211"

definition stable_unit_hash :: "(json \<Rightarrow> string) \<Rightarrow> string \<Rightarrow> json \<Rightarrow> 64 word" where
  "stable_unit_hash text salt value =
     fold fnv_step (salt @ '':'' @ canonical_context_value text value) 14695981039346656037"

definition bucket_value :: "(json \<Rightarrow> string) \<Rightarrow> string \<Rightarrow> json \<Rightarrow> 16 word" where
  "bucket_value text salt value = of_nat (unat (stable_unit_hash text salt value) mod 10000)"

text \<open>The remainder by zero is a panic, \<open>None\<close>.\<close>

definition allocation_bucket :: "(json \<Rightarrow> string) \<Rightarrow> string \<Rightarrow> json \<Rightarrow> 32 word \<Rightarrow> 32 word option" where
  "allocation_bucket text layer unit_value buckets =
     (if buckets = 0 then None
      else Some (of_nat (unat (stable_unit_hash text layer unit_value) mod unat buckets)))"

section \<open>The registered functions\<close>

definition fn_bool :: "'v cel_engine \<Rightarrow> bool \<Rightarrow> 'v fn_result" where
  "fn_bool eng b = Inr (bool_value eng b)"

definition crate_result :: "string \<Rightarrow> string + 'a \<Rightarrow> exec_error + 'a" where
  "crate_result name r = (case r of Inl e \<Rightarrow> Inl (FunctionError name e) | Inr x \<Rightarrow> Inr x)"

text \<open>The JSON of an engine value, on behalf of a function.\<close>

definition cel_json :: "'v cel_engine \<Rightarrow> string \<Rightarrow> 'v \<Rightarrow> exec_error + json" where
  "cel_json eng name value = crate_result name (value_json eng value)"

definition fn_starts_with :: "'v cel_engine \<Rightarrow> string \<Rightarrow> string \<Rightarrow> 'v fn_result" where
  "fn_starts_with eng a b = fn_bool eng (starts_with b a)"

definition fn_ends_with :: "'v cel_engine \<Rightarrow> string \<Rightarrow> string \<Rightarrow> 'v fn_result" where
  "fn_ends_with eng a b = fn_bool eng (ends_with b a)"

definition fn_contains :: "'v cel_engine \<Rightarrow> 'v \<Rightarrow> 'v \<Rightarrow> 'v fn_result" where
  "fn_contains eng a b =
     rbind (cel_json eng ''contains'' a) (\<lambda>x.
     rbind (cel_json eng ''contains'' b) (\<lambda>y. fn_bool eng (contains_value x y)))"

definition fn_matches :: "'v cel_engine \<Rightarrow> crates \<Rightarrow> string \<Rightarrow> string \<Rightarrow> 'v fn_result" where
  "fn_matches eng cr a b = rbind (crate_result ''matches'' (regex_match cr b a)) (fn_bool eng)"

definition fn_glob :: "'v cel_engine \<Rightarrow> crates \<Rightarrow> string \<Rightarrow> string \<Rightarrow> 'v fn_result" where
  "fn_glob eng cr a b = rbind (crate_result ''glob'' (glob_pattern cr b a)) (fn_bool eng)"

definition fn_semver :: "'v cel_engine \<Rightarrow> crates \<Rightarrow> string \<Rightarrow> string \<Rightarrow> 'v fn_result" where
  "fn_semver eng cr a b = rbind (crate_result ''semver'' (semver_match cr a b)) (fn_bool eng)"

definition in_bucket_window :: "(json \<Rightarrow> string) \<Rightarrow> json \<Rightarrow> string \<Rightarrow> int \<Rightarrow> int \<Rightarrow> bool" where
  "in_bucket_window text value salt start stop =
     (let bucket = uint (bucket_value text salt value) in bucket \<ge> start \<and> bucket < stop)"

definition fn_bucket ::
  "'v cel_engine \<Rightarrow> crates \<Rightarrow> 'v \<Rightarrow> string \<Rightarrow> int \<Rightarrow> int \<Rightarrow> 'v fn_result" where
  "fn_bucket eng cr value salt start stop =
     rbind (cel_json eng ''bucket'' value) (\<lambda>v.
       fn_bool eng (in_bucket_window (json_text cr) v salt start stop))"

definition cidr_blocks :: "crates \<Rightarrow> json \<Rightarrow> exec_error + cidr_block list" where
  "cidr_blocks cr value =
     rbind
       (case value of
          JString s \<Rightarrow> Inr [s]
        | JArray vs \<Rightarrow>
            traverse (\<lambda>v. case as_str v of
                Some s \<Rightarrow> Inr s
              | None \<Rightarrow> Inl (FunctionError ''cidr'' ''CIDR argument must be a string or list of strings'')) vs
        | _ \<Rightarrow> Inl (FunctionError ''cidr'' ''CIDR argument must be a string or list of strings''))
       (traverse (\<lambda>s.
          case cidr_parse (\<lambda>a. case parse_ip_addr cr a of Inr ip \<Rightarrow> Some ip | Inl _ \<Rightarrow> None) s of
            Some block \<Rightarrow> Inr block
          | None \<Rightarrow> Inl (FunctionError ''cidr'' (''CIDR block is invalid: '' @ s))))"

definition fn_cidr :: "'v cel_engine \<Rightarrow> crates \<Rightarrow> string \<Rightarrow> 'v \<Rightarrow> 'v fn_result" where
  "fn_cidr eng cr ip blocks =
     rbind (crate_result ''cidr'' (parse_ip_addr cr ip)) (\<lambda>addr.
     rbind (cel_json eng ''cidr'' blocks) (\<lambda>v.
     rbind (cidr_blocks cr v) (\<lambda>bs.
     fn_bool eng (list_ex (\<lambda>block. cidr_contains block addr) bs))))"

definition fn_present :: "'v cel_engine \<Rightarrow> crates \<Rightarrow> 'v \<Rightarrow> string \<Rightarrow> 'v fn_result" where
  "fn_present eng cr value pointer =
     rbind (cel_json eng ''present'' value) (\<lambda>v. fn_bool eng (json_pointer cr v pointer \<noteq> None))"

definition fn_missing :: "'v cel_engine \<Rightarrow> crates \<Rightarrow> 'v \<Rightarrow> string \<Rightarrow> 'v fn_result" where
  "fn_missing eng cr value pointer =
     rbind (cel_json eng ''missing'' value) (\<lambda>v. fn_bool eng (json_pointer cr v pointer = None))"

definition fn_path :: "'v cel_engine \<Rightarrow> crates \<Rightarrow> 'v \<Rightarrow> string \<Rightarrow> 'v fn_result" where
  "fn_path eng cr value pointer =
     rbind (cel_json eng ''path'' value) (\<lambda>v.
       case json_pointer cr v pointer of
         Some found \<Rightarrow> crate_result ''path'' (cel_value eng found)
       | None \<Rightarrow> Inl (FunctionError ''path'' (''did not find JSON Pointer: '' @ pointer)))"

text \<open>\<open>chars().count()\<close>: the bytes that do not continue a character.\<close>

definition char_count :: "string \<Rightarrow> nat" where
  "char_count s = length (filter (\<lambda>c. (of_char c :: nat) div 64 \<noteq> 2) s)"

definition fn_size :: "'v cel_engine \<Rightarrow> 'v \<Rightarrow> 'v fn_result" where
  "fn_size eng value =
     rbind (cel_json eng ''size'' value) (\<lambda>v.
       case v of
         JArray vs \<Rightarrow> Inr (int_value eng (int (length vs)))
       | JObject ob \<Rightarrow> Inr (int_value eng (int (length ob)))
       | JString s \<Rightarrow> Inr (int_value eng (int (char_count s)))
       | _ \<Rightarrow> Inl (FunctionError ''size'' ''requires an array, object, or string''))"

definition parse_ts :: "string \<Rightarrow> string \<Rightarrow> exec_error + rfc3339_timestamp" where
  "parse_ts name value =
     (case parse_rfc3339_timestamp value of
        Some t \<Rightarrow> Inr t
      | None \<Rightarrow> Inl (FunctionError name ''argument must be an RFC3339 timestamp''))"

definition fn_time_after :: "'v cel_engine \<Rightarrow> string \<Rightarrow> string \<Rightarrow> 'v fn_result" where
  "fn_time_after eng a b =
     rbind (parse_ts ''timeAfter'' a) (\<lambda>x.
     rbind (parse_ts ''timeAfter'' b) (\<lambda>y. fn_bool eng (x > y)))"

definition fn_time_at_or_after :: "'v cel_engine \<Rightarrow> string \<Rightarrow> string \<Rightarrow> 'v fn_result" where
  "fn_time_at_or_after eng a b =
     rbind (parse_ts ''timeAtOrAfter'' a) (\<lambda>x.
     rbind (parse_ts ''timeAtOrAfter'' b) (\<lambda>y. fn_bool eng (x \<ge> y)))"

definition fn_time_before :: "'v cel_engine \<Rightarrow> string \<Rightarrow> string \<Rightarrow> 'v fn_result" where
  "fn_time_before eng a b =
     rbind (parse_ts ''timeBefore'' a) (\<lambda>x.
     rbind (parse_ts ''timeBefore'' b) (\<lambda>y. fn_bool eng (x < y)))"

definition fn_time_at_or_before :: "'v cel_engine \<Rightarrow> string \<Rightarrow> string \<Rightarrow> 'v fn_result" where
  "fn_time_at_or_before eng a b =
     rbind (parse_ts ''timeAtOrBefore'' a) (\<lambda>x.
     rbind (parse_ts ''timeAtOrBefore'' b) (\<lambda>y. fn_bool eng (x \<le> y)))"

text \<open>\<open>&&\<close> does not parse its right operand when the left is false.\<close>

definition fn_time_between :: "'v cel_engine \<Rightarrow> string \<Rightarrow> string \<Rightarrow> string \<Rightarrow> 'v fn_result" where
  "fn_time_between eng a lo hi =
     rbind (parse_ts ''timeBetween'' a) (\<lambda>x.
     rbind (parse_ts ''timeBetween'' lo) (\<lambda>l.
       if x \<ge> l then rbind (parse_ts ''timeBetween'' hi) (\<lambda>h. fn_bool eng (x < h))
       else fn_bool eng False))"

definition registered_functions :: "'v cel_engine \<Rightarrow> crates \<Rightarrow> 'v function_table" where
  "registered_functions eng cr =
     [(''startsWith'', FnStrStr (fn_starts_with eng)),
      (''starts_with'', FnStrStr (fn_starts_with eng)),
      (''prefix'', FnStrStr (fn_starts_with eng)),
      (''endsWith'', FnStrStr (fn_ends_with eng)),
      (''ends_with'', FnStrStr (fn_ends_with eng)),
      (''suffix'', FnStrStr (fn_ends_with eng)),
      (''contains'', FnValVal (fn_contains eng)),
      (''matches'', FnStrStr (fn_matches eng cr)),
      (''regex'', FnStrStr (fn_matches eng cr)),
      (''glob'', FnStrStr (fn_glob eng cr)),
      (''semver'', FnStrStr (fn_semver eng cr)),
      (''bucket'', FnValStrIntInt (fn_bucket eng cr)),
      (''cidr'', FnStrVal (fn_cidr eng cr)),
      (''inCidr'', FnStrVal (fn_cidr eng cr)),
      (''in_cidr'', FnStrVal (fn_cidr eng cr)),
      (''present'', FnValStr (fn_present eng cr)),
      (''missing'', FnValStr (fn_missing eng cr)),
      (''path'', FnValStr (fn_path eng cr)),
      (''size'', FnVal (fn_size eng)),
      (''timeAfter'', FnStrStr (fn_time_after eng)),
      (''time_after'', FnStrStr (fn_time_after eng)),
      (''timeAtOrAfter'', FnStrStr (fn_time_at_or_after eng)),
      (''time_at_or_after'', FnStrStr (fn_time_at_or_after eng)),
      (''timeBefore'', FnStrStr (fn_time_before eng)),
      (''time_before'', FnStrStr (fn_time_before eng)),
      (''timeAtOrBefore'', FnStrStr (fn_time_at_or_before eng)),
      (''time_at_or_before'', FnStrStr (fn_time_at_or_before eng)),
      (''timeBetween'', FnStrStrStr (fn_time_between eng)),
      (''time_between'', FnStrStrStr (fn_time_between eng))]"

section \<open>Expressions\<close>

record expression =
  source :: string
  refs :: expression_references
  cel_ast :: cel

definition parse_expression :: "'v cel_engine \<Rightarrow> string \<Rightarrow> string + expression" where
  "parse_expression eng src =
     rbind (compile eng src) (\<lambda>ast. Inr \<lparr>source = src, refs = references_from_cel ast, cel_ast = ast\<rparr>)"

text \<open>\<open>RefResolver\<close>: what resolves the ids an expression references, over the state of the
  caller that implements it.\<close>

record 's ref_resolver =
  variable_value :: "string \<Rightarrow> ('s, json) run"
  list_members :: "string \<Rightarrow> ('s, json) run"

datatype resolving_target = ResolvingVariable string

definition to_env_value :: "resolving_target \<Rightarrow> json" where
  "to_env_value target = (case target of ResolvingVariable i \<Rightarrow> JObject [(''variable'', JString i)])"

fun path_missing :: "json \<Rightarrow> string list \<Rightarrow> bool" where
  "path_missing current [] = False"
| "path_missing current (segment # rest) =
     (case json_get current segment of Some v \<Rightarrow> path_missing v rest | None \<Rightarrow> True)"

definition context_path_missing :: "json \<Rightarrow> string \<Rightarrow> bool" where
  "context_path_missing ctx path = path_missing ctx (split_on (CHR ''.'') path)"

definition evaluation_failure ::
  "(exec_error \<Rightarrow> string) \<Rightarrow> exec_error \<Rightarrow> expression_references \<Rightarrow> json \<Rightarrow> string" where
  "evaluation_failure text e r ctx =
     (let missing = (case e of
          NoSuchKey _ \<Rightarrow> map (\<lambda>p. ''context.'' @ p) (filter (context_path_missing ctx) (context_paths r))
        | _ \<Rightarrow> [])
      in if missing \<noteq> [] then
           ''the expression reads '' @ join_with '' and '' missing
           @ '', which the given context does not carry''
         else ''expression evaluation failed: '' @ text e)"

definition to_cel :: "'v cel_engine \<Rightarrow> json \<Rightarrow> 'v res" where
  "to_cel eng value =
     (case cel_value eng value of
        Inl e \<Rightarrow> err (''value is not representable in cel: '' @ e)
      | Inr v \<Rightarrow> Inr v)"

definition env_value :: "string \<Rightarrow> resolving_target option \<Rightarrow> json" where
  "env_value now resolving =
     JObject (case resolving of
        None \<Rightarrow> [(''now'', JString now)]
      | Some target \<Rightarrow> bm_insert ''resolving'' (to_env_value target) [(''now'', JString now)])"

text \<open>One root that binds the resolved value of every referenced id, in the order of the set.\<close>

definition resolved_object :: "(string \<Rightarrow> ('s, json) run) \<Rightarrow> string bset \<Rightarrow> ('s, json) run" where
  "resolved_object resolve ids =
     and_then (for_each (\<lambda>i. and_then (resolve i) (\<lambda>v. ret (i, v))) ids)
       (\<lambda>kvs. ret (JObject (bm_of kvs)))"

definition run_result ::
  "'v cel_engine \<Rightarrow> crates \<Rightarrow> cel \<Rightarrow> expression_references \<Rightarrow> json \<Rightarrow> (string \<times> 'v) list \<Rightarrow> json res" where
  "run_result eng cr ast r ctx roots =
     (case cel_run eng (registered_functions eng cr) roots ast of
        Inl e \<Rightarrow> err (evaluation_failure (exec_text eng) e r ctx)
      | Inr v \<Rightarrow>
          (case value_json eng v of
             Inl e \<Rightarrow> err (''expression result is not JSON: '' @ e)
           | Inr j \<Rightarrow> Inr j))"

definition cel_evaluate ::
  "'v cel_engine \<Rightarrow> crates \<Rightarrow> cel \<Rightarrow> expression_references \<Rightarrow> json \<Rightarrow> json option \<Rightarrow> string
   \<Rightarrow> resolving_target option \<Rightarrow> 's ref_resolver \<Rightarrow> ('s, json) run" where
  "cel_evaluate eng cr ast r ctx entry now resolving res =
     and_then (lift (to_cel eng ctx)) (\<lambda>c.
     and_then (lift (to_cel eng (case entry of Some v \<Rightarrow> v | None \<Rightarrow> JNull))) (\<lambda>en.
     and_then (lift (to_cel eng (env_value now resolving))) (\<lambda>env.
     and_then (resolved_object (variable_value res) (ref_variables r)) (\<lambda>vars.
     and_then (lift (to_cel eng vars)) (\<lambda>vs.
     and_then (resolved_object (list_members res) (ref_lists r)) (\<lambda>lists.
     and_then (lift (to_cel eng lists)) (\<lambda>ls.
     lift (run_result eng cr ast r ctx
       [(''context'', c), (''entry'', en), (''env'', env), (''variables'', vs), (''lists'', ls)]))))))))"

definition evaluate_value ::
  "'v cel_engine \<Rightarrow> crates \<Rightarrow> expression \<Rightarrow> json \<Rightarrow> json option \<Rightarrow> string \<Rightarrow> 's ref_resolver
   \<Rightarrow> ('s, json) run" where
  "evaluate_value eng cr e ctx entry now res =
     cel_evaluate eng cr (cel_ast e) (refs e) ctx entry now None res"

definition require_bool :: "string \<Rightarrow> json \<Rightarrow> bool res" where
  "require_bool msg v = (case as_bool v of Some b \<Rightarrow> Inr b | None \<Rightarrow> err msg)"

definition evaluate_bool ::
  "'v cel_engine \<Rightarrow> crates \<Rightarrow> expression \<Rightarrow> json \<Rightarrow> json option \<Rightarrow> string \<Rightarrow> 's ref_resolver
   \<Rightarrow> ('s, bool) run" where
  "evaluate_bool eng cr e ctx entry now res =
     and_then (evaluate_value eng cr e ctx entry now res) (\<lambda>v.
       lift (require_bool (''expression did not evaluate to bool: '' @ source e) v))"

definition evaluate_bool_traced ::
  "'v cel_engine \<Rightarrow> crates \<Rightarrow> expression \<Rightarrow> json \<Rightarrow> string \<Rightarrow> resolving_target \<Rightarrow> 's ref_resolver
   \<Rightarrow> ('s, bool) run" where
  "evaluate_bool_traced eng cr e ctx now resolving res =
     and_then (cel_evaluate eng cr (cel_ast e) (refs e) ctx None now (Some resolving) res) (\<lambda>v.
       lift (require_bool (''trace policy did not evaluate to bool: '' @ source e) v))"

section \<open>What evaluation asks of the resolver\<close>

text \<open>A resolver whose methods return and keep an invariant of its state: then so does
  evaluation, whatever the expression.\<close>

locale total_resolver =
  fixes res :: "'s ref_resolver" and I :: "'s \<Rightarrow> bool"
  assumes variable_returns: "returns I (variable_value res i)"
    and list_returns: "returns I (list_members res i)"
begin

lemma evaluate_returns: "returns I (cel_evaluate eng cr ast r ctx entry now resolving res)"
  unfolding cel_evaluate_def resolved_object_def
  by (intro returns_intros variable_returns list_returns)

lemma evaluate_value_returns: "returns I (evaluate_value eng cr e ctx entry now res)"
  unfolding evaluate_value_def by (rule evaluate_returns)

lemma evaluate_bool_returns: "returns I (evaluate_bool eng cr e ctx entry now res)"
  unfolding evaluate_bool_def by (intro returns_intros evaluate_value_returns)

lemma evaluate_bool_traced_returns: "returns I (evaluate_bool_traced eng cr e ctx now target res)"
  unfolding evaluate_bool_traced_def by (intro returns_intros evaluate_returns)

end

text \<open>A resolver that is simulated by a reference over the trivial state, or that follows one.\<close>

locale simulated_resolver =
  fixes res :: "'s ref_resolver" and J :: "'s \<Rightarrow> bool" and den :: "nat \<Rightarrow> unit ref_resolver"
  assumes variable_simulates: "simulates J (variable_value res i) (\<lambda>n. variable_value (den n) i)"
    and list_simulates: "simulates J (list_members res i) (\<lambda>n. list_members (den n) i)"
begin

lemma evaluate_simulates:
  "simulates J (cel_evaluate eng cr ast r ctx entry now resolving res)
     (\<lambda>n. cel_evaluate eng cr ast r ctx entry now resolving (den n))"
  unfolding cel_evaluate_def resolved_object_def
  by (intro simulates_intros variable_simulates list_simulates)

lemma evaluate_value_simulates:
  "simulates J (evaluate_value eng cr e ctx entry now res) (\<lambda>n. evaluate_value eng cr e ctx entry now (den n))"
  unfolding evaluate_value_def by (rule evaluate_simulates)

lemma evaluate_bool_simulates:
  "simulates J (evaluate_bool eng cr e ctx entry now res) (\<lambda>n. evaluate_bool eng cr e ctx entry now (den n))"
  unfolding evaluate_bool_def by (intro simulates_intros evaluate_value_simulates)

end

locale following_resolver =
  fixes res :: "'s ref_resolver" and J :: "'s \<Rightarrow> bool" and den :: "unit ref_resolver"
  assumes variable_follows: "follows J (variable_value res i) (variable_value den i)"
    and list_follows: "follows J (list_members res i) (list_members den i)"
begin

lemma evaluate_follows:
  "follows J (cel_evaluate eng cr ast r ctx entry now resolving res)
     (cel_evaluate eng cr ast r ctx entry now resolving den)"
  unfolding cel_evaluate_def resolved_object_def
  by (intro follows_intros variable_follows list_follows)

lemma evaluate_value_follows:
  "follows J (evaluate_value eng cr e ctx entry now res) (evaluate_value eng cr e ctx entry now den)"
  unfolding evaluate_value_def by (rule evaluate_follows)

lemma evaluate_bool_follows:
  "follows J (evaluate_bool eng cr e ctx entry now res) (evaluate_bool eng cr e ctx entry now den)"
  unfolding evaluate_bool_def by (intro follows_intros evaluate_value_follows)

end

text \<open>A resolver that answers wherever another one does, and the same.\<close>

definition extends_resolver :: "'s ref_resolver \<Rightarrow> 's ref_resolver \<Rightarrow> bool" where
  "extends_resolver a b = (\<forall>i. extends_run (variable_value a i) (variable_value b i)
     \<and> extends_run (list_members a i) (list_members b i))"

lemma evaluate_extends:
  assumes "extends_resolver a b"
  shows "extends_run (cel_evaluate eng cr ast r ctx entry now resolving a)
    (cel_evaluate eng cr ast r ctx entry now resolving b)"
  unfolding cel_evaluate_def resolved_object_def
  by (intro extends_intros) (use assms in \<open>simp_all add: extends_resolver_def\<close>)

lemma evaluate_value_extends:
  "extends_resolver a b \<Longrightarrow>
   extends_run (evaluate_value eng cr e ctx entry now a) (evaluate_value eng cr e ctx entry now b)"
  unfolding evaluate_value_def by (rule evaluate_extends)

lemma evaluate_bool_extends:
  "extends_resolver a b \<Longrightarrow>
   extends_run (evaluate_bool eng cr e ctx entry now a) (evaluate_bool eng cr e ctx entry now b)"
  unfolding evaluate_bool_def by (intro extends_intros evaluate_value_extends)

section \<open>Numbers and buckets\<close>

lemma uint_bucket_value:
  "uint (bucket_value text salt value) = int (unat (stable_unit_hash text salt value) mod 10000)"
  by (simp add: bucket_value_def unsigned_of_nat take_bit_nat_eq_self_iff mod_less_divisor
      uint_nat order_less_le_trans [OF mod_less_divisor])

lemma bucket_value_bound: "uint (bucket_value text salt value) < 10000" "0 \<le> uint (bucket_value text salt value)"
  unfolding uint_bucket_value by simp_all

lemma window_index:
  fixes cuts :: "int list"
  assumes "sorted cuts" "cuts \<noteq> []" "hd cuts \<le> x" "x < last cuts"
  shows "\<exists>k. Suc k < length cuts \<and> cuts ! k \<le> x \<and> x < cuts ! Suc k"
  using assms
proof (induction cuts rule: induct_list012)
  case (3 a b cs)
  show ?case
  proof (cases "x < b")
    case True
    with 3(5) show ?thesis by (intro exI [of _ 0]) simp
  next
    case False
    with 3 obtain k where "Suc k < length (b # cs)" "(b # cs) ! k \<le> x" "x < (b # cs) ! Suc k" by auto
    then show ?thesis by (intro exI [of _ "Suc k"]) simp
  qed
qed auto

lemma window_index_unique:
  fixes cuts :: "int list"
  assumes "sorted cuts" "Suc k < length cuts" "cuts ! k \<le> x" "x < cuts ! Suc k"
    "Suc l < length cuts" "cuts ! l \<le> x" "x < cuts ! Suc l"
  shows "k = l"
proof (rule ccontr)
  assume "k \<noteq> l"
  then consider "Suc k \<le> l" | "Suc l \<le> k" by linarith
  then show False
  proof cases
    case 1
    with assms(1,5) have "cuts ! Suc k \<le> cuts ! l" by (intro sorted_nth_mono) auto
    with assms show False by simp
  next
    case 2
    with assms(1,2) have "cuts ! Suc l \<le> cuts ! k" by (intro sorted_nth_mono) auto
    with assms show False by simp
  qed
qed

text \<open>The number a JSON number denotes, and what holds of one that a program can hold: an
  integer fits 64 bits, and a float that is an integer is one a double represents.\<close>

definition number_value :: "number \<Rightarrow> rat" where
  "number_value n = (case n of JInt i \<Rightarrow> of_int i | JFloat x \<Rightarrow> x)"

definition machine_number :: "number \<Rightarrow> bool" where
  "machine_number n =
     (case n of JInt i \<Rightarrow> - (2 ^ 63) \<le> i \<and> i < 2 ^ 64
      | JFloat x \<Rightarrow> of_int (f64_trunc x) = x \<longrightarrow> int_as_f64 (f64_trunc x) = x)"

text \<open>The integers whose conversions meet at the ends of the 64-bit ranges.\<close>

fun saturates :: "number \<Rightarrow> number \<Rightarrow> bool" where
  "saturates (JInt i) (JFloat x) =
     ((i = 9223372036854775807 \<and> x = 9223372036854775808)
      \<or> (i = 18446744073709551615 \<and> x = 18446744073709551616))"
| "saturates _ _ = False"

lemma f64_trunc_of_int [simp]: "f64_trunc (of_int i) = i"
  by (simp add: f64_trunc_def)

lemma int_as_f64_ends:
  "int_as_f64 9223372036854775807 = 9223372036854775808"
  "int_as_f64 18446744073709551615 = 18446744073709551616"
  "int_as_f64 (- 9223372036854775808) = - 9223372036854775808"
  by (simp_all add: int_as_f64_def round_nat_def Let_def excess_bits.simps)

lemma i64_f64_equal_iff:
  assumes "machine_number (JFloat x)" "- (2 ^ 63) \<le> i" "i < 2 ^ 63"
  shows "i64_f64_equal i x \<longleftrightarrow> of_int i = x \<or> saturates (JInt i) (JFloat x)"
proof
  assume eq: "i64_f64_equal i x"
  then have t: "of_int (f64_trunc x) = x" "int_as_f64 i = x"
    "max (- 9223372036854775808) (min 9223372036854775807 (f64_trunc x)) = i"
    by (simp_all add: i64_f64_equal_def f64_as_i64_def)
  consider "f64_trunc x = i" | "i = 9223372036854775807" | "i = - 9223372036854775808"
    using t(3) by (auto simp: max_def min_def split: if_splits)
  then show "of_int i = x \<or> saturates (JInt i) (JFloat x)"
    using t(1,2) int_as_f64_ends by cases auto
next
  assume "of_int i = x \<or> saturates (JInt i) (JFloat x)"
  then show "i64_f64_equal i x"
  proof
    assume "of_int i = x"
    then have "f64_trunc x = i" by (metis f64_trunc_of_int)
    with assms \<open>of_int i = x\<close> show ?thesis
      by (auto simp: i64_f64_equal_def f64_as_i64_def machine_number_def)
  next
    assume "saturates (JInt i) (JFloat x)"
    with assms(3) have ix: "i = 9223372036854775807" "x = of_int 9223372036854775808" by auto
    show ?thesis
      unfolding i64_f64_equal_def f64_as_i64_def ix f64_trunc_of_int by (simp add: int_as_f64_ends)
  qed
qed

lemma u64_f64_equal_iff:
  assumes "machine_number (JFloat x)" "2 ^ 63 \<le> i" "i < 2 ^ 64"
  shows "u64_f64_equal i x \<longleftrightarrow> of_int i = x \<or> saturates (JInt i) (JFloat x)"
proof
  assume eq: "u64_f64_equal i x"
  then have t: "of_int (f64_trunc x) = x" "int_as_f64 i = x"
    "max 0 (min 18446744073709551615 (f64_trunc x)) = i"
    by (simp_all add: u64_f64_equal_def f64_as_u64_def)
  consider "f64_trunc x = i" | "i = 18446744073709551615" | "i = 0"
    using t(3) by (auto simp: max_def min_def split: if_splits)
  then show "of_int i = x \<or> saturates (JInt i) (JFloat x)"
    using t(1,2) int_as_f64_ends assms(2) by cases auto
next
  assume "of_int i = x \<or> saturates (JInt i) (JFloat x)"
  then show "u64_f64_equal i x"
  proof
    assume x: "of_int i = x"
    then have "f64_trunc x = i" by (metis f64_trunc_of_int)
    moreover have "0 \<le> x" using x assms(2) by (metis of_int_0_le_iff order_trans zero_le_numeral zero_le_power)
    ultimately show ?thesis
      using assms x by (auto simp: u64_f64_equal_def f64_as_u64_def machine_number_def)
  next
    assume "saturates (JInt i) (JFloat x)"
    with assms(2) have ix: "i = 18446744073709551615" "x = of_int 18446744073709551616" by auto
    show ?thesis
      unfolding u64_f64_equal_def f64_as_u64_def ix f64_trunc_of_int by (simp add: int_as_f64_ends)
  qed
qed

lemma int_as_f64_sign: "i < 0 \<Longrightarrow> f64_trunc (int_as_f64 i) \<le> 0" "0 \<le> i \<Longrightarrow> 0 \<le> f64_trunc (int_as_f64 i)"
  by (auto simp: int_as_f64_def f64_trunc_def ceiling_le_zero)

lemma json_ints_equal:
  assumes "machine_number (JInt a)" "machine_number (JInt b)"
  shows "json_numbers_equal (JInt a) (JInt b) \<longleftrightarrow> a = b"
proof -
  have r: "- 9223372036854775808 \<le> a" "a < 18446744073709551616"
    "- 9223372036854775808 \<le> b" "b < 18446744073709551616"
    using assms by (simp_all add: machine_number_def)
  have 1: "\<not> i64_f64_equal a (int_as_f64 b)" if "a < 0" "9223372036854775808 \<le> b"
    using that int_as_f64_sign(2) [of b] by (auto simp: i64_f64_equal_def f64_as_i64_def)
  have 2: "\<not> u64_f64_equal a (int_as_f64 b)" if "b < 0" "9223372036854775808 \<le> a"
    using that int_as_f64_sign(1) [of b] by (auto simp: u64_f64_equal_def f64_as_u64_def max_def min_def)
  show ?thesis
    using r 1 2 by (auto simp: json_numbers_equal_def as_i64_def as_u64_def as_f64_def)
qed

lemma json_int_float_equal:
  assumes "machine_number (JInt i)" "machine_number (JFloat x)"
  shows "json_numbers_equal (JInt i) (JFloat x) \<longleftrightarrow> of_int i = x \<or> saturates (JInt i) (JFloat x)"
    "json_numbers_equal (JFloat x) (JInt i) \<longleftrightarrow> of_int i = x \<or> saturates (JInt i) (JFloat x)"
proof -
  have r: "- 9223372036854775808 \<le> i" "i < 18446744073709551616"
    using assms(1) by (simp_all add: machine_number_def)
  show "json_numbers_equal (JInt i) (JFloat x) \<longleftrightarrow> of_int i = x \<or> saturates (JInt i) (JFloat x)"
    "json_numbers_equal (JFloat x) (JInt i) \<longleftrightarrow> of_int i = x \<or> saturates (JInt i) (JFloat x)"
    using r i64_f64_equal_iff [OF assms(2), of i] u64_f64_equal_iff [OF assms(2), of i]
    by (auto simp: json_numbers_equal_def as_i64_def as_u64_def as_f64_def simp del: saturates.simps)
qed

lemma json_numbers_equal_value:
  assumes "machine_number l" "machine_number r"
  shows "json_numbers_equal l r \<longleftrightarrow> number_value l = number_value r \<or> saturates l r \<or> saturates r l"
proof (cases l; cases r)
  fix a b assume "l = JInt a" "r = JInt b"
  then show ?thesis using assms json_ints_equal by (simp add: number_value_def)
next
  fix i x assume "l = JInt i" "r = JFloat x"
  then show ?thesis using assms json_int_float_equal(1) [of i x]
    by (auto simp: number_value_def simp del: saturates.simps(1))
next
  fix i x assume "l = JFloat x" "r = JInt i"
  then show ?thesis using assms json_int_float_equal(2) [of i x]
    by (auto simp: number_value_def simp del: saturates.simps(1))
next
  fix x y assume "l = JFloat x" "r = JFloat y"
  then show ?thesis
    by (simp add: number_value_def json_numbers_equal_def as_i64_def as_u64_def as_f64_def)
qed

section \<open>Properties\<close>

text \<open>On numbers a 64-bit program can hold, the equality behind
  \<open>contains\<close> relates exactly the numbers of the same value, whether integer or float, and besides
  only the largest signed integer with the float above it and the largest unsigned one likewise,
  where both casts saturate or round onto each other.\<close>

theorem numbers_equal_by_value:
  assumes "machine_number l" "machine_number r"
  shows "json_numbers_equal l r \<longleftrightarrow> number_value l = number_value r \<or> saturates l r \<or> saturates r l"
  using assms by (rule json_numbers_equal_value)

theorem numbers_equal_by_value_witness:
  "json_numbers_equal (JInt 9223372036854775807) (JFloat 9223372036854775808)
   \<and> number_value (JInt 9223372036854775807) \<noteq> number_value (JFloat 9223372036854775808)"
proof -
  have t: "f64_trunc 9223372036854775808 = 9223372036854775808"
    using f64_trunc_of_int [of 9223372036854775808] by simp
  have e: "int_as_f64 9223372036854775808 = 9223372036854775808"
    by (simp add: int_as_f64_def round_nat_def Let_def excess_bits.simps)
  have "machine_number (JInt 9223372036854775807)" by (simp add: machine_number_def)
  moreover have "machine_number (JFloat 9223372036854775808)"
    by (simp add: machine_number_def t e)
  ultimately show ?thesis
    using numbers_equal_by_value [of "JInt 9223372036854775807" "JFloat 9223372036854775808"]
    by (simp add: number_value_def)
qed

text \<open>Cut points that run from 0 to 10000 in order divide the traffic:
  whatever the unit and the salt, exactly one of the windows between neighbouring cuts holds the
  unit's bucket.\<close>

theorem bucket_windows_partition:
  assumes "sorted cuts" "cuts \<noteq> []" "hd cuts = 0" "last cuts = 10000"
  shows "\<exists>!k. Suc k < length cuts \<and> in_bucket_window text value salt (cuts ! k) (cuts ! Suc k)"
proof -
  let ?x = "uint (bucket_value text salt value)"
  have "hd cuts \<le> ?x" "?x < last cuts" using bucket_value_bound assms by simp_all
  from window_index [OF assms(1,2) this] window_index_unique [OF assms(1), of _ ?x]
  show ?thesis unfolding in_bucket_window_def Let_def by (intro ex_ex1I) blast+
qed

theorem bucket_windows_partition_witness:
  "\<exists>!k. Suc k < length [0, 1000, 5000, 10000 :: int] \<and> in_bucket_window (\<lambda>_. []) (JString ''user-1'') ''beta''
     ([0, 1000, 5000, 10000] ! k) ([0, 1000, 5000, 10000] ! Suc k)"
  using bucket_windows_partition [of "[0, 1000, 5000, 10000]" "\<lambda>_. []" "JString ''user-1''" "''beta''"]
  by simp

end
