(* ===== verification/Runtime.thy ===== *)
theory Runtime
  imports Evaluation Address
begin

text \<open>
  The runtime form of a package and the compiler that makes it from the semantic index
  (src/src/lint/runtime.rs; the index's nodes are those of src/src/lint/index/nodes.rs
  without their source locations, which the compiler does not read). A JSON schema
  validator is the function it is used as: the error text, or nothing, for a context.
  Which evaluation contexts a variable accepts is computed by another lint component and
  is an argument of the compiler.
\<close>

section \<open>The semantic index\<close>

datatype 'a project_field = Present 'a | InvalidField | MissingField

datatype type_source =
    PrimitiveSource string
  | CatalogSource string
  | SchemaSource string
  | MissingSource
  | ConflictSource
  | InvalidSource

datatype type_kind =
    KPrimitive string
  | KCatalog string
  | KList string
  | KArray type_kind

record rule_node =
  rn_index :: nat
  rn_when :: "expression project_field option"
  rn_value :: "json project_field"
  rn_invalid_shape :: bool

datatype rule_collection = Rules "rule_node list" | InvalidRules

record query_node =
  qn_from :: "string project_field"
  qn_filter :: "expression project_field option"
  qn_sort :: "expression project_field option"
  qn_order :: "string project_field option"
  qn_limit :: "int project_field option"

record assign_node =
  an_arm :: "string project_field"
  an_value :: "json project_field"
  an_invalid_shape :: bool

record assignments_node =
  as_allocation :: "string project_field"
  as_assigns :: "assign_node list"

record resolve_body =
  rb_method :: "string option"
  rb_default :: "json project_field"
  rb_rules :: rule_collection
  rb_query :: "query_node option"
  rb_assignments :: "assignments_node option"

datatype resolve_node = ResolveMissing | ResolveInvalid | Resolve resolve_body

record variable_node =
  vn_id :: string
  vn_schema_version :: "int project_field"
  vn_type_source :: type_source
  vn_resolve :: resolve_node

record list_node =
  ln_id :: string
  ln_description :: "string project_field option"
  ln_member_type :: "string project_field"
  ln_members :: "json list project_field"

record arm_node =
  am_name :: "string project_field"
  am_buckets :: "string project_field"

record allocation_node =
  al_id :: "string project_field"
  al_status :: "string project_field option"
  al_eligibility :: "expression project_field option"
  al_arms :: "arm_node list"

record layer_node =
  ly_id :: string
  ly_unit :: "expression project_field"
  ly_buckets :: "int project_field"
  ly_allocations :: "allocation_node list"

type_synonym validator = "json \<Rightarrow> string option"

record evaluation_context_node =
  en_id :: string
  en_path :: string
  en_json :: "json option"
  en_validator :: "validator option"
  en_invalid_message :: "string option"

record trace_policy_node =
  tp_index :: nat
  tp_when :: "expression project_field"

record semantic_index =
  ix_manifest_trace :: "trace_policy_node list option"
  ix_evaluation_contexts :: "evaluation_context_node smap"
  ix_catalogs :: "json option smap"
  ix_catalog_entries :: "json smap smap"
  ix_lists :: "list_node smap"
  ix_variables :: "variable_node smap"
  ix_layers :: "layer_node smap"

section \<open>The runtime package\<close>

datatype selected_value =
    LiteralValue json
  | CatalogValue (sv_catalog: string) (sv_name: string) (sv_json: json)
  | CatalogArrayValue (sv_catalog: string) (sv_names: "string list") (sv_json: json)

fun selected_json :: "selected_value \<Rightarrow> json" where
  "selected_json (LiteralValue v) = v"
| "selected_json (CatalogValue c n v) = v"
| "selected_json (CatalogArrayValue c ns v) = v"

record runtime_rule =
  rule_index :: nat
  rule_when :: expression
  rule_value :: selected_value

record runtime_arm =
  arm_name :: string
  arm_start :: nat
  arm_end :: nat
  arm_value :: selected_value

record runtime_allocation =
  alloc_layer :: string
  alloc_id :: string
  alloc_unit :: expression
  alloc_buckets :: "32 word"
  alloc_running :: bool
  alloc_eligibility :: "expression option"
  alloc_arms :: "runtime_arm list"
  alloc_default :: selected_value

record runtime_query =
  query_catalog :: string
  query_single :: bool
  query_filter :: "expression option"
  query_sort :: "expression option"
  query_descending :: bool
  query_limit :: "nat option"
  query_default :: "selected_value option"

datatype runtime_resolution =
    RulesResolution selected_value "runtime_rule list"
  | QueryResolution runtime_query
  | AllocationResolution runtime_allocation

record runtime_list =
  rl_description :: "string option"
  rl_member_type :: string
  rl_members :: "json list"

record runtime_evaluation_context =
  ec_schema :: json
  ec_validator :: validator

record runtime_package =
  rp_evaluation_contexts :: "runtime_evaluation_context smap"
  rp_variable_contexts :: "string bset smap"
  rp_context_dependent :: "string bset"
  rp_catalog_schemas :: "json smap"
  rp_catalog_entries :: "json smap smap"
  rp_lists :: "runtime_list smap"
  rp_variables :: "runtime_resolution smap"
  rp_trace_policies :: "expression list"
  rp_provenance :: "string smap"

section \<open>Checking a context\<close>

text \<open>The loop: the first compatible schema that accepts ends it; otherwise whether there was
  one, and the errors.\<close>

fun try_contexts ::
  "string bset option \<Rightarrow> json \<Rightarrow> runtime_evaluation_context smap \<Rightarrow> bool \<Rightarrow> string list
   \<Rightarrow> (bool \<times> string list) option" where
  "try_contexts accepted ctx [] saw errors = Some (saw, errors)"
| "try_contexts accepted ctx ((i, ec) # rest) saw errors =
     (if (case accepted of Some ids \<Rightarrow> i \<notin> set ids | None \<Rightarrow> False)
      then try_contexts accepted ctx rest saw errors
      else (case ec_validator ec ctx of
              None \<Rightarrow> None
            | Some e \<Rightarrow> try_contexts accepted ctx rest True (errors @ [i @ '': '' @ e])))"

definition validate_context_against :: "runtime_package \<Rightarrow> json \<Rightarrow> string bset option \<Rightarrow> unit res" where
  "validate_context_against rt ctx accepted =
     (if rp_evaluation_contexts rt = [] then Inr ()
      else (case try_contexts accepted ctx (rp_evaluation_contexts rt) False [] of
              None \<Rightarrow> Inr ()
            | Some (saw, errors) \<Rightarrow>
                if \<not> saw then
                  err ''evaluation context does not match any compatible evaluation context''
                else err (''evaluation context does not match any compatible evaluation context: ''
                          @ join_with ''; '' errors)))"

definition validate_context :: "runtime_package \<Rightarrow> json \<Rightarrow> unit res" where
  "validate_context rt ctx = validate_context_against rt ctx None"

definition validate_context_for_variable :: "runtime_package \<Rightarrow> string \<Rightarrow> json \<Rightarrow> unit res" where
  "validate_context_for_variable rt variable ctx =
     (case map_of (rp_variable_contexts rt) variable of
        None \<Rightarrow> err (''variable not found: variable://'' @ variable)
      | Some accepted \<Rightarrow>
          if variable \<notin> set (rp_context_dependent rt) then Inr ()
          else validate_context_against rt ctx (Some accepted))"

section \<open>Types\<close>

lemma length_trim_left: "length (trim_left n ws s) \<le> length s"
proof (induction n arbitrary: s)
  case (Suc n)
  have "length r \<le> length s" if "strip_any ws s = Some r" for r
    using that by (induction ws s rule: strip_any.induct)
      (auto simp: strip_prefix_Some_iff split: option.splits)
  with Suc show ?case by (auto split: option.splits intro: order_trans)
qed simp

lemma length_trim: "length (trim s) \<le> length s"
  unfolding trim_def trim_end_def trim_start_def
  using length_trim_left order_trans by (metis length_rev)

definition array_inner :: "string \<Rightarrow> string option" where
  "array_inner value = Option.bind (strip_prefix ''array<'' value) (strip_suffix ''>'')"

lemma array_inner_shorter: "array_inner value = Some inner \<Longrightarrow> length inner < length value"
  by (auto simp: array_inner_def bind_eq_Some_conv strip_prefix_Some_iff strip_suffix_Some_iff)

definition parse_plain_type :: "string \<Rightarrow> type_kind option" where
  "parse_plain_type value =
     (case split_once (CHR ''='') value of
        Some (class, i) \<Rightarrow>
          (case parse_class_name class of
             Some CatalogClass \<Rightarrow> if i \<noteq> [] then Some (KCatalog i) else None
           | Some ListClass \<Rightarrow> if i \<noteq> [] then Some (KList i) else None
           | _ \<Rightarrow> Some (KPrimitive value))
      | None \<Rightarrow> Some (KPrimitive value))"

function parse_variable_type :: "string \<Rightarrow> type_kind option" where
  "parse_variable_type text =
     (let value = trim text in
      case array_inner value of
        Some inner \<Rightarrow> map_option KArray (parse_variable_type inner)
      | None \<Rightarrow> parse_plain_type value)"
  by pat_completeness auto
termination
  by (relation "measure length") (auto dest!: array_inner_shorter intro: less_le_trans length_trim)

declare parse_variable_type.simps [simp del]

definition variable_type_kind :: "type_source \<Rightarrow> type_kind option" where
  "variable_type_kind src =
     (case src of
        PrimitiveSource name \<Rightarrow> parse_variable_type name
      | CatalogSource c \<Rightarrow> Some (KCatalog c)
      | _ \<Rightarrow> None)"

definition is_known_primitive :: "string \<Rightarrow> bool" where
  "is_known_primitive value = (value \<in> {''bool'', ''int'', ''number'', ''string'', ''array''})"

fun validate_variable_type_kind :: "semantic_index \<Rightarrow> type_kind \<Rightarrow> unit res" where
  "validate_variable_type_kind ix (KPrimitive name) =
     (if is_known_primitive name then Inr ()
      else err (''variable declares unknown type: '' @ name))"
| "validate_variable_type_kind ix (KCatalog c) =
     (if map_of (ix_catalogs ix) c \<noteq> None then Inr ()
      else err (''variable references unknown catalog: '' @ c))"
| "validate_variable_type_kind ix (KList i) =
     (if map_of (ix_lists ix) i \<noteq> None then Inr ()
      else err (''variable references unknown list: '' @ i))"
| "validate_variable_type_kind ix (KArray item) = validate_variable_type_kind ix item"

text \<open>\<open>"7"\<close> is one bucket, \<open>"0-49"\<close> an inclusive range.\<close>

definition parse_arm_buckets :: "string \<Rightarrow> (nat \<times> nat) option" where
  "parse_arm_buckets text =
     (let value = trim text in
      case split_once (CHR ''-'') value of
        Some (start, stop) \<Rightarrow>
          (case (parse_unsigned (2 ^ 32) (trim start), parse_unsigned (2 ^ 32) (trim stop)) of
             (Some s, Some e) \<Rightarrow> if s \<le> e then Some (s, e) else None
           | _ \<Rightarrow> None)
      | None \<Rightarrow> map_option (\<lambda>b. (b, b)) (parse_unsigned (2 ^ 32) value))"

section \<open>Compiling values\<close>

definition catalog_entry_value :: "semantic_index \<Rightarrow> string \<Rightarrow> string \<Rightarrow> json res" where
  "catalog_entry_value ix c name =
     (case map_of (ix_catalog_entries ix) c of
        None \<Rightarrow> err (''catalog has no values: '' @ c)
      | Some entries \<Rightarrow>
          (case map_of entries name of
             None \<Rightarrow> err (''variable references unknown catalog value: '' @ name)
           | Some v \<Rightarrow> Inr v))"

definition integer_field_is :: "int project_field \<Rightarrow> int \<Rightarrow> bool" where
  "integer_field_is field expected = (case field of Present v \<Rightarrow> v = expected | _ \<Rightarrow> False)"

definition present_json :: "json project_field \<Rightarrow> string \<Rightarrow> json res" where
  "present_json field msg = (case field of Present v \<Rightarrow> Inr v | _ \<Rightarrow> err msg)"

definition compile_array_item :: "semantic_index \<Rightarrow> variable_node \<Rightarrow> string \<Rightarrow> json \<Rightarrow> (string \<times> json) res" where
  "compile_array_item ix vn c v =
     (case as_str v of
        None \<Rightarrow> err (''array<catalog> variable entries must be strings: '' @ vn_id vn)
      | Some name \<Rightarrow> rbind (catalog_entry_value ix c name) (\<lambda>e. Inr (name, e)))"

definition compile_variable_value ::
  "semantic_index \<Rightarrow> variable_node \<Rightarrow> type_kind \<Rightarrow> json \<Rightarrow> selected_value res" where
  "compile_variable_value ix vn kind v =
     (case kind of
        KList _ \<Rightarrow> Inr (LiteralValue v)
      | KCatalog c \<Rightarrow>
          (case as_str v of
             None \<Rightarrow> err (''catalog-backed variable value must be a string: '' @ vn_id vn)
           | Some name \<Rightarrow>
               rbind (catalog_entry_value ix c name) (\<lambda>entry. Inr (CatalogValue c name entry)))
      | KArray (KCatalog c) \<Rightarrow>
          (case as_array v of
             None \<Rightarrow> err (''array<catalog> variable value must be an array: '' @ vn_id vn)
           | Some vs \<Rightarrow>
               rbind (traverse (compile_array_item ix vn c) vs) (\<lambda>pairs.
                 Inr (CatalogArrayValue c (map fst pairs) (JArray (map snd pairs)))))
      | KArray _ \<Rightarrow> Inr (LiteralValue v)
      | KPrimitive _ \<Rightarrow> Inr (LiteralValue v))"

definition compile_variable_rule ::
  "semantic_index \<Rightarrow> variable_node \<Rightarrow> type_kind \<Rightarrow> rule_node \<Rightarrow> runtime_rule res" where
  "compile_variable_rule ix vn kind rule =
     (if rn_invalid_shape rule then err ''rule must be a table''
      else
        rbind
          (case rn_when rule of
             Some (Present w) \<Rightarrow> Inr w
           | Some _ \<Rightarrow> err ''rule when expression is invalid''
           | None \<Rightarrow> err ''rule must declare when'') (\<lambda>w.
        rbind (present_json (rn_value rule) ''rule must declare a value'') (\<lambda>v.
        rbind (compile_variable_value ix vn kind v) (\<lambda>sv.
          Inr \<lparr>rule_index = rn_index rule, rule_when = w, rule_value = sv\<rparr>))))"

section \<open>Compiling a resolution\<close>

definition method_is :: "string \<Rightarrow> string" where
  "method_is name = ''method = '' @ quote @ name @ quote"

text \<open>An optional expression key: absent, or present, or an error.\<close>

definition optional_field :: "'a project_field option \<Rightarrow> string \<Rightarrow> 'a option res" where
  "optional_field field msg =
     (case field of
        Some (Present e) \<Rightarrow> Inr (Some e)
      | Some _ \<Rightarrow> err msg
      | None \<Rightarrow> Inr None)"

definition no_rules :: "rule_collection \<Rightarrow> bool" where
  "no_rules rules = (rules = Rules [])"

definition query_catalog_of :: "type_kind \<Rightarrow> (string \<times> bool) res" where
  "query_catalog_of kind =
     (case kind of
        KCatalog c \<Rightarrow> Inr (c, True)
      | KArray (KCatalog c) \<Rightarrow> Inr (c, False)
      | _ \<Rightarrow> err (method_is ''query'' @ '' requires a catalog=<id> or array<catalog=<id>> type''))"

definition query_order :: "string project_field option \<Rightarrow> bool res" where
  "query_order field =
     (case field of
        Some (Present order) \<Rightarrow>
          if order = ''asc'' then Inr False
          else if order = ''desc'' then Inr True
          else err (''query order must be asc or desc, not '' @ order)
      | Some _ \<Rightarrow> err ''query order must be a string''
      | None \<Rightarrow> Inr False)"

definition query_limit_of :: "int project_field option \<Rightarrow> nat option res" where
  "query_limit_of field =
     (case field of
        Some (Present n) \<Rightarrow>
          if n \<ge> 1 then Inr (Some (nat n)) else err ''query limit must be a positive integer''
      | Some _ \<Rightarrow> err ''query limit must be a positive integer''
      | None \<Rightarrow> Inr None)"

definition query_default_of ::
  "semantic_index \<Rightarrow> variable_node \<Rightarrow> type_kind \<Rightarrow> json project_field \<Rightarrow> selected_value option res" where
  "query_default_of ix vn kind dfl =
     (case dfl of
        Present v \<Rightarrow> rbind (compile_variable_value ix vn kind v) (\<lambda>sv. Inr (Some sv))
      | InvalidField \<Rightarrow> err ''resolve default is invalid''
      | MissingField \<Rightarrow> Inr None)"

definition compile_variable_query ::
  "semantic_index \<Rightarrow> variable_node \<Rightarrow> type_kind \<Rightarrow> json project_field \<Rightarrow> rule_collection
   \<Rightarrow> query_node option \<Rightarrow> runtime_resolution res" where
  "compile_variable_query ix vn kind dfl rules query =
     (if \<not> no_rules rules then
        err (method_is ''query'' @ '' must not declare [[resolve.rule]] tables'')
      else
        rbind (query_catalog_of kind) (\<lambda>(catalog, single).
        (case query of
           None \<Rightarrow> err (method_is ''query'' @ '' must declare from = '' @ quote @ ''<catalog-id>'' @ quote)
         | Some q \<Rightarrow>
             (case qn_from q of
                Present from \<Rightarrow>
                  if from \<noteq> catalog then
                    err (''query from ('' @ from @ '') must match the variable's catalog type (''
                         @ catalog @ '')'')
                  else
                    rbind (optional_field (qn_filter q) ''query filter expression is invalid'') (\<lambda>flt.
                    rbind (optional_field (qn_sort q) ''query sort expression is invalid'') (\<lambda>srt.
                    rbind (query_order (qn_order q)) (\<lambda>descending.
                    if descending \<and> srt = None then err ''query order requires a sort expression''
                    else
                      rbind (query_limit_of (qn_limit q)) (\<lambda>lim.
                      rbind (query_default_of ix vn kind dfl) (\<lambda>dflt.
                        Inr (QueryResolution
                          \<lparr>query_catalog = catalog, query_single = single, query_filter = flt,
                           query_sort = srt, query_descending = descending, query_limit = lim,
                           query_default = dflt\<rparr>))))))
              | _ \<Rightarrow> err (method_is ''query'' @ '' must declare from = '' @ quote @ ''<catalog-id>'' @ quote)))))"

text \<open>\<open>find_map\<close> over the layers, \<open>find\<close> over the allocations of each.\<close>

definition names_allocation :: "string \<Rightarrow> allocation_node \<Rightarrow> bool" where
  "names_allocation i al = (al_id al = Present i)"

fun find_allocation :: "string \<Rightarrow> layer_node list \<Rightarrow> (layer_node \<times> allocation_node) option" where
  "find_allocation i [] = None"
| "find_allocation i (ly # rest) =
     (case List.find (names_allocation i) (ly_allocations ly) of
        Some al \<Rightarrow> Some (ly, al)
      | None \<Rightarrow> find_allocation i rest)"

text \<open>\<open>buckets.value as u32\<close> keeps the low 32 bits.\<close>

definition layer_buckets :: "layer_node \<Rightarrow> 32 word res" where
  "layer_buckets ly =
     (case ly_buckets ly of
        Present n \<Rightarrow>
          if n \<ge> 1 then Inr (of_int n)
          else err (''layer must declare buckets as a positive integer: '' @ ly_id ly)
      | _ \<Rightarrow> err (''layer must declare buckets as a positive integer: '' @ ly_id ly))"

definition allocation_running :: "allocation_node \<Rightarrow> bool res" where
  "allocation_running al =
     (case al_status al of
        None \<Rightarrow> Inr True
      | Some (Present status) \<Rightarrow> Inr (status = ''running'')
      | Some _ \<Rightarrow> err ''allocation status must be draft, running, or concluded'')"

fun compile_assigns ::
  "semantic_index \<Rightarrow> variable_node \<Rightarrow> type_kind \<Rightarrow> assign_node list \<Rightarrow> selected_value smap
   \<Rightarrow> selected_value smap res" where
  "compile_assigns ix vn kind [] assigned = Inr assigned"
| "compile_assigns ix vn kind (a # rest) assigned =
     (if an_invalid_shape a then err ''assign must be a table''
      else (case an_arm a of
              Present arm \<Rightarrow>
                rbind (present_json (an_value a) ''assign must declare a value'') (\<lambda>v.
                rbind (compile_variable_value ix vn kind v) (\<lambda>sv.
                  if map_of assigned arm \<noteq> None then err (''arm is assigned more than once: '' @ arm)
                  else compile_assigns ix vn kind rest (bm_insert arm sv assigned)))
            | _ \<Rightarrow> err ''assign must declare arm''))"

fun compile_arms ::
  "arm_node list \<Rightarrow> selected_value smap \<Rightarrow> (runtime_arm list \<times> selected_value smap) res" where
  "compile_arms [] assigned = Inr ([], assigned)"
| "compile_arms (a # rest) assigned =
     (case am_name a of
        Present name \<Rightarrow>
          (case am_buckets a of
             Present text \<Rightarrow>
               (case parse_arm_buckets text of
                  Some (start, stop) \<Rightarrow>
                    (case map_of assigned name of
                       Some sv \<Rightarrow>
                         rbind (compile_arms rest (bm_remove name assigned)) (\<lambda>(arms, left).
                           Inr (\<lparr>arm_name = name, arm_start = start, arm_end = stop, arm_value = sv\<rparr> # arms,
                                left))
                     | None \<Rightarrow> err (''assign is missing for arm: '' @ name))
                | None \<Rightarrow>
                    err (''arm buckets must be '' @ quote @ ''<start>-<end>'' @ quote @ '' or '' @ quote
                         @ ''<bucket>'' @ quote @ '': '' @ text))
           | _ \<Rightarrow> err ''arm must declare buckets'')
      | _ \<Rightarrow> err ''arm must declare name'')"

definition no_stray_assign :: "selected_value smap \<Rightarrow> unit res" where
  "no_stray_assign left =
     (case left of
        (stray, _) # _ \<Rightarrow> err (''assign names an arm the allocation does not declare: '' @ stray)
      | [] \<Rightarrow> Inr ())"

definition compile_allocation_body ::
  "semantic_index \<Rightarrow> variable_node \<Rightarrow> type_kind \<Rightarrow> json project_field \<Rightarrow> assign_node list
   \<Rightarrow> string \<Rightarrow> layer_node \<Rightarrow> allocation_node \<Rightarrow> runtime_resolution res" where
  "compile_allocation_body ix vn kind dfl assigns i ly al =
     (case ly_unit ly of
        Present unit_expr \<Rightarrow>
          rbind (layer_buckets ly) (\<lambda>buckets.
          rbind (allocation_running al) (\<lambda>running.
          rbind (optional_field (al_eligibility al) ''allocation eligibility must be a CEL expression string'')
            (\<lambda>eligibility.
          rbind (compile_assigns ix vn kind assigns []) (\<lambda>assigned.
          rbind (compile_arms (al_arms al) assigned) (\<lambda>(arms, left).
          rbind (no_stray_assign left) (\<lambda>_.
          rbind (present_json dfl (method_is ''allocation''
                   @ '' must declare a default for units in no arm'')) (\<lambda>d.
          rbind (compile_variable_value ix vn kind d) (\<lambda>dflt.
            Inr (AllocationResolution
              \<lparr>alloc_layer = ly_id ly, alloc_id = i, alloc_unit = unit_expr,
               alloc_buckets = buckets, alloc_running = running,
               alloc_eligibility = eligibility, alloc_arms = arms,
               alloc_default = dflt\<rparr>)))))))))
      | _ \<Rightarrow> err (''layer must declare unit: '' @ ly_id ly))"

definition missing_allocation :: "'a res" where
  "missing_allocation = err (method_is ''allocation'' @ '' must declare allocation = '' @ quote
     @ ''<allocation-id>'' @ quote)"

definition compile_variable_allocation ::
  "semantic_index \<Rightarrow> variable_node \<Rightarrow> type_kind \<Rightarrow> json project_field \<Rightarrow> rule_collection
   \<Rightarrow> assignments_node option \<Rightarrow> runtime_resolution res" where
  "compile_variable_allocation ix vn kind dfl rules assignments =
     (if \<not> no_rules rules then
        err (method_is ''allocation'' @ '' must not declare [[resolve.rule]] tables'')
      else (case assignments of
              None \<Rightarrow> missing_allocation
            | Some an \<Rightarrow>
                (case as_allocation an of
                   Present i \<Rightarrow>
                     (case find_allocation i (map snd (ix_layers ix)) of
                        None \<Rightarrow> err (''variable references unknown allocation: '' @ i)
                      | Some (ly, al) \<Rightarrow>
                          compile_allocation_body ix vn kind dfl (as_assigns an) i ly al)
                 | _ \<Rightarrow> missing_allocation)))"

definition compile_variable_rules ::
  "semantic_index \<Rightarrow> variable_node \<Rightarrow> type_kind \<Rightarrow> resolve_body \<Rightarrow> runtime_resolution res" where
  "compile_variable_rules ix vn kind body =
     (if rb_query body \<noteq> None then
        err (''query parameters (from, filter, sort, order, limit) are only valid with '' @ method_is ''query'')
      else
        rbind (present_json (rb_default body) ''resolve must declare a default value'') (\<lambda>d.
        rbind (compile_variable_value ix vn kind d) (\<lambda>dflt.
        (case rb_rules body of
           Rules rules \<Rightarrow>
             rbind (traverse (compile_variable_rule ix vn kind) rules) (\<lambda>rs.
               Inr (RulesResolution dflt rs))
         | InvalidRules \<Rightarrow> err ''rule must use [[resolve.rule]] tables''))))"

definition compile_variable_resolve ::
  "semantic_index \<Rightarrow> variable_node \<Rightarrow> type_kind \<Rightarrow> runtime_resolution res" where
  "compile_variable_resolve ix vn kind =
     (case vn_resolve vn of
        Resolve body \<Rightarrow>
          (let name = (case rb_method body of Some m \<Rightarrow> m | None \<Rightarrow> ''rules'') in
           if name = ''rules'' then compile_variable_rules ix vn kind body
           else if name = ''query'' then
             compile_variable_query ix vn kind (rb_default body) (rb_rules body) (rb_query body)
           else if name = ''allocation'' then
             compile_variable_allocation ix vn kind (rb_default body) (rb_rules body) (rb_assignments body)
           else err (''unknown resolution method: '' @ name
                     @ ''; supported methods are rules, query, and allocation''))
      | _ \<Rightarrow> err (''variable must contain [resolve]: '' @ vn_id vn))"

section \<open>Compiling the package\<close>

definition validate_variable_type_source :: "semantic_index \<Rightarrow> variable_node \<Rightarrow> type_kind res" where
  "validate_variable_type_source ix vn =
     (case variable_type_kind (vn_type_source vn) of
        None \<Rightarrow> err (''variable must declare type: '' @ vn_id vn)
      | Some kind \<Rightarrow> rbind (validate_variable_type_kind ix kind) (\<lambda>_. Inr kind))"

definition compile_variable :: "semantic_index \<Rightarrow> variable_node \<Rightarrow> (string \<times> runtime_resolution) res" where
  "compile_variable ix vn =
     (if \<not> integer_field_is (vn_schema_version vn) 1 then
        err (''variable must declare schema_version = 1: '' @ vn_id vn)
      else
        rbind (validate_variable_type_source ix vn) (\<lambda>kind.
        rbind (compile_variable_resolve ix vn kind) (\<lambda>r. Inr (vn_id vn, r))))"

definition compile_variables :: "semantic_index \<Rightarrow> runtime_resolution smap res" where
  "compile_variables ix =
     rbind (traverse (compile_variable ix) (map snd (ix_variables ix))) (\<lambda>vs. Inr (bm_of vs))"

definition compile_list :: "list_node \<Rightarrow> string \<times> runtime_list" where
  "compile_list nd =
     (ln_id nd,
      \<lparr>rl_description = (case ln_description nd of Some (Present d) \<Rightarrow> Some d | _ \<Rightarrow> None),
       rl_member_type = (case ln_member_type nd of Present t \<Rightarrow> t | _ \<Rightarrow> []),
       rl_members = (case ln_members nd of Present vs \<Rightarrow> vs | _ \<Rightarrow> [])\<rparr>)"

definition compile_lists :: "semantic_index \<Rightarrow> runtime_list smap" where
  "compile_lists ix = bm_of (map (\<lambda>kv. compile_list (snd kv)) (ix_lists ix))"

definition compile_trace_policy :: "trace_policy_node \<Rightarrow> expression res" where
  "compile_trace_policy p =
     (case tp_when p of
        Present w \<Rightarrow> Inr w
      | InvalidField \<Rightarrow> err (''trace policy '' @ show_nat (tp_index p) @ '' when expression is invalid'')
      | MissingField \<Rightarrow> err (''trace policy '' @ show_nat (tp_index p) @ '' must declare when''))"

definition compile_trace_policies :: "trace_policy_node list \<Rightarrow> expression list res" where
  "compile_trace_policies ps = traverse compile_trace_policy ps"

definition compile_catalog_schemas :: "semantic_index \<Rightarrow> json smap" where
  "compile_catalog_schemas ix =
     List.map_filter (\<lambda>(i, j). map_option (\<lambda>v. (i, v)) j) (ix_catalogs ix)"

definition compile_evaluation_context ::
  "evaluation_context_node \<Rightarrow> (string \<times> runtime_evaluation_context) res" where
  "compile_evaluation_context en =
     (case en_json en of
        None \<Rightarrow> err (''evaluation context schema file could not be parsed: '' @ en_path en)
      | Some j \<Rightarrow>
          (case en_validator en of
             None \<Rightarrow>
               err (''evaluation context schema is invalid: ''
                    @ (case en_invalid_message en of Some m \<Rightarrow> m | None \<Rightarrow> ''schema did not compile''))
           | Some v \<Rightarrow> Inr (en_id en, \<lparr>ec_schema = j, ec_validator = v\<rparr>)))"

definition compile_evaluation_contexts :: "semantic_index \<Rightarrow> runtime_evaluation_context smap res" where
  "compile_evaluation_contexts ix =
     rbind (traverse (\<lambda>kv. compile_evaluation_context (snd kv)) (ix_evaluation_contexts ix))
       (\<lambda>ecs. Inr (bm_of ecs))"

text \<open>\<open>compatible\<close> and \<open>ctx_dependent\<close> are the two parts of the lint component's result.\<close>

definition compile_package ::
  "string bset smap \<Rightarrow> string bset \<Rightarrow> semantic_index \<Rightarrow> runtime_package res" where
  "compile_package compatible ctx_dependent ix =
     (case ix_manifest_trace ix of
        None \<Rightarrow> err ''package manifest is missing''
      | Some trace \<Rightarrow>
          rbind (compile_evaluation_contexts ix) (\<lambda>ecs.
          rbind (compile_variables ix) (\<lambda>vs.
          rbind (compile_trace_policies trace) (\<lambda>tps.
            Inr \<lparr>rp_evaluation_contexts = ecs, rp_variable_contexts = compatible,
                 rp_context_dependent = ctx_dependent,
                 rp_catalog_schemas = compile_catalog_schemas ix,
                 rp_catalog_entries = ix_catalog_entries ix,
                 rp_lists = compile_lists ix, rp_variables = vs,
                 rp_trace_policies = tps, rp_provenance = []\<rparr>))))"

definition compile_runtime_package ::
  "string bset smap \<Rightarrow> string bset \<Rightarrow> string smap \<Rightarrow> semantic_index \<Rightarrow> runtime_package res" where
  "compile_runtime_package compatible ctx_dependent provenance ix =
     rbind (compile_package compatible ctx_dependent ix) (\<lambda>rt. Inr (rt\<lparr>rp_provenance := provenance\<rparr>))"

section \<open>What compiling guarantees\<close>

definition entry_of :: "json smap smap \<Rightarrow> string \<Rightarrow> string \<Rightarrow> json option" where
  "entry_of entries c name = Option.bind (map_of entries c) (\<lambda>es. map_of es name)"

text \<open>A value of a type: an entry of the catalog, a list of entries, or a literal.\<close>

fun typed_value :: "json smap smap \<Rightarrow> type_kind \<Rightarrow> selected_value \<Rightarrow> bool" where
  "typed_value entries (KCatalog c) sv = (\<exists>name v. sv = CatalogValue c name v \<and> entry_of entries c name = Some v)"
| "typed_value entries (KArray (KCatalog c)) sv =
     (\<exists>names vs. sv = CatalogArrayValue c names (JArray vs)
        \<and> list_all2 (\<lambda>name v. entry_of entries c name = Some v) names vs)"
| "typed_value entries _ sv = (\<exists>v. sv = LiteralValue v)"

fun typed_resolution :: "json smap smap \<Rightarrow> type_kind \<Rightarrow> runtime_resolution \<Rightarrow> bool" where
  "typed_resolution entries kind (RulesResolution d rs) =
     (typed_value entries kind d \<and> list_all (\<lambda>r. typed_value entries kind (rule_value r)) rs)"
| "typed_resolution entries kind (QueryResolution q) =
     (query_catalog_of kind = Inr (query_catalog q, query_single q)
      \<and> (query_descending q \<longrightarrow> query_sort q \<noteq> None)
      \<and> pred_option (\<lambda>n. 0 < n) (query_limit q)
      \<and> pred_option (typed_value entries kind) (query_default q))"
| "typed_resolution entries kind (AllocationResolution a) =
     (typed_value entries kind (alloc_default a)
      \<and> list_all (\<lambda>arm. typed_value entries kind (arm_value arm)
           \<and> arm_start arm \<le> arm_end arm \<and> arm_end arm < 2 ^ 32) (alloc_arms a))"

lemma catalog_entry_value_Inr:
  "catalog_entry_value ix c name = Inr v \<longleftrightarrow> entry_of (ix_catalog_entries ix) c name = Some v"
  by (auto simp: catalog_entry_value_def entry_of_def bind_eq_Some_conv split: option.splits)

lemma compile_array_item_Inr:
  "compile_array_item ix vn c v = Inr p \<longleftrightarrow>
     v = JString (fst p) \<and> entry_of (ix_catalog_entries ix) c (fst p) = Some (snd p)"
  by (cases p) (auto simp: compile_array_item_def rbind_eq_Inr catalog_entry_value_Inr split: option.splits)

lemma compile_variable_value_typed:
  assumes "compile_variable_value ix vn kind v = Inr sv"
  shows "typed_value (ix_catalog_entries ix) kind sv"
proof (cases "\<exists>c. kind = KArray (KCatalog c)")
  case True
  then obtain c where k: "kind = KArray (KCatalog c)" by blast
  with assms obtain vs pairs where "traverse (compile_array_item ix vn c) vs = Inr pairs"
    "sv = CatalogArrayValue c (map fst pairs) (JArray (map snd pairs))"
    by (auto simp: compile_variable_value_def rbind_eq_Inr split: option.splits)
  then show ?thesis
    unfolding k traverse_Inr_iff compile_array_item_Inr
    by (auto simp: list_all2_map1 list_all2_map2 list_all2_conv_all_nth)
next
  case False
  with assms show ?thesis
    by (cases kind rule: type_kind.exhaust)
      (auto simp: compile_variable_value_def rbind_eq_Inr catalog_entry_value_Inr
        split: option.splits type_kind.splits)
qed

lemma present_json_Inr: "present_json f m = Inr v \<longleftrightarrow> f = Present v"
  by (auto simp: present_json_def split: project_field.splits)

lemma compile_variable_rule_typed:
  "compile_variable_rule ix vn kind rule = Inr r \<Longrightarrow> typed_value (ix_catalog_entries ix) kind (rule_value r)"
  by (auto simp: compile_variable_rule_def rbind_eq_Inr dest: compile_variable_value_typed split: if_splits)

lemma compile_rules_typed:
  assumes "traverse (compile_variable_rule ix vn kind) rules = Inr rs"
  shows "list_all (\<lambda>r. typed_value (ix_catalog_entries ix) kind (rule_value r)) rs"
  using assms unfolding traverse_Inr_iff list_all_iff
  by (auto simp: list_all2_conv_all_nth set_conv_nth intro: compile_variable_rule_typed)

lemma compile_variable_rules_typed:
  assumes "compile_variable_rules ix vn kind body = Inr r"
  shows "typed_resolution (ix_catalog_entries ix) kind r"
proof (cases "rb_rules body")
  case (Rules rules)
  with assms obtain d dv rs where "compile_variable_value ix vn kind d = Inr dv"
    "traverse (compile_variable_rule ix vn kind) rules = Inr rs" "r = RulesResolution dv rs"
    by (auto simp: compile_variable_rules_def rbind_eq_Inr split: if_splits)
  then show ?thesis using compile_variable_value_typed compile_rules_typed by simp
qed (use assms in \<open>auto simp: compile_variable_rules_def rbind_eq_Inr split: if_splits\<close>)

lemma query_limit_positive: "query_limit_of f = Inr l \<Longrightarrow> pred_option (\<lambda>n. 0 < n) l"
  by (auto simp: query_limit_of_def split: option.splits project_field.splits if_splits)

lemma query_default_typed:
  "query_default_of ix vn kind f = Inr d \<Longrightarrow> pred_option (typed_value (ix_catalog_entries ix) kind) d"
  by (auto simp: query_default_of_def rbind_eq_Inr compile_variable_value_typed split: project_field.splits)

lemma compile_variable_query_typed:
  assumes "compile_variable_query ix vn kind dfl rules query = Inr r"
  shows "typed_resolution (ix_catalog_entries ix) kind r"
proof -
  obtain q fr where q: "query = Some q" "qn_from q = Present fr" "no_rules rules"
    using assms
    by (cases query; cases "qn_from (the query)")
      (auto simp: compile_variable_query_def rbind_eq_Inr split: if_splits)
  obtain catalog single flt srt descending lim d where
    f: "query_catalog_of kind = Inr (catalog, single)" "descending \<longrightarrow> srt \<noteq> None"
      "query_limit_of (qn_limit q) = Inr lim" "query_default_of ix vn kind dfl = Inr d" and
    r: "r = QueryResolution \<lparr>query_catalog = catalog, query_single = single, query_filter = flt,
      query_sort = srt, query_descending = descending, query_limit = lim, query_default = d\<rparr>"
    using assms q by (auto simp: compile_variable_query_def rbind_eq_Inr split: if_splits)
  show ?thesis
    using f(1,2) query_limit_positive [OF f(3)] query_default_typed [OF f(4)] by (simp add: r)
qed

lemma parse_unsigned_bound: "parse_unsigned b s = Some n \<Longrightarrow> int n < b"
  by (auto simp: parse_unsigned_def Let_def split: if_splits option.splits)

lemma parse_arm_buckets_range: "parse_arm_buckets s = Some (a, b) \<Longrightarrow> a \<le> b \<and> b < 2 ^ 32"
  by (auto simp: parse_arm_buckets_def Let_def dest!: parse_unsigned_bound split: option.splits if_splits)

text \<open>What the assigned map holds, and what the arms take from it.\<close>

definition assigns_arm ::
  "semantic_index \<Rightarrow> variable_node \<Rightarrow> type_kind \<Rightarrow> assign_node list \<Rightarrow> string \<Rightarrow> selected_value \<Rightarrow> bool" where
  "assigns_arm ix vn kind assigns arm sv =
     (\<exists>a \<in> set assigns. an_arm a = Present arm \<and>
        (\<exists>v. an_value a = Present v \<and> compile_variable_value ix vn kind v = Inr sv))"

lemma compile_assigns_sound:
  assumes "compile_assigns ix vn kind assigns m0 = Inr m"
  shows "(map_of m arm = Some sv \<longleftrightarrow> map_of m0 arm = Some sv \<or> assigns_arm ix vn kind assigns arm sv)
    \<and> (\<forall>a \<in> set assigns. \<exists>x. an_arm a = Present x \<and> map_of m0 x = None \<and> map_of m x \<noteq> None)
    \<and> distinct (map an_arm assigns)"
  using assms
proof (induction assigns arbitrary: m0 arm sv)
  case (Cons a rest)
  then obtain x v sx where a: "an_arm a = Present x" "an_value a = Present v"
    "compile_variable_value ix vn kind v = Inr sx" "map_of m0 x = None"
    and rest: "compile_assigns ix vn kind rest (bm_insert x sx m0) = Inr m"
    by (auto simp: rbind_eq_Inr present_json_Inr split: if_splits project_field.splits)
  note IH = Cons.IH [where arm = arm and sv = sv, OF rest, unfolded map_of_bm_insert]
  have fresh: "\<forall>b \<in> set rest. an_arm b \<noteq> Present x" using IH by force
  have "assigns_arm ix vn kind (a # rest) arm sv \<longleftrightarrow> (arm = x \<and> sv = sx) \<or> assigns_arm ix vn kind rest arm sv"
    using a by (auto simp: assigns_arm_def)
  moreover have "\<not> assigns_arm ix vn kind rest x sv" using fresh by (auto simp: assigns_arm_def)
  moreover have "\<forall>b \<in> set rest. \<exists>y. an_arm b = Present y \<and> map_of m0 y = None \<and> map_of m y \<noteq> None"
    using IH by (force split: if_splits)
  moreover have "map_of m x = Some sx"
    using Cons.IH [where arm = x and sv = sx, OF rest] by (simp add: map_of_bm_insert)
  moreover have "an_arm a \<notin> an_arm ` set rest" using fresh a(1) by force
  ultimately show ?case using IH a(1,4) by auto
qed (simp add: assigns_arm_def)

lemma compile_arms_sound:
  assumes "compile_arms nodes m0 = Inr (arms, left)"
  shows "distinct (map arm_name arms) \<and> (\<forall>arm \<in> set arms. map_of m0 (arm_name arm) = Some (arm_value arm)
      \<and> arm_start arm \<le> arm_end arm \<and> arm_end arm < 2 ^ 32)
    \<and> map_of left = map_of m0 |` (- arm_name ` set arms)"
  using assms
proof (induction nodes arbitrary: m0 arms)
  case (Cons a nodes)
  then obtain name btext start stop sv arms' where a: "parse_arm_buckets btext = Some (start, stop)"
    "map_of m0 name = Some sv" "compile_arms nodes (bm_remove name m0) = Inr (arms', left)"
    "arms = \<lparr>arm_name = name, arm_start = start, arm_end = stop, arm_value = sv\<rparr> # arms'"
    by (auto simp: rbind_eq_Inr split: project_field.splits option.splits)
  note IH = Cons.IH [OF a(3), unfolded map_of_bm_remove]
  have "name \<notin> arm_name ` set arms'" using IH by fastforce
  then show ?case
    using IH a(2) parse_arm_buckets_range [OF a(1)]
    by (auto simp: a(4) restrict_map_def fun_eq_iff split: if_splits)
qed (simp add: restrict_map_def fun_eq_iff)

lemma compile_allocation_parts:
  assumes "compile_allocation_body ix vn kind dfl assigns i ly al = Inr r"
  obtains unit_expr buckets running eligibility m arms d dv where
    "ly_unit ly = Present unit_expr" "layer_buckets ly = Inr buckets" "allocation_running al = Inr running"
    "compile_assigns ix vn kind assigns [] = Inr m" "compile_arms (al_arms al) m = Inr (arms, [])"
    "dfl = Present d" "compile_variable_value ix vn kind d = Inr dv"
    "r = AllocationResolution \<lparr>alloc_layer = ly_id ly, alloc_id = i, alloc_unit = unit_expr,
       alloc_buckets = buckets, alloc_running = running, alloc_eligibility = eligibility,
       alloc_arms = arms, alloc_default = dv\<rparr>"
proof -
  obtain unit_expr where u: "ly_unit ly = Present unit_expr"
    using assms by (cases "ly_unit ly") (simp_all add: compile_allocation_body_def)
  have stray: "no_stray_assign left = Inr x \<longleftrightarrow> left = []" for left x
    by (auto simp: no_stray_assign_def split: list.splits)
  show ?thesis
    using assms u that by (auto simp: compile_allocation_body_def rbind_eq_Inr present_json_Inr stray)
qed

lemma compile_allocation_sound:
  assumes "compile_allocation_body ix vn kind dfl assigns i ly al = Inr (AllocationResolution a)"
  shows "typed_resolution (ix_catalog_entries ix) kind (AllocationResolution a)"
    "distinct (map arm_name (alloc_arms a))" "distinct (map an_arm assigns)"
    "Present ` arm_name ` set (alloc_arms a) = an_arm ` set assigns"
    "\<forall>arm \<in> set (alloc_arms a). assigns_arm ix vn kind assigns (arm_name arm) (arm_value arm)"
proof -
  from compile_allocation_parts [OF assms] obtain m arms d dv where
    m: "compile_assigns ix vn kind assigns [] = Inr m" and arms: "compile_arms (al_arms al) m = Inr (arms, [])"
    and d: "compile_variable_value ix vn kind d = Inr dv"
    and a: "alloc_arms a = arms" "alloc_default a = dv"
    by (metis runtime_allocation.select_convs(7,8) runtime_resolution.inject(3))
  note A = compile_assigns_sound [OF m] and B = compile_arms_sound [OF arms]
  show "distinct (map arm_name (alloc_arms a))" "distinct (map an_arm assigns)" using A B a by auto
  show asg: "\<forall>arm \<in> set (alloc_arms a). assigns_arm ix vn kind assigns (arm_name arm) (arm_value arm)"
    using A B a by simp
  then show "typed_resolution (ix_catalog_entries ix) kind (AllocationResolution a)"
    using B compile_variable_value_typed [OF d] compile_variable_value_typed a
    unfolding assigns_arm_def by (auto simp: list_all_iff)
  show "Present ` arm_name ` set (alloc_arms a) = an_arm ` set assigns"
  proof
    show "Present ` arm_name ` set (alloc_arms a) \<subseteq> an_arm ` set assigns"
      using asg by (force simp: assigns_arm_def)
    show "an_arm ` set assigns \<subseteq> Present ` arm_name ` set (alloc_arms a)"
    proof
      fix f assume "f \<in> an_arm ` set assigns"
      then obtain n where n: "n \<in> set assigns" "f = an_arm n" by blast
      then obtain x where x: "an_arm n = Present x" "map_of m x \<noteq> None" using A by blast
      then have "x \<in> arm_name ` set arms" using B by (auto simp: restrict_map_def fun_eq_iff split: if_splits)
      then show "f \<in> Present ` arm_name ` set (alloc_arms a)" using a n x by auto
    qed
  qed
qed

lemma compile_variable_resolve_typed:
  assumes "compile_variable_resolve ix vn kind = Inr r"
  shows "typed_resolution (ix_catalog_entries ix) kind r"
proof (cases "vn_resolve vn")
  case (Resolve body)
  show ?thesis
  proof (cases "rb_method body = Some ''allocation''")
    case True
    with assms Resolve have c: "compile_variable_allocation ix vn kind (rb_default body) (rb_rules body)
        (rb_assignments body) = Inr r"
      by (simp add: compile_variable_resolve_def)
    then obtain an i where an: "rb_assignments body = Some an" "as_allocation an = Present i"
      by (cases "rb_assignments body"; cases "as_allocation (the (rb_assignments body))")
        (auto simp: compile_variable_allocation_def missing_allocation_def split: if_splits)
    with c obtain ly al where
      b: "compile_allocation_body ix vn kind (rb_default body) (as_assigns an) i ly al = Inr r"
      by (cases "find_allocation i (map snd (ix_layers ix))")
        (auto simp: compile_variable_allocation_def split: if_splits)
    then obtain a where "r = AllocationResolution a" by (elim compile_allocation_parts)
    with b show ?thesis using compile_allocation_sound(1) by blast
  next
    case False
    with assms Resolve show ?thesis
      using compile_variable_rules_typed compile_variable_query_typed
      by (auto simp: compile_variable_resolve_def Let_def split: option.splits if_splits)
  qed
qed (use assms in \<open>simp_all add: compile_variable_resolve_def\<close>)

lemma compile_variable_typed:
  assumes "compile_variable ix vn = Inr (i, r)"
  shows "i = vn_id vn \<and> (\<exists>kind. variable_type_kind (vn_type_source vn) = Some kind
    \<and> validate_variable_type_kind ix kind = Inr () \<and> typed_resolution (ix_catalog_entries ix) kind r)"
  using assms compile_variable_resolve_typed
  by (auto simp: compile_variable_def validate_variable_type_source_def rbind_eq_Inr
      split: if_splits option.splits)

lemma compile_package_variables:
  assumes "compile_package compatible ctx_dependent ix = Inr rt" "map_of (rp_variables rt) i = Some r"
  obtains vn where "vn \<in> snd ` set (ix_variables ix)" "compile_variable ix vn = Inr (i, r)"
proof -
  obtain vs where vs: "traverse (compile_variable ix) (map snd (ix_variables ix)) = Inr vs"
    "rp_variables rt = bm_of vs"
    using assms(1) by (auto simp: compile_package_def compile_variables_def rbind_eq_Inr split: option.splits)
  have "(i, r) \<in> set vs"
    using assms(2) vs(2) by (auto simp: map_of_bm_of dest: map_of_SomeD)
  then obtain vn where "vn \<in> set (map snd (ix_variables ix))" "compile_variable ix vn = Inr (i, r)"
    using vs(1) unfolding traverse_Inr_iff list_all2_conv_all_nth
    by (metis in_set_conv_nth)
  with that show ?thesis by simp
qed

lemma compile_package_entries:
  "compile_package compatible ctx_dependent ix = Inr rt \<Longrightarrow> rp_catalog_entries rt = ix_catalog_entries ix"
  by (auto simp: compile_package_def rbind_eq_Inr split: option.splits)

lemma try_contexts_None:
  "try_contexts accepted ctx ecs saw errors = None \<longleftrightarrow>
     (\<exists>i ec. (i, ec) \<in> set ecs \<and> (\<forall>ids. accepted = Some ids \<longrightarrow> i \<in> set ids) \<and> ec_validator ec ctx = None)"
proof (induction accepted ctx ecs saw errors rule: try_contexts.induct)
  case (2 accepted ctx i ec rest saw errors)
  then show ?case by (cases accepted; cases "ec_validator ec ctx") (auto split: if_splits)
qed simp

lemma validate_context_against_ok:
  "is_ok (validate_context_against rt ctx accepted) \<longleftrightarrow>
     rp_evaluation_contexts rt = [] \<or> try_contexts accepted ctx (rp_evaluation_contexts rt) False [] = None"
  by (auto simp: validate_context_against_def split: option.splits)

section \<open>An example package\<close>

definition expression_of :: "string \<Rightarrow> cel \<Rightarrow> expression" where
  "expression_of text ast = \<lparr>source = text, refs = references_from_cel ast, cel_ast = ast\<rparr>"

definition context_field :: "string \<Rightarrow> expression" where
  "context_field f = expression_of (''context.'' @ f) (Select (Ident ''context'') f)"

definition plain_variable :: "string \<Rightarrow> string \<Rightarrow> resolve_body \<Rightarrow> string \<times> variable_node" where
  "plain_variable i ty body =
     (i, \<lparr>vn_id = i, vn_schema_version = Present 1, vn_type_source = PrimitiveSource ty,
          vn_resolve = Resolve body\<rparr>)"

definition example_layer :: "int \<Rightarrow> layer_node" where
  "example_layer n =
     \<lparr>ly_id = ''traffic'', ly_unit = Present (context_field ''user''), ly_buckets = Present n,
      ly_allocations = [\<lparr>al_id = Present ''color_test'', al_status = None, al_eligibility = None,
        al_arms = [\<lparr>am_name = Present ''control'', am_buckets = Present ''0-4''\<rparr>,
                   \<lparr>am_name = Present ''treatment'', am_buckets = Present ''5 - 9''\<rparr>]\<rparr>]\<rparr>"

definition example_assigns :: "assign_node list" where
  "example_assigns =
     [\<lparr>an_arm = Present ''treatment'', an_value = Present (JString ''blue''), an_invalid_shape = False\<rparr>,
      \<lparr>an_arm = Present ''control'', an_value = Present (JString ''red''), an_invalid_shape = False\<rparr>]"

definition color_variable :: "string \<times> variable_node" where
  "color_variable = plain_variable ''color'' ''string''
     \<lparr>rb_method = Some ''allocation'', rb_default = Present (JString ''grey''), rb_rules = Rules [],
      rb_query = None,
      rb_assignments = Some \<lparr>as_allocation = Present ''color_test'', as_assigns = example_assigns\<rparr>\<rparr>"

definition plan_variable :: "string \<times> variable_node" where
  "plan_variable = plain_variable ''plan'' ''catalog=plans''
     \<lparr>rb_method = None, rb_default = Present (JString ''free''),
      rb_rules = Rules [\<lparr>rn_index = 0, rn_when = Some (Present (context_field ''beta'')),
        rn_value = Present (JString ''pro''), rn_invalid_shape = False\<rparr>],
      rb_query = None, rb_assignments = None\<rparr>"

definition ranked_variable :: "string \<times> variable_node" where
  "ranked_variable = plain_variable ''ranked'' ''array<catalog=plans>''
     \<lparr>rb_method = Some ''query'', rb_default = MissingField, rb_rules = Rules [],
      rb_query = Some \<lparr>qn_from = Present ''plans'', qn_filter = None,
        qn_sort = Some (Present (expression_of ''entry.rank'' (Select (Ident ''entry'') ''rank''))),
        qn_order = Some (Present ''desc''), qn_limit = Some (Present 2)\<rparr>,
      rb_assignments = None\<rparr>"

definition example_index :: "int \<Rightarrow> semantic_index" where
  "example_index n =
     \<lparr>ix_manifest_trace = Some [], ix_evaluation_contexts = [],
      ix_catalogs = [(''plans'', Some (JObject []))],
      ix_catalog_entries = [(''plans'', [(''free'', JObject [(''price'', JNumber (JInt 0)), (''rank'', JString ''a'')]),
        (''pro'', JObject [(''price'', JNumber (JInt 20)), (''rank'', JString ''b'')])])],
      ix_lists = [], ix_variables = [color_variable, plan_variable, ranked_variable],
      ix_layers = [(''traffic'', example_layer n)]\<rparr>"

section \<open>Properties\<close>



text \<open>A compiled allocation has one value for each arm: its arms have
  different names, the assigns name different arms, the two sets of names are the same, and each arm
  carries the compiled value of the assign that names it.\<close>

theorem allocation_assigns_arms:
  assumes "compile_allocation_body ix vn kind dfl assigns i ly al = Inr (AllocationResolution a)"
  shows "distinct (map arm_name (alloc_arms a)) \<and> distinct (map an_arm assigns)
    \<and> Present ` arm_name ` set (alloc_arms a) = an_arm ` set assigns
    \<and> list_all (\<lambda>arm. assigns_arm ix vn kind assigns (arm_name arm) (arm_value arm)) (alloc_arms a)"
  using compile_allocation_sound [OF assms] by (auto simp: list_all_iff)

theorem allocation_assigns_arms_witness:
  "\<exists>a. compile_allocation_body (example_index 10) (snd color_variable) (KPrimitive ''string'')
      (Present (JString ''grey'')) example_assigns ''color_test'' (example_layer 10)
      (hd (ly_allocations (example_layer 10))) = Inr (AllocationResolution a)
    \<and> distinct (map arm_name (alloc_arms a))"
proof -
  let ?c = "compile_allocation_body (example_index 10) (snd color_variable) (KPrimitive ''string'')
      (Present (JString ''grey'')) example_assigns ''color_test'' (example_layer 10)
      (hd (ly_allocations (example_layer 10)))"
  have "(case ?c of Inr (AllocationResolution a) \<Rightarrow> True | _ \<Rightarrow> False)" by code_simp
  then obtain a where a: "?c = Inr (AllocationResolution a)"
    by (auto split: sum.splits runtime_resolution.splits)
  with allocation_assigns_arms [OF a] show ?thesis by blast
qed

text \<open>Checking a context for a variable succeeds exactly when the variable
  is known and, where it depends on the context and the package declares evaluation contexts, one of
  the contexts compatible with the variable accepts it.\<close>

theorem context_check_decides:
  "is_ok (validate_context_for_variable rt v ctx) \<longleftrightarrow>
     (case map_of (rp_variable_contexts rt) v of
        None \<Rightarrow> False
      | Some ids \<Rightarrow>
          if v \<in> set (rp_context_dependent rt) \<and> rp_evaluation_contexts rt \<noteq> []
          then \<exists>i ec. (i, ec) \<in> set (rp_evaluation_contexts rt) \<and> i \<in> set ids \<and> ec_validator ec ctx = None
          else True)"
  by (auto simp: validate_context_for_variable_def validate_context_against_ok try_contexts_None
      split: option.splits)

end
