(* ===== verification/Hydrate.thy ===== *)
theory Hydrate
  imports Runtime
begin

text \<open>
  Hydration of a catalog entry (src/src/resolve/hydrate.rs): the view of an entry in which
  every reference its schema declares is replaced by the entry it names. The stack of
  entries being hydrated is an argument: the source inserts an entry, hydrates it and removes
  it again, so a call never changes it. The recursion follows schemas, whose \<open>$ref\<close>s may
  be cyclic, so it runs on fuel and \<open>None\<close> is "out of fuel"; \<open>hydrate_self_ref_diverges\<close> below
  shows that no fuel can be enough in general, \<open>hydrate_plain\<close> that the size of the
  schema is when it has no references. JSON pointers are the parameter \<open>ptr\<close>.
\<close>

type_synonym pointer_lookup = "json \<Rightarrow> string \<Rightarrow> json option"
type_synonym entry_stack = "(string \<times> string) list"

section \<open>References\<close>

definition is_json_pointer :: "string \<Rightarrow> bool" where
  "is_json_pointer v = (v = [] \<or> starts_with ''/'' v)"

definition split_catalog_entry_ref :: "string \<Rightarrow> (string \<times> string option) option" where
  "split_catalog_entry_ref v =
     (case split_once (CHR ''#'') v of
        None \<Rightarrow> if v \<noteq> [] then Some (v, None) else None
      | Some (entry, p) \<Rightarrow>
          if entry = [] \<or> \<not> is_json_pointer p then None
          else Some (entry, if p \<noteq> [] then Some p else None))"

text \<open>The loop over the segments of a relative reference, on the base's segments.\<close>

fun resolve_segments :: "string list \<Rightarrow> string list \<Rightarrow> string list option" where
  "resolve_segments base [] = Some base"
| "resolve_segments base (seg # rest) =
     (if seg = [] \<or> seg = ''.'' then resolve_segments base rest
      else if seg = ''..'' then
        (if base = [] then None else resolve_segments (butlast base) rest)
      else resolve_segments (base @ [seg]) rest)"

definition base_segments :: "string \<Rightarrow> string list" where
  "base_segments c =
     (case rsplit_once (CHR ''/'') c of
        Some (namespace, _) \<Rightarrow> split_on (CHR ''/'') namespace
      | None \<Rightarrow> [])"

definition resolve_relative_schema_uri :: "string \<Rightarrow> string \<Rightarrow> string option" where
  "resolve_relative_schema_uri current uri =
     (case strip_suffix ''.schema.json'' uri of
        None \<Rightarrow> None
      | Some target \<Rightarrow>
          if target = [] \<or> contains_sub ''://'' uri \<or> starts_with ''/'' uri then None
          else (case resolve_segments (base_segments current) (split_on (CHR ''/'') target) of
                  None \<Rightarrow> None
                | Some segs \<Rightarrow> if segs \<noteq> [] then Some (join_with ''/'' segs) else None))"

definition schema_with_id :: "runtime_package \<Rightarrow> string \<Rightarrow> string option" where
  "schema_with_id rt uri =
     map_option fst (List.find (\<lambda>(c, schema). json_str schema ''$id'' = Some uri) (rp_catalog_schemas rt))"

definition ref_catalog :: "runtime_package \<Rightarrow> string \<Rightarrow> string \<Rightarrow> string option" where
  "ref_catalog rt current uri =
     (if uri = [] then Some current
      else (case Option.bind (strip_prefix ''rototo://catalogs/'' uri) (strip_suffix ''.schema.json'') of
              Some c \<Rightarrow> Some c
            | None \<Rightarrow>
                (case schema_with_id rt uri of
                   Some c \<Rightarrow> Some c
                 | None \<Rightarrow> resolve_relative_schema_uri current uri)))"

definition resolve_schema_ref ::
  "pointer_lookup \<Rightarrow> runtime_package \<Rightarrow> string \<Rightarrow> string \<Rightarrow> (string \<times> json) option" where
  "resolve_schema_ref ptr rt current reference =
     (case (case split_once (CHR ''#'') reference of
              Some (uri, p) \<Rightarrow> (uri, p)
            | None \<Rightarrow> (reference, [])) of (uri, p) \<Rightarrow>
        Option.bind (ref_catalog rt current uri) (\<lambda>c.
        Option.bind (map_of (rp_catalog_schemas rt) c) (\<lambda>schema.
          if p = [] then Some (c, schema)
          else if starts_with ''/'' p then map_option (\<lambda>s. (c, s)) (ptr schema p)
          else None)))"

text \<open>The catalogs an \<open>x-rototo-ref\<close> names, in its two string forms.\<close>

definition spec_catalogs :: "json \<Rightarrow> string list option" where
  "spec_catalogs ref_spec =
     (case as_str ref_spec of
        Some target \<Rightarrow> map_option (\<lambda>c. [c]) (strip_prefix ''catalog='' target)
      | None \<Rightarrow>
          map_option (\<lambda>vs. List.map_filter (\<lambda>v. Option.bind (as_str v) (strip_prefix ''catalog='')) vs)
            (as_array ref_spec))"

text \<open>The \<open>true\<close> form: the value itself is an object that names catalog, entry and pointer.\<close>

definition object_reference :: "json \<Rightarrow> (string \<times> string \<times> string option) option" where
  "object_reference v =
     Option.bind (as_object v) (\<lambda>_.
     Option.bind (json_str v ''catalog'') (\<lambda>c.
     Option.bind (json_str v ''entry'') (\<lambda>e. Some (c, e, json_str v ''pointer''))))"

definition has_entry :: "runtime_package \<Rightarrow> string \<Rightarrow> string \<Rightarrow> bool" where
  "has_entry rt c e = (entry_of (rp_catalog_entries rt) c e \<noteq> None)"

text \<open>The catalog, entry and pointer a value refers to under a reference specification.\<close>

definition reference_target :: "runtime_package \<Rightarrow> json \<Rightarrow> json \<Rightarrow> (string \<times> string \<times> string option) option" where
  "reference_target rt ref_spec v =
     (if ref_spec = JBool True then object_reference v
      else
        Option.bind (spec_catalogs ref_spec) (\<lambda>catalogs.
        Option.bind (as_str v) (\<lambda>target.
        Option.bind (split_catalog_entry_ref target) (\<lambda>(entry, p).
          map_option (\<lambda>c. (c, entry, p)) (List.find (\<lambda>c. has_entry rt c entry) catalogs)))))"

section \<open>Hydration\<close>

definition with_id :: "string \<Rightarrow> json \<Rightarrow> json" where
  "with_id name entry =
     (case entry of JObject ob \<Rightarrow> JObject (bm_insert ''id'' (JString name) ob) | v \<Rightarrow> v)"

text \<open>The steps below take the recursive call on a schema as an argument: \<open>h stack catalog
  schema value\<close>.\<close>

type_synonym hydrator = "entry_stack \<Rightarrow> string \<Rightarrow> json \<Rightarrow> json \<Rightarrow> json option"

definition hydrate_entry ::
  "runtime_package \<Rightarrow> hydrator \<Rightarrow> entry_stack \<Rightarrow> string \<Rightarrow> string \<Rightarrow> json \<Rightarrow> json option" where
  "hydrate_entry rt h stack c name entry =
     (let v = with_id name entry in
      if (c, name) \<in> set stack then Some v
      else (case map_of (rp_catalog_schemas rt) c of
              Some schema \<Rightarrow> h ((c, name) # stack) c schema v
            | None \<Rightarrow> Some v))"

text \<open>The outer option is fuel, the inner one the source's.\<close>

definition hydrate_target ::
  "pointer_lookup \<Rightarrow> runtime_package \<Rightarrow> hydrator \<Rightarrow> entry_stack \<Rightarrow> string \<Rightarrow> string \<Rightarrow> string option
   \<Rightarrow> json \<Rightarrow> json option option" where
  "hydrate_target ptr rt h stack c entry p fallback =
     (if (c, entry) \<in> set stack then Some (Some fallback)
      else (case entry_of (rp_catalog_entries rt) c entry of
              None \<Rightarrow> Some None
            | Some v \<Rightarrow>
                map_option (\<lambda>hydrated. Some
                  (case p of
                     Some q \<Rightarrow> (case ptr hydrated q of Some w \<Rightarrow> w | None \<Rightarrow> fallback)
                   | None \<Rightarrow> hydrated)) (hydrate_entry rt h stack c entry v)))"

definition hydrate_reference ::
  "pointer_lookup \<Rightarrow> runtime_package \<Rightarrow> hydrator \<Rightarrow> entry_stack \<Rightarrow> json \<Rightarrow> json \<Rightarrow> json option option" where
  "hydrate_reference ptr rt h stack ref_spec v =
     (case reference_target rt ref_spec v of
        None \<Rightarrow> Some None
      | Some (c, entry, p) \<Rightarrow> hydrate_target ptr rt h stack c entry p v)"

fun hydrate_properties :: "(json \<Rightarrow> json \<Rightarrow> json option) \<Rightarrow> json smap \<Rightarrow> json smap \<Rightarrow> json smap option" where
  "hydrate_properties h [] ob = Some ob"
| "hydrate_properties h ((key, subschema) # rest) ob =
     (case map_of ob key of
        None \<Rightarrow> hydrate_properties h rest ob
      | Some child \<Rightarrow>
          (case h subschema child of
             None \<Rightarrow> None
           | Some v \<Rightarrow> hydrate_properties h rest (bm_insert key v ob)))"

fun hydrate_all :: "(json \<Rightarrow> json \<Rightarrow> json option) \<Rightarrow> json list \<Rightarrow> json \<Rightarrow> json option" where
  "hydrate_all h [] v = Some v"
| "hydrate_all h (s # rest) v = Option.bind (h s v) (hydrate_all h rest)"

definition object_step :: "(json \<Rightarrow> json \<Rightarrow> json option) \<Rightarrow> json \<Rightarrow> json \<Rightarrow> json option" where
  "object_step h schema v =
     (case (Option.bind (json_get schema ''properties'') as_object, v) of
        (Some properties, JObject ob) \<Rightarrow> map_option JObject (hydrate_properties h properties ob)
      | _ \<Rightarrow> Some v)"

definition items_step :: "(json \<Rightarrow> json \<Rightarrow> json option) \<Rightarrow> json \<Rightarrow> json \<Rightarrow> json option" where
  "items_step h schema v =
     (case (json_get schema ''items'', v) of
        (Some items, JArray vs) \<Rightarrow> map_option JArray (those (map (h items) vs))
      | _ \<Rightarrow> Some v)"

definition keyword_schemas :: "json \<Rightarrow> json list" where
  "keyword_schemas schema =
     concat (map (\<lambda>keyword. case Option.bind (json_get schema keyword) as_array of
         Some schemas \<Rightarrow> schemas | None \<Rightarrow> []) [''allOf'', ''anyOf'', ''oneOf''])"

definition hydrate_structure :: "(json \<Rightarrow> json \<Rightarrow> json option) \<Rightarrow> json \<Rightarrow> json \<Rightarrow> json option" where
  "hydrate_structure h schema v =
     Option.bind (object_step h schema v) (\<lambda>v1.
     Option.bind (items_step h schema v1) (\<lambda>v2. hydrate_all h (keyword_schemas schema) v2))"

fun hydrate_schema ::
  "pointer_lookup \<Rightarrow> runtime_package \<Rightarrow> nat \<Rightarrow> entry_stack \<Rightarrow> string \<Rightarrow> json \<Rightarrow> json \<Rightarrow> json option" where
  "hydrate_schema ptr rt 0 stack c schema v = None"
| "hydrate_schema ptr rt (Suc n) stack c schema v =
     (case Option.bind (json_str schema ''$ref'') (resolve_schema_ref ptr rt c) of
        Some (c', schema') \<Rightarrow> hydrate_schema ptr rt n stack c' schema' v
      | None \<Rightarrow>
          (case (case json_get schema ''x-rototo-ref'' of
                   Some spec \<Rightarrow> hydrate_reference ptr rt (hydrate_schema ptr rt n) stack spec v
                 | None \<Rightarrow> Some None) of
             None \<Rightarrow> None
           | Some (Some hydrated) \<Rightarrow> Some hydrated
           | Some None \<Rightarrow> hydrate_structure (hydrate_schema ptr rt n stack c) schema v))"

definition catalog_entry_view ::
  "pointer_lookup \<Rightarrow> nat \<Rightarrow> runtime_package \<Rightarrow> string \<Rightarrow> string \<Rightarrow> json \<Rightarrow> json option" where
  "catalog_entry_view ptr n rt c name entry = hydrate_entry rt (hydrate_schema ptr rt n) [] c name entry"

section \<open>Collecting the references\<close>

record collected_reference =
  cr_pointer :: string
  cr_catalogs :: "string list"
  cr_entry :: string
  cr_entry_pointer :: "string option"

definition classify_reference :: "json \<Rightarrow> json \<Rightarrow> string \<Rightarrow> collected_reference option" where
  "classify_reference ref_spec v p =
     (if ref_spec = JBool True then
        map_option (\<lambda>(c, e, q). \<lparr>cr_pointer = p, cr_catalogs = [c], cr_entry = e, cr_entry_pointer = q\<rparr>)
          (object_reference v)
      else
        Option.bind (spec_catalogs ref_spec) (\<lambda>catalogs.
          if catalogs = [] then None
          else
            Option.bind (as_str v) (\<lambda>target.
            Option.bind (split_catalog_entry_ref target) (\<lambda>(entry, q).
              Some \<lparr>cr_pointer = p, cr_catalogs = catalogs, cr_entry = entry, cr_entry_pointer = q\<rparr>))))"

definition escape_key :: "string \<Rightarrow> string" where
  "escape_key key = replace_char (CHR ''/'') ''~1'' (replace_char (CHR ''~'') ''~0'' key)"

text \<open>The places below a value, each with its schema: properties, items, then the keywords.\<close>

definition property_places :: "json \<Rightarrow> json \<Rightarrow> string \<Rightarrow> (json \<times> json \<times> string) list" where
  "property_places schema v p =
     (case (Option.bind (json_get schema ''properties'') as_object, v) of
        (Some properties, JObject ob) \<Rightarrow>
          List.map_filter (\<lambda>(key, sub). map_option (\<lambda>child. (sub, child, p @ ''/'' @ escape_key key))
            (map_of ob key)) properties
      | _ \<Rightarrow> [])"

definition item_places :: "json \<Rightarrow> json \<Rightarrow> string \<Rightarrow> (json \<times> json \<times> string) list" where
  "item_places schema v p =
     (case (json_get schema ''items'', v) of
        (Some items, JArray vs) \<Rightarrow>
          map (\<lambda>(i, child). (items, child, p @ ''/'' @ show_nat i)) (enumerate 0 vs)
      | _ \<Rightarrow> [])"

definition keyword_places :: "json \<Rightarrow> json \<Rightarrow> string \<Rightarrow> (json \<times> json \<times> string) list" where
  "keyword_places schema v p = map (\<lambda>s. (s, v, p)) (keyword_schemas schema)"

definition places :: "json \<Rightarrow> json \<Rightarrow> string \<Rightarrow> (json \<times> json \<times> string) list" where
  "places schema v p = property_places schema v p @ item_places schema v p @ keyword_places schema v p"

fun collect_schema_references ::
  "pointer_lookup \<Rightarrow> runtime_package \<Rightarrow> nat \<Rightarrow> string \<Rightarrow> json \<Rightarrow> json \<Rightarrow> string
   \<Rightarrow> collected_reference list option" where
  "collect_schema_references ptr rt 0 c schema v p = None"
| "collect_schema_references ptr rt (Suc n) c schema v p =
     (case Option.bind (json_str schema ''$ref'') (resolve_schema_ref ptr rt c) of
        Some (c', schema') \<Rightarrow> collect_schema_references ptr rt n c' schema' v p
      | None \<Rightarrow>
          (case Option.bind (json_get schema ''x-rototo-ref'') (\<lambda>spec. classify_reference spec v p) of
             Some reference \<Rightarrow> Some [reference]
           | None \<Rightarrow>
               map_option concat (those
                 (map (\<lambda>(s, child, q). collect_schema_references ptr rt n c s child q) (places schema v p)))))"

definition collect_catalog_references ::
  "pointer_lookup \<Rightarrow> nat \<Rightarrow> runtime_package \<Rightarrow> string \<Rightarrow> json \<Rightarrow> collected_reference list option" where
  "collect_catalog_references ptr n rt c v =
     (case map_of (rp_catalog_schemas rt) c of
        Some schema \<Rightarrow> collect_schema_references ptr rt n c schema v []
      | None \<Rightarrow> Some [])"

section \<open>Values without references\<close>

text \<open>A schema that uses none of the keys anywhere; a value as the program holds it has its
  objects in key order.\<close>

fun free_of_keys :: "string list \<Rightarrow> json \<Rightarrow> bool" where
  "free_of_keys ks (JObject ob) = list_all (\<lambda>kv. fst kv \<notin> set ks \<and> free_of_keys ks (snd kv)) ob"
| "free_of_keys ks (JArray vs) = list_all (free_of_keys ks) vs"
| "free_of_keys ks _ = True"

definition free_of_references :: "json \<Rightarrow> bool" where
  "free_of_references schema = free_of_keys [''$ref'', ''x-rototo-ref''] schema"

fun ordered_json :: "json \<Rightarrow> bool" where
  "ordered_json (JObject ob) = (bm_inv ob \<and> list_all (\<lambda>kv. ordered_json (snd kv)) ob)"
| "ordered_json (JArray vs) = list_all ordered_json vs"
| "ordered_json _ = True"

lemma bm_insert_same: "bm_inv m \<Longrightarrow> map_of m k = Some v \<Longrightarrow> bm_insert k v m = m"
proof (induction m)
  case (Cons kv m)
  obtain k' v' where kv: "kv = (k', v')" by (cases kv)
  show ?case
  proof (cases "k = k'")
    case False
    with Cons.prems kv have m: "map_of m k = Some v" by simp
    then have "k \<in> set (map fst m)" by (metis map_of_eq_None_iff option.distinct(1) set_map)
    with Cons.prems(1) kv have "k' < k" by (auto simp: bm_inv_def)
    with False m kv Cons.IH bm_inv_tail [OF Cons.prems(1)] show ?thesis by auto
  qed (use Cons.prems kv in simp)
qed simp

lemma free_of_keys_get:
  "free_of_keys ks schema \<Longrightarrow> json_get schema k = Some s \<Longrightarrow>
     k \<notin> set ks \<and> free_of_keys ks s \<and> size s < size schema"
proof (cases schema)
  case (JObject ob)
  assume "free_of_keys ks schema" "json_get schema k = Some s"
  with JObject have "map_of ob k = Some s" "list_all (\<lambda>kv. fst kv \<notin> set ks \<and> free_of_keys ks (snd kv)) ob"
    by simp_all
  with JObject size_map_of [of ob k s] show ?thesis
    by (auto simp: list_all_iff dest!: map_of_SomeD)
qed auto

lemma ordered_json_get: "ordered_json v \<Longrightarrow> json_get v k = Some w \<Longrightarrow> ordered_json w"
  by (cases v) (auto simp: list_all_iff dest!: map_of_SomeD)

lemma set_bm_insert: "set (bm_insert k v m) \<subseteq> insert (k, v) (set m)"
  by (induction k v m rule: bm_insert.induct) auto

lemma ordered_json_insert: "ordered_json (JObject ob) \<Longrightarrow> ordered_json v \<Longrightarrow> ordered_json (JObject (bm_insert k v ob))"
  using set_bm_insert [of k v ob] by (fastforce simp: list_all_iff bm_inv_insert)

lemma as_array_SomeE: "as_array v = Some xs \<Longrightarrow> (v = JArray xs \<Longrightarrow> P) \<Longrightarrow> P"
  by (cases v) auto

lemma as_object_SomeE: "as_object v = Some ob \<Longrightarrow> (v = JObject ob \<Longrightarrow> P) \<Longrightarrow> P"
  by (cases v) auto

lemma hydrate_properties_same:
  assumes "bm_inv ob" "\<And>key sub child. (key, sub) \<in> set props \<Longrightarrow> map_of ob key = Some child \<Longrightarrow> h sub child = Some child"
  shows "hydrate_properties h props ob = Some ob"
  using assms(2)
proof (induction props)
  case (Cons kv props)
  obtain key sub where kv: "kv = (key, sub)" by (cases kv)
  have IH: "hydrate_properties h props ob = Some ob" by (rule Cons.IH) (use Cons.prems in auto)
  show ?case
  proof (cases "map_of ob key")
    case (Some child)
    with Cons.prems [of key sub child] kv IH bm_insert_same [OF assms(1) Some] show ?thesis by simp
  qed (use kv IH in simp)
qed simp

lemma hydrate_all_same: "(\<And>s. s \<in> set ss \<Longrightarrow> h s v = Some v) \<Longrightarrow> hydrate_all h ss v = Some v"
  by (induction ss) auto

lemma those_map_same: "(\<And>v. v \<in> set vs \<Longrightarrow> f v = Some v) \<Longrightarrow> those (map f vs) = Some vs"
  by (induction vs) auto

text \<open>The schemas right below a schema.\<close>

definition subschemas :: "json \<Rightarrow> json list" where
  "subschemas schema =
     (case Option.bind (json_get schema ''properties'') as_object of Some ps \<Rightarrow> map snd ps | None \<Rightarrow> [])
     @ (case json_get schema ''items'' of Some s \<Rightarrow> [s] | None \<Rightarrow> []) @ keyword_schemas schema"

lemma subschemas_plain:
  assumes "free_of_keys ks schema" "s \<in> set (subschemas schema)"
  shows "free_of_keys ks s \<and> size s < size schema"
proof -
  have elements: "free_of_keys ks x \<and> size x < size schema"
    if get: "json_get schema k = Some (JArray xs)" and mem: "x \<in> set xs" for k xs x
    using free_of_keys_get [OF assms(1) get] mem size_list_estimation' [of x xs "size x" size]
    by (auto simp: list_all_iff)
  have fields: "free_of_keys ks x \<and> size x < size schema"
    if get: "json_get schema k = Some (JObject ob)" and mem: "x \<in> snd ` set ob" for k ob x
  proof -
    obtain key where key: "(key, x) \<in> set ob" using mem by force
    have "size x < size (JObject ob)"
      using key by (induction ob) auto
    with free_of_keys_get [OF assms(1) get] key show ?thesis by (auto simp: list_all_iff)
  qed
  have arrays: "free_of_keys ks x \<and> size x < size schema"
    if get: "Option.bind (json_get schema k) as_array = Some xs" and mem: "x \<in> set xs" for k xs x
    using get elements [OF _ mem, of k] by (auto simp: bind_eq_Some_conv elim!: as_array_SomeE)
  have objects: "free_of_keys ks x \<and> size x < size schema"
    if get: "Option.bind (json_get schema k) as_object = Some ob" and mem: "x \<in> snd ` set ob" for k ob x
    using get fields [OF _ mem, of k] by (auto simp: bind_eq_Some_conv elim!: as_object_SomeE)
  consider ob where "Option.bind (json_get schema ''properties'') as_object = Some ob" "s \<in> snd ` set ob"
    | "json_get schema ''items'' = Some s"
    | k xs where "Option.bind (json_get schema k) as_array = Some xs" "s \<in> set xs"
    using assms(2) unfolding subschemas_def keyword_schemas_def
    by (cases "Option.bind (json_get schema ''properties'') as_object"; cases "json_get schema ''items''")
      (auto split: option.splits dest: sym simp del: bind_eq_Some_conv Option.bind_eq_Some_conv)
  then show ?thesis
    by cases (use objects arrays free_of_keys_get [OF assms(1)] in blast)+
qed

lemma hydrate_structure_same:
  assumes "ordered_json v" "\<And>s w. s \<in> set (subschemas schema) \<Longrightarrow> ordered_json w \<Longrightarrow> h s w = Some w"
  shows "hydrate_structure h schema v = Some v"
proof -
  have "object_step h schema v = Some v"
  proof (cases "Option.bind (json_get schema ''properties'') as_object")
    case (Some ps)
    show ?thesis
    proof (cases v)
      case (JObject ob)
      have "hydrate_properties h ps ob = Some ob"
      proof (rule hydrate_properties_same)
        fix key sub child assume "(key, sub) \<in> set ps" "map_of ob key = Some child"
        then have "sub \<in> set (subschemas schema)" "ordered_json child"
          using assms(1) Some JObject ordered_json_get [of v key child]
          by (force simp: subschemas_def, simp)
        then show "h sub child = Some child" by (rule assms(2))
      qed (use assms(1) JObject in simp)
      with Some JObject show ?thesis by (simp add: object_step_def)
    qed (simp_all add: object_step_def Some)
  qed (simp add: object_step_def)
  moreover have "items_step h schema v = Some v"
  proof (cases "json_get schema ''items''")
    case (Some items)
    show ?thesis
    proof (cases v)
      case (JArray vs)
      have "those (map (h items) vs) = Some vs"
        by (rule those_map_same) (use assms Some JArray in \<open>auto simp: subschemas_def list_all_iff\<close>)
      with Some JArray show ?thesis by (simp add: items_step_def)
    qed (simp_all add: items_step_def Some)
  qed (simp add: items_step_def)
  moreover have "hydrate_all h (keyword_schemas schema) v = Some v"
    by (rule hydrate_all_same) (use assms in \<open>auto simp: subschemas_def\<close>)
  ultimately show ?thesis by (simp add: hydrate_structure_def)
qed

lemma hydrate_plain:
  "free_of_keys [''$ref'', ''x-rototo-ref''] schema \<Longrightarrow> ordered_json v \<Longrightarrow> size schema < n \<Longrightarrow>
   hydrate_schema ptr rt n stack c schema v = Some v"
proof (induction n arbitrary: schema v)
  case (Suc n)
  have none: "json_get schema ''$ref'' = None" "json_get schema ''x-rototo-ref'' = None"
    using free_of_keys_get [OF Suc.prems(1)] by (metis list.set_intros option.exhaust)+
  have "hydrate_structure (hydrate_schema ptr rt n stack c) schema v = Some v"
  proof (rule hydrate_structure_same)
    fix s w assume "s \<in> set (subschemas schema)" "ordered_json w"
    with subschemas_plain [OF Suc.prems(1)] Suc.prems(3) show "hydrate_schema ptr rt n stack c s w = Some w"
      by (intro Suc.IH) force+
  qed (rule Suc.prems(2))
  with none show ?case by (simp add: json_str_def)
qed simp

section \<open>Termination\<close>

text \<open>Without \<open>$ref\<close> every call goes to a smaller schema, or to the schema of an entry that was
  not on the stack before.\<close>

lemma hydrate_properties_ends:
  "(\<And>key sub v. (key, sub) \<in> set props \<Longrightarrow> h sub v \<noteq> None) \<Longrightarrow> hydrate_properties h props ob \<noteq> None"
proof (induction h props ob rule: hydrate_properties.induct)
  case (2 h key sub rest ob)
  show ?case
  proof (cases "map_of ob key")
    case (Some child)
    obtain v where v: "h sub child = Some v" using "2.prems" by fastforce
    have "hydrate_properties h rest (bm_insert key v ob) \<noteq> None"
      by (rule "2.IH"(2) [OF Some v]) (use "2.prems" in auto)
    with Some v show ?thesis by simp
  next
    case None
    then have "hydrate_properties h rest ob \<noteq> None" by (rule "2.IH"(1)) (use "2.prems" in auto)
    with None show ?thesis by simp
  qed
qed simp

lemma hydrate_all_ends: "(\<And>s v. s \<in> set ss \<Longrightarrow> h s v \<noteq> None) \<Longrightarrow> hydrate_all h ss v \<noteq> None"
proof (induction ss arbitrary: v)
  case (Cons s ss)
  obtain w where "h s v = Some w" using Cons.prems by fastforce
  with Cons.IH [of w] Cons.prems show ?case by auto
qed simp

lemma those_map_ends: "(\<And>v. v \<in> set vs \<Longrightarrow> f v \<noteq> None) \<Longrightarrow> those (map f vs) \<noteq> None"
  by (induction vs) (auto split: option.splits)

lemma hydrate_structure_ends:
  assumes "\<And>s w. s \<in> set (subschemas schema) \<Longrightarrow> h s w \<noteq> None"
  shows "hydrate_structure h schema v \<noteq> None"
proof -
  have "object_step h schema v \<noteq> None"
  proof (cases "Option.bind (json_get schema ''properties'') as_object")
    case (Some ps)
    with assms have "hydrate_properties h ps ob \<noteq> None" for ob
      by (intro hydrate_properties_ends) (force simp: subschemas_def)
    with Some show ?thesis by (auto simp: object_step_def split: json.splits)
  qed (simp add: object_step_def)
  then obtain v1 where 1: "object_step h schema v = Some v1" by blast
  have "items_step h schema v1 \<noteq> None"
  proof (cases "json_get schema ''items''")
    case (Some items)
    with assms have "those (map (h items) vs) \<noteq> None" for vs
      by (intro those_map_ends) (force simp: subschemas_def)
    with Some show ?thesis by (auto simp: items_step_def split: json.splits)
  qed (simp add: items_step_def)
  then obtain v2 where 2: "items_step h schema v1 = Some v2" by blast
  have "hydrate_all h (keyword_schemas schema) v2 \<noteq> None"
    by (rule hydrate_all_ends) (use assms in \<open>auto simp: subschemas_def\<close>)
  with 1 2 show ?thesis by (simp add: hydrate_structure_def)
qed

definition entry_names :: "runtime_package \<Rightarrow> (string \<times> string) set" where
  "entry_names rt = {(c, e). entry_of (rp_catalog_entries rt) c e \<noteq> None}"

lemma finite_entry_names: "finite (entry_names rt)"
proof (rule finite_subset)
  show "entry_names rt \<subseteq> (\<Union>(c, es) \<in> set (rp_catalog_entries rt). {c} \<times> fst ` set es)"
    by (auto simp: entry_names_def entry_of_def bind_eq_Some_conv dest!: map_of_SomeD split: option.splits)
      force
qed auto

definition refless :: "runtime_package \<Rightarrow> nat \<Rightarrow> bool" where
  "refless rt bound = list_all (\<lambda>(c, s). free_of_keys [''$ref''] s \<and> size s < bound) (rp_catalog_schemas rt)"

lemma refless_schema:
  "refless rt bound \<Longrightarrow> map_of (rp_catalog_schemas rt) c = Some s \<Longrightarrow> free_of_keys [''$ref''] s \<and> size s < bound"
  by (auto simp: refless_def list_all_iff dest!: map_of_SomeD)

lemma hydrate_entry_ends:
  assumes "refless rt bound" "(c, e) \<in> entry_names rt" "bound * card (entry_names rt - set stack) \<le> n"
    and IH: "\<And>schema v. free_of_keys [''$ref''] schema \<Longrightarrow>
      size schema + bound * card (entry_names rt - set ((c, e) # stack)) < n \<Longrightarrow>
      h ((c, e) # stack) c schema v \<noteq> None"
  shows "hydrate_entry rt h stack c e v \<noteq> None"
proof (cases "(c, e) \<in> set stack")
  case False
  show ?thesis
  proof (cases "map_of (rp_catalog_schemas rt) c")
    case (Some s)
    note ok = refless_schema [OF assms(1) Some]
    let ?rest = "card (entry_names rt - set ((c, e) # stack))"
    have "entry_names rt - set stack = insert (c, e) (entry_names rt - set ((c, e) # stack))"
      using assms(2) False by auto
    then have "card (entry_names rt - set stack) = Suc ?rest"
      using finite_entry_names by (metis Diff_iff card_insert_disjoint finite_Diff list.set_intros(1))
    with assms(3) have "bound + bound * ?rest \<le> n" by (metis mult_Suc_right)
    with ok have "size s + bound * ?rest < n" by linarith
    with ok have "h ((c, e) # stack) c s (with_id e v) \<noteq> None" using IH by blast
    with False Some show ?thesis by (simp add: hydrate_entry_def Let_def)
  qed (simp add: hydrate_entry_def Let_def)
qed (simp add: hydrate_entry_def)

lemma hydrate_schema_ends:
  assumes "refless rt bound"
  shows "free_of_keys [''$ref''] schema \<Longrightarrow> size schema + bound * card (entry_names rt - set stack) < n \<Longrightarrow>
    hydrate_schema ptr rt n stack c schema v \<noteq> None"
proof (induction n arbitrary: stack c schema v)
  case (Suc n)
  have none: "json_get schema ''$ref'' = None"
    using free_of_keys_get [OF Suc.prems(1)] by (metis list.set_intros(1) option.exhaust)
  have struct: "hydrate_structure (hydrate_schema ptr rt n stack c) schema v \<noteq> None"
  proof (rule hydrate_structure_ends)
    fix s w assume "s \<in> set (subschemas schema)"
    with subschemas_plain [OF Suc.prems(1)] Suc.prems(2) show "hydrate_schema ptr rt n stack c s w \<noteq> None"
      by (intro Suc.IH) force+
  qed
  have reference: "hydrate_reference ptr rt (hydrate_schema ptr rt n) stack spec v \<noteq> None" for spec
  proof (cases "reference_target rt spec v")
    case (Some t)
    obtain c' e p where t: "t = (c', e, p)" by (cases t)
    have "hydrate_entry rt (hydrate_schema ptr rt n) stack c' e w \<noteq> None" if "entry_of (rp_catalog_entries rt) c' e = Some w" for w
      by (rule hydrate_entry_ends [OF assms]) (use that Suc in \<open>auto simp: entry_names_def\<close>)
    with Some t show ?thesis by (auto simp: hydrate_reference_def hydrate_target_def split: option.splits)
  qed (simp add: hydrate_reference_def)
  show ?case
  proof (cases "json_get schema ''x-rototo-ref''")
    case (Some spec)
    with reference [of spec] struct none show ?thesis
      by (auto simp: json_str_def split: option.splits)
  qed (use none struct in \<open>simp add: json_str_def\<close>)
qed simp

section \<open>Relative references\<close>

definition plain_segment :: "string \<Rightarrow> bool" where
  "plain_segment seg = (seg \<noteq> [] \<and> seg \<noteq> ''.'' \<and> seg \<noteq> ''..'' \<and> CHR ''/'' \<notin> set seg)"

lemma resolve_segments_plain:
  "resolve_segments base segs = Some r \<Longrightarrow> \<forall>s \<in> set base. plain_segment s \<Longrightarrow>
   \<forall>s \<in> set segs. CHR ''/'' \<notin> set s \<Longrightarrow> \<forall>s \<in> set r. plain_segment s"
proof (induction base segs rule: resolve_segments.induct)
  case (2 base seg rest)
  have sub: "\<forall>s \<in> set rest. CHR ''/'' \<notin> set s" using "2.prems"(3) by simp
  consider "seg = [] \<or> seg = ''.''" | "seg = ''..''" "base \<noteq> []" | "plain_segment seg"
    using "2.prems" by (auto simp: plain_segment_def split: if_splits)
  then show ?case
  proof cases
    case 1
    with "2.prems" sub show ?thesis by (intro "2.IH"(1)) auto
  next
    case 2
    then have "\<forall>s \<in> set (butlast base). plain_segment s" using "2.prems"(2) by (meson in_set_butlastD)
    with 2 "2.prems" sub show ?thesis by (intro "2.IH"(2)) auto
  next
    case 3
    with "2.prems" sub show ?thesis by (intro "2.IH"(3)) (auto simp: plain_segment_def)
  qed
qed simp

lemma split_on_append: "split_on c (a @ c # b) = split_on c a @ split_on c b"
proof (induction a)
  case (Cons x a)
  obtain y ys where "split_on c a = y # ys" by (meson neq_Nil_conv split_on_not_Nil)
  with Cons show ?case by simp
qed simp

lemma base_segments_plain:
  assumes "is_valid_entity_id c" "s \<in> set (base_segments c)"
  shows "plain_segment s"
proof -
  obtain ns b where r: "rsplit_once (CHR ''/'') c = Some (ns, b)" "s \<in> set (split_on (CHR ''/'') ns)"
    using assms(2) by (cases "rsplit_once (CHR ''/'') c") (auto simp: base_segments_def)
  then have "split_once (CHR ''/'') (rev c) = Some (rev b, rev ns)"
    by (auto simp: rsplit_once_def split: option.splits prod.splits)
  then have "rev c = rev b @ CHR ''/'' # rev ns" by (simp add: split_once_Some_iff)
  then have "c = ns @ CHR ''/'' # b" by (metis append_Cons append_Nil append_assoc rev.simps(2) rev_append rev_rev_ident)
  then have "split_on (CHR ''/'') c = split_on (CHR ''/'') ns @ split_on (CHR ''/'') b"
    by (simp add: split_on_append)
  then have "s \<in> set (split_on (CHR ''/'') c)" using r(2) by simp
  with assms(1) have ok: "s \<noteq> []" "list_all id_char s" by (auto simp: is_valid_entity_id_def list_all_iff)
  then have "CHR ''.'' \<notin> set s" by (auto simp: list_all_iff id_char_def is_lower_def is_digit_def)
  with ok split_on_pieces [OF r(2)] show ?thesis by (auto simp: plain_segment_def)
qed


lemma resolve_relative_parts:
  assumes "is_valid_entity_id c" "resolve_relative_schema_uri c uri = Some i"
  obtains segs where "i = join_with ''/'' segs" "segs \<noteq> []" "\<forall>s \<in> set segs. plain_segment s"
proof -
  obtain target where t: "strip_suffix ''.schema.json'' uri = Some target"
    using assms(2) by (cases "strip_suffix ''.schema.json'' uri") (auto simp: resolve_relative_schema_uri_def)
  with assms(2) obtain segs where r: "resolve_segments (base_segments c) (split_on (CHR ''/'') target) = Some segs"
    "segs \<noteq> []" "i = join_with ''/'' segs"
    by (cases "resolve_segments (base_segments c) (split_on (CHR ''/'') target)")
      (auto simp: resolve_relative_schema_uri_def split: if_splits)
  moreover have "\<forall>s \<in> set segs. plain_segment s"
    using resolve_segments_plain [OF r(1)] base_segments_plain [OF assms(1)] split_on_pieces by blast
  ultimately show ?thesis using that by blast
qed

section \<open>Properties\<close>

text \<open>An example: teams and people that refer to each other.\<close>

definition mutual_schema :: "string \<Rightarrow> string \<Rightarrow> json" where
  "mutual_schema key c =
     JObject [(''properties'', JObject [(key, JObject [(''x-rototo-ref'', JString (''catalog='' @ c))])])]"

definition mutual_package :: runtime_package where
  "mutual_package =
     \<lparr>rp_evaluation_contexts = [], rp_variable_contexts = [], rp_context_dependent = [],
      rp_catalog_schemas = [(''people'', mutual_schema ''team'' ''teams''), (''teams'', mutual_schema ''lead'' ''people'')],
      rp_catalog_entries = [(''people'', [(''ada'', JObject [(''team'', JString ''core'')])]),
        (''teams'', [(''core'', JObject [(''lead'', JString ''ada'')])])],
      rp_lists = [], rp_variables = [], rp_trace_policies = [], rp_provenance = []\<rparr>"

text \<open>C18 hydration_ends: when no catalog schema uses \<open>$ref\<close>, hydrating an entry ends, however the
  entries refer to each other, in cycles too: the depth of the calls is at most the size of the
  largest schema times one more than the number of entries.\<close>

theorem hydration_ends:
  assumes "refless rt bound" "(c, e) \<in> entry_names rt" "bound * card (entry_names rt) \<le> n"
  shows "catalog_entry_view ptr n rt c e entry \<noteq> None"
  unfolding catalog_entry_view_def
  by (rule hydrate_entry_ends [OF assms(1,2)]) (use assms hydrate_schema_ends [OF assms(1)] in auto)

theorem hydration_ends_witness:
  "catalog_entry_view (\<lambda>_ _. None) 100 mutual_package ''people'' ''ada''
     (JObject [(''team'', JString ''core'')]) \<noteq> None"
proof (rule hydration_ends [where bound = 50])
  show "refless mutual_package 50" by code_simp
  show "(''people'', ''ada'') \<in> entry_names mutual_package"
    by (simp add: entry_names_def mutual_package_def entry_of_def)
  have "entry_names mutual_package \<subseteq> {(''people'', ''ada''), (''teams'', ''core'')}"
    by (auto simp: entry_names_def mutual_package_def entry_of_def split: if_splits)
  then have "card (entry_names mutual_package) \<le> card {(''people'', ''ada''), (''teams'', ''core'')}"
    by (rule card_mono [rotated]) simp
  then show "50 * card (entry_names mutual_package) \<le> 100" by simp
qed

text \<open>An entry whose catalog schema names no references, neither
  \<open>$ref\<close> nor \<open>x-rototo-ref\<close>, is viewed as it is, with its name as the \<open>id\<close>.\<close>

theorem hydration_keeps_plain_entries:
  assumes "map_of (rp_catalog_schemas rt) c = Some schema" "free_of_references schema"
    and "ordered_json entry" "size schema < n"
  shows "catalog_entry_view ptr n rt c e entry = Some (with_id e entry)"
proof -
  have "ordered_json (with_id e entry)"
    using assms(3) ordered_json_insert [of _ "JString e"]
    by (cases entry) (simp_all add: with_id_def del: ordered_json.simps(1))
  with assms show ?thesis
    by (simp add: catalog_entry_view_def hydrate_entry_def Let_def free_of_references_def hydrate_plain)
qed

theorem hydration_keeps_plain_entries_witness:
  "catalog_entry_view (\<lambda>_ _. None) 9 (mutual_package \<lparr>rp_catalog_schemas := [(''people'', JObject [])]\<rparr>)
     ''people'' ''ada'' (JObject [(''team'', JString ''core'')])
   = Some (JObject [(''id'', JString ''ada''), (''team'', JString ''core'')])"
  by (subst hydration_keeps_plain_entries [where schema = "JObject []"])
    (simp_all add: free_of_references_def bm_inv_def with_id_def)

text \<open>A relative schema reference of a catalog with a valid id, resolved
  to a catalog id, is a path of plain segments: none empty, \<open>.\<close> or \<open>..\<close>, none with a slash; it never
  climbs above the catalogs.\<close>

theorem relative_ref_stays_inside:
  assumes "is_valid_entity_id c" "resolve_relative_schema_uri c uri = Some i"
  shows "\<exists>segs. i = join_with ''/'' segs \<and> segs \<noteq> [] \<and> list_all plain_segment segs"
  using resolve_relative_parts [OF assms] by (metis list_all_iff)

theorem relative_ref_stays_inside_witness:
  "\<exists>segs. ''shop/price'' = join_with ''/'' segs \<and> segs \<noteq> [] \<and> list_all plain_segment segs"
  by (rule relative_ref_stays_inside [of "''shop/eu/item''" "''.././price.schema.json''"]; code_simp)

text \<open>C21 self_ref_never_ends: the stack guards entries only. A catalog schema whose root is a \<open>$ref\<close> to
  the schema itself is followed for ever: no depth of calls is enough.\<close>

theorem self_ref_never_ends:
  assumes "map_of (rp_catalog_schemas rt) c = Some (JObject [(''$ref'', JString ''#'')])"
  shows "catalog_entry_view ptr n rt c e entry = None"
proof -
  let ?s = "JObject [(''$ref'', JString ''#'')]"
  have "resolve_schema_ref ptr rt c ''#'' = Some (c, ?s)"
    by (simp add: resolve_schema_ref_def ref_catalog_def assms)
  then have "hydrate_schema ptr rt n stack c ?s v = None" for stack v
    by (induction n) (simp_all add: json_str_def)
  with assms show ?thesis by (simp add: catalog_entry_view_def hydrate_entry_def Let_def)
qed

theorem self_ref_never_ends_witness:
  "catalog_entry_view (\<lambda>_ _. None) 1000 (mutual_package \<lparr>rp_catalog_schemas :=
     [(''people'', JObject [(''$ref'', JString ''#'')])]\<rparr>) ''people'' ''ada'' JNull = None"
  by (rule self_ref_never_ends) simp

end
