(* ===== verification/Resolve.thy ===== *)
theory Resolve
  imports Hydrate
begin

text \<open>
  Resolution of variables (src/src/resolve.rs, with the result types of src/src/model.rs).
  What stays fixed during one resolution, the fields \<open>runtime\<close>, \<open>context\<close> and \<open>now\<close> of
  \<open>ResolutionState\<close> and the parameters of the development, is the record \<open>resolution_env\<close>;
  what changes, the cache and the set of variables being resolved, is \<open>resolution_state\<close>.
  Resolving a variable is generic in the resolver that evaluation calls back, as the
  trait object \<open>RefResolver\<close> is. The recursion through that resolver runs on fuel: the
  code recurses on the set of variables being resolved, and \<open>resolution_fuel\<close>, one more
  than the number of variables, is always enough (\<open>resolution_returns\<close>). The same code over a
  resolver with no cache and no cycle detection is the specification
  (\<open>plain_value\<close>, \<open>resolution_is_plain\<close>).
\<close>

section \<open>Results\<close>

datatype resolution_source =
    SourceLiteral
  | SourceCatalog string string
  | SourceCatalogArray string "string list"

record variable_resolution =
  vr_id :: string
  vr_value :: json
  vr_source :: resolution_source

record rule_trace =
  rt_index :: nat
  rt_condition :: string
  rt_value :: json
  rt_source :: resolution_source
  rt_matched :: bool

record allocation_trace =
  at_layer :: string
  at_allocation :: string
  at_enrolled :: bool
  at_bucket :: "32 word option"
  at_arm :: "string option"

record resolution_trace =
  tr_resolution :: variable_resolution
  tr_default_value :: json
  tr_default_source :: resolution_source
  tr_rules :: "rule_trace list"
  tr_provenance :: "string option"
  tr_allocation :: "allocation_trace option"

record trace_outcome =
  vo_id :: string
  vo_trace :: "resolution_trace option"
  vo_error :: "string option"

record trace_capture =
  tc_trace :: resolution_trace
  tc_policies :: "nat list"

record 'v resolution_env =
  re_engine :: "'v cel_engine"
  re_crates :: crates
  re_hydration :: nat
  re_runtime :: runtime_package
  re_context :: json
  re_now :: string

definition selected_value_source :: "selected_value \<Rightarrow> resolution_source" where
  "selected_value_source sv =
     (case sv of
        LiteralValue _ \<Rightarrow> SourceLiteral
      | CatalogValue c name _ \<Rightarrow> SourceCatalog c name
      | CatalogArrayValue c names _ \<Rightarrow> SourceCatalogArray c names)"

definition resolved :: "string \<Rightarrow> selected_value \<Rightarrow> variable_resolution" where
  "resolved i sv = \<lparr>vr_id = i, vr_value = selected_json sv, vr_source = selected_value_source sv\<rparr>"

section \<open>Rules\<close>

definition evaluate_condition ::
  "'v resolution_env \<Rightarrow> 's ref_resolver \<Rightarrow> expression \<Rightarrow> json option \<Rightarrow> ('s, bool) run" where
  "evaluate_condition env res e entry =
     evaluate_bool (re_engine env) (re_crates env) e (re_context env) entry (re_now env) res"

definition evaluate_key ::
  "'v resolution_env \<Rightarrow> 's ref_resolver \<Rightarrow> expression \<Rightarrow> json option \<Rightarrow> ('s, json) run" where
  "evaluate_key env res e entry =
     evaluate_value (re_engine env) (re_crates env) e (re_context env) entry (re_now env) res"

definition trace_rule :: "runtime_rule \<Rightarrow> bool \<Rightarrow> rule_trace" where
  "trace_rule r matched =
     \<lparr>rt_index = rule_index r, rt_condition = source (rule_when r), rt_value = selected_json (rule_value r),
      rt_source = selected_value_source (rule_value r), rt_matched = matched\<rparr>"

text \<open>The loop: the rules tried, in order, up to the first that matches.\<close>

fun try_rules :: "'v resolution_env \<Rightarrow> 's ref_resolver \<Rightarrow> runtime_rule list
  \<Rightarrow> ('s, rule_trace list \<times> selected_value option) run" where
  "try_rules env res [] = ret ([], None)"
| "try_rules env res (r # rest) =
     and_then (evaluate_condition env res (rule_when r) None) (\<lambda>matched.
       if matched then ret ([trace_rule r True], Some (rule_value r))
       else and_then (try_rules env res rest) (\<lambda>p. ret (trace_rule r False # fst p, snd p)))"

definition rules_result ::
  "string \<Rightarrow> selected_value \<Rightarrow> rule_trace list \<times> selected_value option \<Rightarrow> resolution_trace" where
  "rules_result i dflt p =
     \<lparr>tr_resolution = resolved i (case snd p of Some sv \<Rightarrow> sv | None \<Rightarrow> dflt),
      tr_default_value = selected_json dflt, tr_default_source = selected_value_source dflt,
      tr_rules = fst p, tr_provenance = None, tr_allocation = None\<rparr>"

definition resolve_rules_trace ::
  "'v resolution_env \<Rightarrow> 's ref_resolver \<Rightarrow> string \<Rightarrow> selected_value \<Rightarrow> runtime_rule list
   \<Rightarrow> ('s, resolution_trace) run" where
  "resolve_rules_trace env res i dflt rules =
     and_then (try_rules env res rules) (\<lambda>p. ret (rules_result i dflt p))"

section \<open>Allocations\<close>

definition evaluate_allocation_eligibility ::
  "'v resolution_env \<Rightarrow> 's ref_resolver \<Rightarrow> runtime_allocation \<Rightarrow> ('s, bool) run" where
  "evaluate_allocation_eligibility env res a =
     (case alloc_eligibility a of
        Some e \<Rightarrow> evaluate_condition env res e None
      | None \<Rightarrow> ret True)"

definition arm_holds :: "32 word \<Rightarrow> runtime_arm \<Rightarrow> bool" where
  "arm_holds bucket arm = (unat bucket \<ge> arm_start arm \<and> unat bucket \<le> arm_end arm)"

definition unit_bucket :: "'v resolution_env \<Rightarrow> runtime_allocation \<Rightarrow> json \<Rightarrow> 32 word res" where
  "unit_bucket env a u =
     (case allocation_bucket (json_text (re_crates env)) (alloc_layer a) u (alloc_buckets a) of
        Some b \<Rightarrow> Inr b
      | None \<Rightarrow> Inl Panicked)"

definition allocation_result :: "string \<Rightarrow> runtime_allocation \<Rightarrow> 32 word option \<Rightarrow> resolution_trace" where
  "allocation_result i a bucket =
     (let arm = Option.bind bucket (\<lambda>b. List.find (arm_holds b) (alloc_arms a)) in
      \<lparr>tr_resolution = resolved i (case arm of Some m \<Rightarrow> arm_value m | None \<Rightarrow> alloc_default a),
       tr_default_value = selected_json (alloc_default a),
       tr_default_source = selected_value_source (alloc_default a),
       tr_rules = [], tr_provenance = None,
       tr_allocation = Some \<lparr>at_layer = alloc_layer a, at_allocation = alloc_id a,
         at_enrolled = (bucket \<noteq> None), at_bucket = bucket, at_arm = map_option arm_name arm\<rparr>\<rparr>)"

text \<open>\<open>&&\<close> does not evaluate the eligibility of an allocation that is not running.\<close>

definition resolve_allocation_trace ::
  "'v resolution_env \<Rightarrow> 's ref_resolver \<Rightarrow> string \<Rightarrow> runtime_allocation \<Rightarrow> ('s, resolution_trace) run" where
  "resolve_allocation_trace env res i a =
     and_then (if alloc_running a then evaluate_allocation_eligibility env res a else ret False) (\<lambda>enrolled.
       if enrolled then
         and_then (evaluate_key env res (alloc_unit a) None) (\<lambda>u.
         and_then (lift (unit_bucket env a u)) (\<lambda>b. ret (allocation_result i a (Some b))))
       else ret (allocation_result i a None))"

section \<open>Queries\<close>

definition query_entries :: "'v resolution_env \<Rightarrow> runtime_query \<Rightarrow> json smap res" where
  "query_entries env q =
     (case map_of (rp_catalog_entries (re_runtime env)) (query_catalog q) of
        Some es \<Rightarrow> Inr es
      | None \<Rightarrow> err (''catalog has no entries: '' @ query_catalog q))"

definition entry_view :: "'v resolution_env \<Rightarrow> string \<Rightarrow> string \<times> json \<Rightarrow> ('s, json) run" where
  "entry_view env c kv = (\<lambda>s. map_option (\<lambda>v. (Inr v, s))
     (catalog_entry_view (json_pointer (re_crates env)) (re_hydration env) (re_runtime env) c (fst kv) (snd kv)))"

text \<open>The filter loop's body; the names and views it keeps.\<close>

definition match_entry ::
  "'v resolution_env \<Rightarrow> 's ref_resolver \<Rightarrow> runtime_query \<Rightarrow> string \<times> json
   \<Rightarrow> ('s, (string \<times> json) option) run" where
  "match_entry env res q kv =
     and_then (entry_view env (query_catalog q) kv) (\<lambda>view.
     and_then (case query_filter q of
                 Some f \<Rightarrow> evaluate_condition env res f (Some view)
               | None \<Rightarrow> ret True) (\<lambda>keep.
       ret (if keep then Some (fst kv, view) else None)))"

datatype ordering = Less | Equal | Greater

definition query_sort_keys_comparable :: "json \<Rightarrow> json \<Rightarrow> bool" where
  "query_sort_keys_comparable left right =
     (case (left, right) of
        (JNumber _, JNumber _) \<Rightarrow> True
      | (JString _, JString _) \<Rightarrow> True
      | _ \<Rightarrow> False)"

definition ordering_of :: "'a::linorder \<Rightarrow> 'a \<Rightarrow> ordering" where
  "ordering_of a b = (if a < b then Less else if a = b then Equal else Greater)"

definition compare_query_sort_keys :: "json \<Rightarrow> json \<Rightarrow> ordering" where
  "compare_query_sort_keys left right =
     (case (left, right) of
        (JNumber l, JNumber r) \<Rightarrow> ordering_of (as_f64 l) (as_f64 r)
      | (JString l, JString r) \<Rightarrow> ordering_of l r
      | _ \<Rightarrow> Equal)"

type_synonym keyed_entry = "json \<times> string \<times> json"

definition key_entry ::
  "'v resolution_env \<Rightarrow> 's ref_resolver \<Rightarrow> expression \<Rightarrow> string \<times> json \<Rightarrow> ('s, keyed_entry) run" where
  "key_entry env res srt m =
     and_then (evaluate_key env res srt (Some (snd m))) (\<lambda>k. ret (k, fst m, snd m))"

definition check_pair :: "(json \<Rightarrow> string) \<Rightarrow> string \<Rightarrow> keyed_entry \<times> keyed_entry \<Rightarrow> unit res" where
  "check_pair text i p =
     (if query_sort_keys_comparable (fst (fst p)) (fst (snd p)) then Inr ()
      else err (''query sort keys are not comparable for variable '' @ i @ '': ''
                @ text (fst (fst p)) @ '' and '' @ text (fst (snd p))))"

definition key_le :: "keyed_entry \<Rightarrow> keyed_entry \<Rightarrow> bool" where
  "key_le a b = (compare_query_sort_keys (fst a) (fst b) \<noteq> Greater)"

text \<open>\<open>windows(2)\<close> are the neighbours.\<close>

definition sort_keyed ::
  "(json \<Rightarrow> string) \<Rightarrow> string \<Rightarrow> bool \<Rightarrow> keyed_entry list \<Rightarrow> keyed_entry list res" where
  "sort_keyed text i descending keyed =
     rbind (check_all (check_pair text i) (zip keyed (tl keyed))) (\<lambda>_.
       Inr (if descending then rev (sort_by key_le keyed) else sort_by key_le keyed))"

definition sort_matches ::
  "'v resolution_env \<Rightarrow> 's ref_resolver \<Rightarrow> string \<Rightarrow> runtime_query \<Rightarrow> (string \<times> json) list
   \<Rightarrow> ('s, (string \<times> json) list) run" where
  "sort_matches env res i q matches =
     (case query_sort q of
        Some srt \<Rightarrow>
          and_then (for_each (key_entry env res srt) matches) (\<lambda>keyed.
          and_then (lift (sort_keyed (json_text (re_crates env)) i (query_descending q) keyed)) (\<lambda>sorted.
            ret (map snd sorted)))
      | None \<Rightarrow> ret matches)"

definition raw_entry_with_id :: "json smap \<Rightarrow> string \<Rightarrow> json" where
  "raw_entry_with_id entries name =
     with_id name (case map_of entries name of Some v \<Rightarrow> v | None \<Rightarrow> JNull)"

definition select_single ::
  "string \<Rightarrow> runtime_query \<Rightarrow> json smap \<Rightarrow> string list \<Rightarrow> selected_value res" where
  "select_single i q entries names =
     (case names of
        [] \<Rightarrow>
          (case query_default q of
             Some sv \<Rightarrow> Inr sv
           | None \<Rightarrow> err (''query matched no entries for variable '' @ i @ '' and no default is declared''))
      | name # rest \<Rightarrow>
          if rest \<noteq> [] \<and> query_sort q = None then
            err (''query matched '' @ show_nat (length names) @ '' entries for variable '' @ i
                 @ ''; add sort or narrow the filter'')
          else Inr (CatalogValue (query_catalog q) name (raw_entry_with_id entries name)))"

definition select_many :: "runtime_query \<Rightarrow> json smap \<Rightarrow> string list \<Rightarrow> selected_value" where
  "select_many q entries names =
     (case (names, query_default q) of
        ([], Some sv) \<Rightarrow> sv
      | _ \<Rightarrow> CatalogArrayValue (query_catalog q) names (JArray (map (raw_entry_with_id entries) names)))"

definition limit_matches :: "runtime_query \<Rightarrow> 'a list \<Rightarrow> 'a list" where
  "limit_matches q matches = (case query_limit q of Some n \<Rightarrow> take n matches | None \<Rightarrow> matches)"

definition select_matches ::
  "string \<Rightarrow> runtime_query \<Rightarrow> json smap \<Rightarrow> string list \<Rightarrow> selected_value res" where
  "select_matches i q entries names =
     (if query_single q then select_single i q entries names else Inr (select_many q entries names))"

definition resolve_catalog_query ::
  "'v resolution_env \<Rightarrow> 's ref_resolver \<Rightarrow> string \<Rightarrow> runtime_query \<Rightarrow> ('s, selected_value) run" where
  "resolve_catalog_query env res i q =
     and_then (lift (query_entries env q)) (\<lambda>entries.
     and_then (for_each (match_entry env res q) entries) (\<lambda>found.
     and_then (sort_matches env res i q (List.map_filter id found)) (\<lambda>matches.
       lift (select_matches i q entries (map fst (limit_matches q matches))))))"

definition query_result :: "string \<Rightarrow> runtime_query \<Rightarrow> selected_value \<Rightarrow> resolution_trace" where
  "query_result i q sv =
     \<lparr>tr_resolution = resolved i sv,
      tr_default_value = (case query_default q of Some d \<Rightarrow> selected_json d | None \<Rightarrow> JNull),
      tr_default_source = (case query_default q of Some d \<Rightarrow> selected_value_source d | None \<Rightarrow> SourceLiteral),
      tr_rules = [], tr_provenance = None, tr_allocation = None\<rparr>"

definition resolve_query_trace ::
  "'v resolution_env \<Rightarrow> 's ref_resolver \<Rightarrow> string \<Rightarrow> runtime_query \<Rightarrow> ('s, resolution_trace) run" where
  "resolve_query_trace env res i q =
     and_then (resolve_catalog_query env res i q) (\<lambda>sv. ret (query_result i q sv))"

section \<open>Variables\<close>

definition find_variable :: "'v resolution_env \<Rightarrow> string \<Rightarrow> runtime_resolution res" where
  "find_variable env i =
     (case map_of (rp_variables (re_runtime env)) i of
        Some r \<Rightarrow> Inr r
      | None \<Rightarrow> err (''variable not found: variable://'' @ i))"

definition resolve_method ::
  "'v resolution_env \<Rightarrow> 's ref_resolver \<Rightarrow> string \<Rightarrow> runtime_resolution \<Rightarrow> ('s, resolution_trace) run" where
  "resolve_method env res i r =
     (case r of
        RulesResolution dflt rules \<Rightarrow> resolve_rules_trace env res i dflt rules
      | QueryResolution q \<Rightarrow> resolve_query_trace env res i q
      | AllocationResolution a \<Rightarrow> resolve_allocation_trace env res i a)"

definition resolve_variable_trace_with_state ::
  "'v resolution_env \<Rightarrow> 's ref_resolver \<Rightarrow> string \<Rightarrow> ('s, resolution_trace) run" where
  "resolve_variable_trace_with_state env res i =
     and_then (lift (find_variable env i)) (\<lambda>r.
     and_then (resolve_method env res i r) (\<lambda>t.
       ret (t\<lparr>tr_provenance := map_of (rp_provenance (re_runtime env)) i\<rparr>)))"

definition resolve_variable_with_state ::
  "'v resolution_env \<Rightarrow> 's ref_resolver \<Rightarrow> string \<Rightarrow> ('s, variable_resolution) run" where
  "resolve_variable_with_state env res i =
     and_then (resolve_variable_trace_with_state env res i) (\<lambda>t. ret (tr_resolution t))"

section \<open>The resolution state\<close>

record resolution_state =
  variable_cache :: "string \<Rightarrow> json option"
  resolving :: "string set"

definition new_state :: resolution_state where
  "new_state = \<lparr>variable_cache = (\<lambda>_. None), resolving = {}\<rparr>"

definition list_members_of :: "'v resolution_env \<Rightarrow> string \<Rightarrow> ('s, json) run" where
  "list_members_of env i =
     lift (case map_of (rp_lists (re_runtime env)) i of
        Some declared \<Rightarrow> Inr (JArray (rl_members declared))
      | None \<Rightarrow> err (''expression references unknown list: '' @ i))"

text \<open>Whatever the inner resolution returns, the id leaves the set again; only a value enters
  the cache.\<close>

definition finish_value :: "string \<Rightarrow> variable_resolution res \<times> resolution_state \<Rightarrow> json res \<times> resolution_state" where
  "finish_value i p =
     (let s = (snd p)\<lparr>resolving := resolving (snd p) - {i}\<rparr> in
      case fst p of
        Inl e \<Rightarrow> (Inl e, s)
      | Inr r \<Rightarrow> (Inr (vr_value r), s\<lparr>variable_cache := (variable_cache s)(i \<mapsto> vr_value r)\<rparr>))"

fun resolve_variable_value ::
  "'v resolution_env \<Rightarrow> nat \<Rightarrow> string \<Rightarrow> (resolution_state, json) run" where
  "resolve_variable_value env 0 i = (\<lambda>s. None)"
| "resolve_variable_value env (Suc n) i = (\<lambda>s.
     (case variable_cache s i of
        Some v \<Rightarrow> Some (Inr v, s)
      | None \<Rightarrow>
          if i \<in> resolving s then
            Some (err (''variable reference cycle detected at variable://'' @ i), s)
          else
            map_option (finish_value i)
              (resolve_variable_with_state env
                 \<lparr>variable_value = resolve_variable_value env n, list_members = list_members_of env\<rparr> i
                 (s\<lparr>resolving := insert i (resolving s)\<rparr>))))"

definition resolver :: "'v resolution_env \<Rightarrow> nat \<Rightarrow> resolution_state ref_resolver" where
  "resolver env n = \<lparr>variable_value = resolve_variable_value env n, list_members = list_members_of env\<rparr>"

definition resolution_fuel :: "'v resolution_env \<Rightarrow> nat" where
  "resolution_fuel env = Suc (length (rp_variables (re_runtime env)))"

definition state_resolver :: "'v resolution_env \<Rightarrow> resolution_state ref_resolver" where
  "state_resolver env = resolver env (resolution_fuel env)"

section \<open>The operations\<close>

definition resolve_variable_unchecked :: "'v resolution_env \<Rightarrow> string \<Rightarrow> variable_resolution res option" where
  "resolve_variable_unchecked env i =
     map_option fst (resolve_variable_with_state env (state_resolver env) i new_state)"

definition trace_variable_unchecked :: "'v resolution_env \<Rightarrow> string \<Rightarrow> resolution_trace res option" where
  "trace_variable_unchecked env i =
     map_option fst (resolve_variable_trace_with_state env (state_resolver env) i new_state)"

definition variable_ids :: "'v resolution_env \<Rightarrow> string list" where
  "variable_ids env = map fst (rp_variables (re_runtime env))"

definition resolve_variables_unchecked :: "'v resolution_env \<Rightarrow> variable_resolution list res option" where
  "resolve_variables_unchecked env =
     map_option fst (for_each (resolve_variable_with_state env (state_resolver env)) (variable_ids env) new_state)"

definition trace_variable_resolutions_unchecked :: "'v resolution_env \<Rightarrow> resolution_trace list res option" where
  "trace_variable_resolutions_unchecked env =
     map_option fst (for_each (resolve_variable_trace_with_state env (state_resolver env)) (variable_ids env) new_state)"

text \<open>An error becomes an outcome and the next variable goes on from the state it left; a panic
  is not caught.\<close>

definition outcome_of :: "string \<Rightarrow> ('s, resolution_trace) run \<Rightarrow> ('s, trace_outcome) run" where
  "outcome_of i m = (\<lambda>s.
     (case m s of
        None \<Rightarrow> None
      | Some (Inl Panicked, s') \<Rightarrow> Some (Inl Panicked, s')
      | Some (Inl (RototoError e), s') \<Rightarrow> Some (Inr \<lparr>vo_id = i, vo_trace = None, vo_error = Some e\<rparr>, s')
      | Some (Inr t, s') \<Rightarrow> Some (Inr \<lparr>vo_id = i, vo_trace = Some t, vo_error = None\<rparr>, s')))"

definition trace_variable_resolution_outcomes_unchecked ::
  "'v resolution_env \<Rightarrow> trace_outcome list res option" where
  "trace_variable_resolution_outcomes_unchecked env =
     map_option fst (for_each (\<lambda>i. outcome_of i (resolve_variable_trace_with_state env (state_resolver env) i))
       (variable_ids env) new_state)"

definition evaluate_policy ::
  "'v resolution_env \<Rightarrow> 's ref_resolver \<Rightarrow> resolving_target \<Rightarrow> nat \<times> expression \<Rightarrow> ('s, nat option) run" where
  "evaluate_policy env res target p =
     and_then (evaluate_bool_traced (re_engine env) (re_crates env) (snd p) (re_context env) (re_now env) target res)
       (\<lambda>matched. ret (if matched then Some (fst p) else None))"

definition evaluate_trace_policies ::
  "'v resolution_env \<Rightarrow> 's ref_resolver \<Rightarrow> resolving_target \<Rightarrow> ('s, nat list) run" where
  "evaluate_trace_policies env res target =
     and_then (for_each (evaluate_policy env res target) (enumerate 0 (rp_trace_policies (re_runtime env))))
       (\<lambda>matched. ret (List.map_filter id matched))"

definition capture_of :: "bool \<Rightarrow> resolution_trace \<Rightarrow> nat list \<Rightarrow> trace_capture option" where
  "capture_of app_requested t policies =
     (if app_requested \<or> policies \<noteq> [] then Some \<lparr>tc_trace = t, tc_policies = policies\<rparr> else None)"

definition resolve_variable_traced_unchecked ::
  "'v resolution_env \<Rightarrow> string \<Rightarrow> bool \<Rightarrow> (variable_resolution \<times> trace_capture option) res option" where
  "resolve_variable_traced_unchecked env i app_requested =
     map_option fst
       (and_then (resolve_variable_trace_with_state env (state_resolver env) i) (\<lambda>t.
        and_then (evaluate_trace_policies env (state_resolver env) (ResolvingVariable i)) (\<lambda>policies.
          ret (tr_resolution t, capture_of app_requested t policies))) new_state)"

text \<open>The public entry points compile the package and check the context first.\<close>

definition resolve_variable ::
  "'v resolution_env \<Rightarrow> runtime_package res \<Rightarrow> string \<Rightarrow> variable_resolution res option" where
  "resolve_variable env compiled i =
     (case rbind compiled (\<lambda>rt. rbind (validate_context_for_variable rt i (re_context env)) (\<lambda>_. Inr rt)) of
        Inl e \<Rightarrow> Some (Inl e)
      | Inr rt \<Rightarrow> resolve_variable_unchecked (env\<lparr>re_runtime := rt\<rparr>) i)"

definition resolve_variables ::
  "'v resolution_env \<Rightarrow> runtime_package res \<Rightarrow> variable_resolution list res option" where
  "resolve_variables env compiled =
     (case rbind compiled (\<lambda>rt. rbind (validate_context rt (re_context env)) (\<lambda>_. Inr rt)) of
        Inl e \<Rightarrow> Some (Inl e)
      | Inr rt \<Rightarrow> resolve_variables_unchecked (env\<lparr>re_runtime := rt\<rparr>))"

definition trace_variable_resolution ::
  "'v resolution_env \<Rightarrow> runtime_package res \<Rightarrow> string \<Rightarrow> resolution_trace res option" where
  "trace_variable_resolution env compiled i =
     (case rbind compiled (\<lambda>rt. rbind (validate_context_for_variable rt i (re_context env)) (\<lambda>_. Inr rt)) of
        Inl e \<Rightarrow> Some (Inl e)
      | Inr rt \<Rightarrow> trace_variable_unchecked (env\<lparr>re_runtime := rt\<rparr>) i)"

definition trace_variable_resolutions ::
  "'v resolution_env \<Rightarrow> runtime_package res \<Rightarrow> resolution_trace list res option" where
  "trace_variable_resolutions env compiled =
     (case rbind compiled (\<lambda>rt. rbind (validate_context rt (re_context env)) (\<lambda>_. Inr rt)) of
        Inl e \<Rightarrow> Some (Inl e)
      | Inr rt \<Rightarrow> trace_variable_resolutions_unchecked (env\<lparr>re_runtime := rt\<rparr>))"

definition trace_variable_resolution_outcomes ::
  "'v resolution_env \<Rightarrow> runtime_package res \<Rightarrow> trace_outcome list res option" where
  "trace_variable_resolution_outcomes env compiled =
     (case rbind compiled (\<lambda>rt. rbind (validate_context rt (re_context env)) (\<lambda>_. Inr rt)) of
        Inl e \<Rightarrow> Some (Inl e)
      | Inr rt \<Rightarrow> trace_variable_resolution_outcomes_unchecked (env\<lparr>re_runtime := rt\<rparr>))"

section \<open>The specification\<close>

text \<open>The same code over a resolver that resolves every reference afresh: no cache, no cycle
  detection, no state. A cyclic reference has no value there: every fuel runs out.\<close>

fun plain_value :: "'v resolution_env \<Rightarrow> nat \<Rightarrow> string \<Rightarrow> (unit, json) run" where
  "plain_value env 0 i = (\<lambda>s. None)"
| "plain_value env (Suc n) i =
     and_then (resolve_variable_with_state env
       \<lparr>variable_value = plain_value env n, list_members = list_members_of env\<rparr> i) (\<lambda>r. ret (vr_value r))"

definition plain_resolver :: "'v resolution_env \<Rightarrow> nat \<Rightarrow> unit ref_resolver" where
  "plain_resolver env n = \<lparr>variable_value = plain_value env n, list_members = list_members_of env\<rparr>"

definition plain_trace :: "'v resolution_env \<Rightarrow> string \<Rightarrow> resolution_trace denotation" where
  "plain_trace env i n = resolve_variable_trace_with_state env (plain_resolver env n) i"

section \<open>An example engine\<close>

text \<open>An engine whose values are JSON and that knows names, fields and literals.\<close>

fun example_eval :: "(string \<times> json) list \<Rightarrow> cel \<Rightarrow> exec_error + json" where
  "example_eval roots (Ident x) =
     (case map_of roots x of Some v \<Rightarrow> Inr v | None \<Rightarrow> Inl (OtherExecError x))"
| "example_eval roots (Select e f) =
     rbind (example_eval roots e) (\<lambda>v. case json_get v f of Some w \<Rightarrow> Inr w | None \<Rightarrow> Inl (NoSuchKey f))"
| "example_eval roots (Literal (LBoolean b)) = Inr (JBool b)"
| "example_eval roots (Literal (LString s)) = Inr (JString s)"
| "example_eval roots _ = Inl (OtherExecError ''unsupported'')"

definition example_engine :: "json cel_engine" where
  "example_engine =
     \<lparr>compile = (\<lambda>_. Inl ''unsupported''), bool_value = JBool, int_value = (\<lambda>i. JNumber (JInt i)),
      cel_value = Inr, value_json = Inr, cel_run = (\<lambda>_ roots e. example_eval roots e),
      exec_text = (\<lambda>_. ''failed'')\<rparr>"

definition example_crates :: crates where
  "example_crates =
     \<lparr>regex_match = (\<lambda>_ _. Inl []), glob_pattern = (\<lambda>_ _. Inl []), semver_match = (\<lambda>_ _. Inl []),
      parse_ip_addr = (\<lambda>_. Inl []), json_pointer = (\<lambda>_ _. None), json_text = (\<lambda>_. [])\<rparr>"

definition example_env :: "runtime_package \<Rightarrow> json \<Rightarrow> json resolution_env" where
  "example_env rt ctx =
     \<lparr>re_engine = example_engine, re_crates = example_crates, re_hydration = 100, re_runtime = rt,
      re_context = ctx, re_now = ''2026-01-01T00:00:00Z''\<rparr>"

text \<open>A package of two catalogs that refer to each other and the given variables.\<close>

definition variables_package :: "runtime_resolution smap \<Rightarrow> runtime_package" where
  "variables_package vs = mutual_package\<lparr>rp_variables := vs\<rparr>"

definition bool_rule :: "nat \<Rightarrow> string \<Rightarrow> cel \<Rightarrow> runtime_rule" where
  "bool_rule n text ast =
     \<lparr>rule_index = n, rule_when = expression_of text ast, rule_value = LiteralValue (JBool True)\<rparr>"

definition flag_variable :: "string \<Rightarrow> cel \<Rightarrow> runtime_resolution" where
  "flag_variable text ast = RulesResolution (LiteralValue (JBool False)) [bool_rule 0 text ast]"

end
