(* ===== verification/Memo.thy ===== *)
theory Memo
  imports Resolve
begin

text \<open>
  The cache and the cycle detection of \<open>ResolutionState\<close> (src/src/resolve.rs) do not change
  what a variable resolves to: resolution over the state succeeds exactly when resolution
  without either does, with the same result, from every state the code can reach; it always
  ends; and a batch, strict or lenient, traced or not, agrees with resolving each variable
  alone.
\<close>

section \<open>Resolution in an arbitrary resolver\<close>

definition hydrates :: "'v resolution_env \<Rightarrow> bool" where
  "hydrates env = (\<forall>c es. map_of (rp_catalog_entries (re_runtime env)) c = Some es \<longrightarrow>
     list_all (\<lambda>(name, v). catalog_entry_view (json_pointer (re_crates env)) (re_hydration env)
       (re_runtime env) c name v \<noteq> None) es)"

lemma entry_view_returns:
  "hydrates env \<Longrightarrow> query_entries env q = Inr es \<Longrightarrow> kv \<in> set es \<Longrightarrow> returns I (entry_view env (query_catalog q) kv)"
  by (cases kv) (fastforce simp: hydrates_def query_entries_def entry_view_def returns_def list_all_iff
      err_def split: option.splits)

lemma entry_view_simulates: "simulates J (entry_view env c kv) (\<lambda>_. entry_view env c kv)"
  by (auto simp: simulates_def entry_view_def yields_def)

lemma entry_view_follows: "follows J (entry_view env c kv) (entry_view env c kv)"
  by (auto simp: follows_def entry_view_def)

lemma returns_lift_and_then: "(\<And>x. r = Inr x \<Longrightarrow> returns I (f x)) \<Longrightarrow> returns I (and_then (lift r) f)"
  by (cases r) (simp_all add: returns_def and_then_def lift_def)

context total_resolver
begin

lemma condition_returns: "returns I (evaluate_condition env res e entry)"
  unfolding evaluate_condition_def by (rule evaluate_bool_returns)

lemma key_returns: "returns I (evaluate_key env res e entry)"
  unfolding evaluate_key_def by (rule evaluate_value_returns)

lemma try_rules_returns: "returns I (try_rules env res rules)"
  by (induction rules) (auto intro!: returns_intros condition_returns)

lemma query_returns:
  assumes "hydrates env"
  shows "returns I (resolve_catalog_query env res i q)"
  unfolding resolve_catalog_query_def sort_matches_def key_entry_def match_entry_def
  by (intro returns_lift_and_then returns_intros condition_returns key_returns
      entry_view_returns [OF assms])

lemma trace_returns: "hydrates env \<Longrightarrow> returns I (resolve_variable_trace_with_state env res i)"
  unfolding resolve_variable_trace_with_state_def
proof (intro returns_intros)
  fix r assume "hydrates env"
  then show "returns I (resolve_method env res i r)"
    by (cases r) (auto simp: resolve_method_def resolve_rules_trace_def resolve_query_trace_def
        resolve_allocation_trace_def evaluate_allocation_eligibility_def
        intro!: returns_intros condition_returns key_returns try_rules_returns query_returns)
qed

lemma resolution_returns: "hydrates env \<Longrightarrow> returns I (resolve_variable_with_state env res i)"
  unfolding resolve_variable_with_state_def by (intro returns_intros trace_returns)

end

context simulated_resolver
begin

lemma condition_simulates:
  "simulates J (evaluate_condition env res e entry) (\<lambda>n. evaluate_condition env (den n) e entry)"
  unfolding evaluate_condition_def by (rule evaluate_bool_simulates)

lemma key_simulates: "simulates J (evaluate_key env res e entry) (\<lambda>n. evaluate_key env (den n) e entry)"
  unfolding evaluate_key_def by (rule evaluate_value_simulates)

lemma try_rules_simulates: "simulates J (try_rules env res rules) (\<lambda>n. try_rules env (den n) rules)"
proof (induction rules)
  case (Cons r rules)
  show ?case unfolding try_rules.simps by (intro simulates_intros condition_simulates Cons)
qed (simp add: simulates_ret)

lemma query_simulates:
  "simulates J (resolve_catalog_query env res i q) (\<lambda>n. resolve_catalog_query env (den n) i q)"
  unfolding resolve_catalog_query_def sort_matches_def key_entry_def match_entry_def
  by (intro simulates_intros condition_simulates key_simulates entry_view_simulates)

lemma method_simulates: "simulates J (resolve_method env res i r) (\<lambda>n. resolve_method env (den n) i r)"
  unfolding resolve_method_def resolve_rules_trace_def resolve_query_trace_def
    resolve_allocation_trace_def evaluate_allocation_eligibility_def
  by (cases r; simp only: runtime_resolution.case)
    (intro simulates_intros condition_simulates key_simulates try_rules_simulates query_simulates)+

lemma trace_simulates:
  "simulates J (resolve_variable_trace_with_state env res i)
     (\<lambda>n. resolve_variable_trace_with_state env (den n) i)"
  unfolding resolve_variable_trace_with_state_def by (intro simulates_intros method_simulates)

lemma resolution_simulates:
  "simulates J (resolve_variable_with_state env res i) (\<lambda>n. resolve_variable_with_state env (den n) i)"
  unfolding resolve_variable_with_state_def by (intro simulates_intros trace_simulates)

end

context following_resolver
begin

lemma condition_follows: "follows J (evaluate_condition env res e entry) (evaluate_condition env den e entry)"
  unfolding evaluate_condition_def by (rule evaluate_bool_follows)

lemma key_follows: "follows J (evaluate_key env res e entry) (evaluate_key env den e entry)"
  unfolding evaluate_key_def by (rule evaluate_value_follows)

lemma try_rules_follows: "follows J (try_rules env res rules) (try_rules env den rules)"
proof (induction rules)
  case (Cons r rules)
  show ?case unfolding try_rules.simps by (intro follows_intros condition_follows Cons)
qed (simp add: follows_ret)

lemma query_follows: "follows J (resolve_catalog_query env res i q) (resolve_catalog_query env den i q)"
  unfolding resolve_catalog_query_def sort_matches_def key_entry_def match_entry_def
  by (intro follows_intros condition_follows key_follows entry_view_follows)

lemma method_follows: "follows J (resolve_method env res i r) (resolve_method env den i r)"
  unfolding resolve_method_def resolve_rules_trace_def resolve_query_trace_def
    resolve_allocation_trace_def evaluate_allocation_eligibility_def
  by (cases r; simp only: runtime_resolution.case)
    (intro follows_intros condition_follows key_follows try_rules_follows query_follows)+

lemma trace_follows:
  "follows J (resolve_variable_trace_with_state env res i) (resolve_variable_trace_with_state env den i)"
  unfolding resolve_variable_trace_with_state_def by (intro follows_intros method_follows)

lemma resolution_follows:
  "follows J (resolve_variable_with_state env res i) (resolve_variable_with_state env den i)"
  unfolding resolve_variable_with_state_def by (intro follows_intros trace_follows)

end

section \<open>More fuel\<close>

lemma condition_extends:
  "extends_resolver a b \<Longrightarrow> extends_run (evaluate_condition env a e entry) (evaluate_condition env b e entry)"
  unfolding evaluate_condition_def by (rule evaluate_bool_extends)

lemma key_extends:
  "extends_resolver a b \<Longrightarrow> extends_run (evaluate_key env a e entry) (evaluate_key env b e entry)"
  unfolding evaluate_key_def by (rule evaluate_value_extends)

lemma try_rules_extends:
  "extends_resolver a b \<Longrightarrow> extends_run (try_rules env a rules) (try_rules env b rules)"
proof (induction rules)
  case (Cons r rules)
  then show ?case unfolding try_rules.simps by (intro extends_intros condition_extends) simp_all
qed (simp add: extends_refl)

lemma trace_extends:
  assumes "extends_resolver a b"
  shows "extends_run (resolve_variable_trace_with_state env a i) (resolve_variable_trace_with_state env b i)"
  unfolding resolve_variable_trace_with_state_def
proof (intro extends_intros)
  fix r
  show "extends_run (resolve_method env a i r) (resolve_method env b i r)"
    unfolding resolve_method_def resolve_rules_trace_def resolve_query_trace_def
      resolve_allocation_trace_def evaluate_allocation_eligibility_def resolve_catalog_query_def
      sort_matches_def key_entry_def match_entry_def
    by (cases r; simp only: runtime_resolution.case)
      (intro extends_and_then extends_for_each extends_if extends_option extends_refl
        condition_extends key_extends try_rules_extends assms)+
qed

lemma resolution_extends:
  "extends_resolver a b \<Longrightarrow>
   extends_run (resolve_variable_with_state env a i) (resolve_variable_with_state env b i)"
  unfolding resolve_variable_with_state_def by (intro extends_intros trace_extends)

lemma plain_value_step: "extends_run (plain_value env n i) (plain_value env (Suc n) i)"
proof (induction n arbitrary: i)
  case (Suc n)
  have "extends_resolver \<lparr>variable_value = plain_value env n, list_members = list_members_of env\<rparr>
     \<lparr>variable_value = plain_value env (Suc n), list_members = list_members_of env\<rparr>"
    using Suc by (simp add: extends_resolver_def extends_refl)
  then show ?case
    unfolding plain_value.simps(2) [of env "Suc n"] plain_value.simps(2) [of env n]
    by (intro extends_intros resolution_extends)
qed (simp add: extends_run_def)

lemma plain_value_mono: "n \<le> m \<Longrightarrow> plain_value env n i s = Some rs \<Longrightarrow> plain_value env m i s = Some rs"
  by (induction rule: dec_induct) (use plain_value_step [unfolded extends_run_def] in blast)+

lemma plain_resolver_extends: "n \<le> m \<Longrightarrow> extends_resolver (plain_resolver env n) (plain_resolver env m)"
  using plain_value_mono unfolding extends_resolver_def plain_resolver_def extends_run_def by fastforce

lemma plain_value_Suc:
  "plain_value env (Suc n) i =
     and_then (resolve_variable_with_state env (plain_resolver env n) i) (\<lambda>r. ret (vr_value r))"
  by (simp add: plain_resolver_def)

text \<open>What some fuel yields, every larger one does.\<close>

lemma plain_value_yields: "plain_value env n i () = Some (Inr v, ()) \<Longrightarrow> yields (\<lambda>n. plain_value env n i) v"
  unfolding yields_def eventually_sequentially using plain_value_mono by blast

lemma plain_trace_yields: "plain_trace env i n () = Some (Inr t, ()) \<Longrightarrow> yields (plain_trace env i) t"
  unfolding yields_def eventually_sequentially plain_trace_def
  using trace_extends [OF plain_resolver_extends] unfolding extends_run_def by blast

lemma yields_index: "yields d x \<Longrightarrow> \<exists>n. d n () = Some (Inr x, ())"
  by (auto simp: yields_def eventually_sequentially)

section \<open>The resolution state\<close>

text \<open>A reachable state: the cache holds values the specification yields, and the set of variables
  being resolved is the one the caller set up.\<close>

definition consistent :: "'v resolution_env \<Rightarrow> string set \<Rightarrow> resolution_state \<Rightarrow> bool" where
  "consistent env R s = ((\<forall>k v. variable_cache s k = Some v \<longrightarrow> yields (\<lambda>n. plain_value env n k) v)
     \<and> resolving s = R)"

lemma consistent_new: "consistent env {} new_state"
  by (simp add: consistent_def new_state_def)

lemma consistent_cache: "consistent env R s \<Longrightarrow> variable_cache s k = Some v \<Longrightarrow> yields (\<lambda>n. plain_value env n k) v"
  by (simp add: consistent_def)

lemma consistent_enter: "consistent env R s \<Longrightarrow> consistent env (insert i R) (s\<lparr>resolving := insert i (resolving s)\<rparr>)"
  by (simp add: consistent_def)

lemma consistent_leave:
  assumes "consistent env (insert i R) s" "i \<notin> R" "\<And>x. r = Inr x \<Longrightarrow> yields (\<lambda>n. plain_value env n i) (vr_value x)"
  shows "consistent env R (snd (finish_value i (r, s)))"
proof (cases r)
  case (Inl e)
  with assms show ?thesis by (simp add: finish_value_def consistent_def)
next
  case (Inr x)
  with assms(3) have "yields (\<lambda>n. plain_value env n i) (vr_value x)" by blast
  with Inr assms(1,2) show ?thesis by (simp add: finish_value_def consistent_def Let_def)
qed

lemma resolver_fields [simp]:
  "variable_value (resolver env n) = resolve_variable_value env n"
  "list_members (resolver env n) = list_members_of env"
  "variable_value (plain_resolver env n) = plain_value env n"
  "list_members (plain_resolver env n) = list_members_of env"
  by (simp_all add: resolver_def plain_resolver_def)

lemma resolve_variable_value_Suc:
  "resolve_variable_value env (Suc n) i s =
     (case variable_cache s i of
        Some v \<Rightarrow> Some (Inr v, s)
      | None \<Rightarrow>
          if i \<in> resolving s then Some (err (''variable reference cycle detected at variable://'' @ i), s)
          else map_option (finish_value i) (resolve_variable_with_state env (resolver env n) i
                 (s\<lparr>resolving := insert i (resolving s)\<rparr>)))"
  unfolding resolver_def by simp

declare resolve_variable_value.simps(2) [simp del]

lemma finish_value_fst: "fst (finish_value i (r, s)) = (case r of Inl e \<Rightarrow> Inl e | Inr x \<Rightarrow> Inr (vr_value x))"
  by (cases r) (simp_all add: finish_value_def Let_def)

section \<open>Every value is one of the specification\<close>

lemma yields_Suc: "yields d x \<longleftrightarrow> yields (\<lambda>n. d (Suc n)) x"
  unfolding yields_def
  by (rule eventually_sequentially_Suc [where P = "\<lambda>n. d n () = Some (Inr x, ())", symmetric])

lemma plain_value_from_resolution:
  assumes "yields (\<lambda>n. resolve_variable_with_state env (plain_resolver env n) i) r"
  shows "yields (\<lambda>n. plain_value env n i) (vr_value r)"
  unfolding yields_Suc [of "\<lambda>n. plain_value env n i"] plain_value_Suc
  by (intro yields_and_then [OF assms] yields_ret)

lemma list_members_simulates: "simulates J (list_members_of env i) (\<lambda>_. list_members_of env i)"
  unfolding list_members_of_def by (rule simulates_lift)

lemma list_members_follows: "follows J (list_members_of env i) (list_members_of env i)"
  unfolding list_members_of_def by (rule follows_lift)

lemma value_simulates: "simulates (consistent env R) (resolve_variable_value env f i) (\<lambda>n. plain_value env n i)"
proof (induction f arbitrary: R i)
  case (Suc f)
  have sim: "simulated_resolver (resolver env f) (consistent env R) (plain_resolver env)" for R
    by unfold_locales (simp_all add: Suc list_members_simulates)
  show ?case
    unfolding simulates_def
  proof (intro allI impI)
    fix s r s' assume J: "consistent env R s" and run: "resolve_variable_value env (Suc f) i s = Some (r, s')"
    show "consistent env R s' \<and> (\<forall>x. r = Inr x \<longrightarrow> yields (\<lambda>n. plain_value env n i) x)"
    proof (cases "variable_cache s i")
      case (Some v)
      with run J consistent_cache [OF J Some] show ?thesis by (auto simp: resolve_variable_value_Suc)
    next
      case None
      show ?thesis
      proof (cases "i \<in> R")
        case True
        with None run J show ?thesis by (auto simp: resolve_variable_value_Suc consistent_def err_def)
      next
        case False
        with None run J obtain p where
          p: "resolve_variable_with_state env (resolver env f) i (s\<lparr>resolving := insert i (resolving s)\<rparr>) = Some p"
          "(r, s') = finish_value i p"
          by (auto simp: resolve_variable_value_Suc consistent_def)
        obtain r0 s0 where p0: "p = (r0, s0)" by (cases p)
        note 1 = simulated_resolver.resolution_simulates [OF sim, unfolded simulates_def, rule_format,
            OF consistent_enter [OF J] p(1) [unfolded p0]]
        have 2: "yields (\<lambda>n. plain_value env n i) (vr_value x)" if "r0 = Inr x" for x
          using 1 that by (blast intro: plain_value_from_resolution)
        have "consistent env R s'"
          using consistent_leave [OF conjunct1 [OF 1] False 2] p(2) p0 by (metis snd_conv)
        moreover have "r = (case r0 of Inl e \<Rightarrow> Inl e | Inr x \<Rightarrow> Inr (vr_value x))"
          using p(2) p0 finish_value_fst [of i r0 s0] by (metis fst_conv)
        ultimately show ?thesis using 2 by (cases r0) auto
      qed
    qed
  qed
qed (simp add: simulates_def)

interpretation stateful: simulated_resolver "state_resolver env" "consistent env R" "plain_resolver env"
  by unfold_locales (simp_all add: state_resolver_def value_simulates list_members_simulates)

section \<open>Every value of the specification is reached\<close>

definition known :: "'v resolution_env \<Rightarrow> string set" where
  "known env = set (variable_ids env)"

lemma finite_known: "finite (known env)"
  by (simp add: known_def)

lemma card_known_less: "card (known env) < resolution_fuel env"
  using card_length [of "variable_ids env"] by (simp add: known_def variable_ids_def resolution_fuel_def)

lemma card_enter: "i \<in> known env \<Longrightarrow> i \<notin> R \<Longrightarrow> card (known env - insert i R) < card (known env - R)"
  by (rule psubset_card_mono) (use finite_known in auto)

lemma unknown_variable:
  "i \<notin> known env \<Longrightarrow> resolve_variable_with_state env res i s =
     Some (err (''variable not found: variable://'' @ i), s)"
proof -
  assume "i \<notin> known env"
  then have "map_of (rp_variables (re_runtime env)) i = None"
    by (simp add: known_def variable_ids_def map_of_eq_None_iff)
  then show ?thesis
    by (simp add: resolve_variable_with_state_def resolve_variable_trace_with_state_def find_variable_def
        and_then_def lift_def err_def)
qed

lemma least_plain_value:
  assumes "plain_value env n i () = Some (Inr v, ())"
  obtains m where "m < n" "plain_value env (Suc m) i () = Some (Inr v, ())"
    "\<And>x. plain_value env m i () \<noteq> Some (Inr x, ())"
proof -
  define P where "P m \<longleftrightarrow> (\<exists>x. plain_value env m i () = Some (Inr x, ()))" for m
  have Pn: "P n" using assms by (auto simp: P_def)
  then have L: "P (LEAST m. P m)" "(LEAST m. P m) \<le> n" by (rule LeastI, rule Least_le)
  have "\<not> P 0" by (simp add: P_def)
  with L(1) obtain m where m: "(LEAST m. P m) = Suc m" by (metis not0_implies_Suc)
  then have less: "\<not> P m" by (metis lessI not_less_Least)
  obtain x where x: "plain_value env (Suc m) i () = Some (Inr x, ())" using L(1) m by (auto simp: P_def)
  have "x = v" using plain_value_mono [OF L(2) [unfolded m] x] assms by simp
  with x have "plain_value env (Suc m) i () = Some (Inr v, ())" by simp
  moreover have "m < n" using L(2) m by simp
  ultimately show ?thesis using that less unfolding P_def by blast
qed

lemma value_follows:
  "card (known env - R) < f \<Longrightarrow>
   (\<And>r x. r \<in> R \<Longrightarrow> plain_value env n r () \<noteq> Some (Inr x, ())) \<Longrightarrow>
   follows (consistent env R) (resolve_variable_value env f i) (plain_value env n i)"
proof (induction f arbitrary: R n i)
  case (Suc f)
  show ?case
    unfolding follows_def
  proof (intro allI impI)
    fix s v assume J: "consistent env R s" and d: "plain_value env n i () = Some (Inr v, ())"
    obtain m where m: "m < n" "plain_value env (Suc m) i () = Some (Inr v, ())"
      "\<And>x. plain_value env m i () \<noteq> Some (Inr x, ())"
      by (rule least_plain_value [OF d]) blast
    have out: "i \<notin> R" using Suc.prems(2) d by blast
    show "\<exists>s'. resolve_variable_value env (Suc f) i s = Some (Inr v, s') \<and> consistent env R s'"
    proof (cases "variable_cache s i")
      case (Some w)
      have "w = v" by (rule yields_unique [OF consistent_cache [OF J Some] plain_value_yields [OF d]])
      with Some J show ?thesis by (simp add: resolve_variable_value_Suc)
    next
      case None
      obtain r where r: "resolve_variable_with_state env (plain_resolver env m) i () = Some (Inr r, ())" "vr_value r = v"
        using m(2) unfolding plain_value_Suc by (auto simp: and_then_def ret_def split: option.splits sum.splits)
      have known: "i \<in> known env"
        using r(1) unknown_variable [of i env "plain_resolver env m" "()"] by (auto simp: err_def)
      have "follows (consistent env (insert i R)) (resolve_variable_value env f j) (plain_value env m j)" for j
      proof (rule Suc.IH)
        show "card (known env - insert i R) < f"
          using card_enter [OF known out] Suc.prems(1) by linarith
        fix r x assume "r \<in> insert i R"
        then show "plain_value env m r () \<noteq> Some (Inr x, ())"
          using m(3) Suc.prems(2) plain_value_mono [of m n env r "()" "(Inr x, ())"] m(1) by auto
      qed
      then have "following_resolver (resolver env f) (consistent env (insert i R)) (plain_resolver env m)"
        by unfold_locales (simp_all add: list_members_follows)
      from following_resolver.resolution_follows [OF this, unfolded follows_def, rule_format,
          OF consistent_enter [OF J] r(1)]
      obtain s1 where s1: "resolve_variable_with_state env (resolver env f) i
          (s\<lparr>resolving := insert i (resolving s)\<rparr>) = Some (Inr r, s1)" "consistent env (insert i R) s1" by blast
      have "consistent env R (snd (finish_value i (Inr r, s1)))"
        by (rule consistent_leave [OF s1(2) out]) (use r(2) plain_value_yields [OF d] in simp)
      moreover have "fst (finish_value i (Inr r, s1)) = Inr v" by (simp add: finish_value_fst r(2))
      moreover have "resolve_variable_value env (Suc f) i s = Some (finish_value i (Inr r, s1))"
        using None out J s1(1) by (simp add: resolve_variable_value_Suc consistent_def)
      ultimately show ?thesis by (metis prod.collapse)
    qed
  qed
qed simp

interpretation follower: following_resolver "state_resolver env" "consistent env {}" "plain_resolver env n"
  by unfold_locales
    (auto simp: state_resolver_def card_known_less list_members_follows intro!: value_follows)

section \<open>Every resolution ends\<close>

definition settled :: "'v resolution_env \<Rightarrow> string set \<Rightarrow> resolution_state \<Rightarrow> bool" where
  "settled env R s = (hydrates env \<and> resolving s = R)"

lemma settled_leave: "settled env (insert i R) s \<Longrightarrow> i \<notin> R \<Longrightarrow> settled env R (snd (finish_value i (r, s)))"
  by (cases r) (simp_all add: settled_def finish_value_def Let_def)

lemma list_members_returns: "returns I (list_members_of env i)"
  unfolding list_members_of_def by (rule returns_lift)

lemma value_returns: "card (known env - R) < f \<Longrightarrow> returns (settled env R) (resolve_variable_value env f i)"
proof (induction f arbitrary: R i)
  case (Suc f)
  show ?case
    unfolding returns_def
  proof (intro allI impI)
    fix s assume I: "settled env R s"
    let ?s = "s\<lparr>resolving := insert i (resolving s)\<rparr>"
    show "\<exists>r s'. resolve_variable_value env (Suc f) i s = Some (r, s') \<and> settled env R s'"
    proof (cases "variable_cache s i \<noteq> None \<or> i \<in> R")
      case True
      with I show ?thesis by (auto simp: resolve_variable_value_Suc settled_def split: option.splits)
    next
      case False
      then have run: "resolve_variable_value env (Suc f) i s =
          map_option (finish_value i) (resolve_variable_with_state env (resolver env f) i ?s)"
        using I by (simp add: resolve_variable_value_Suc settled_def)
      have "\<exists>r s1. resolve_variable_with_state env (resolver env f) i ?s = Some (r, s1) \<and> settled env (insert i R) s1"
      proof (cases "i \<in> known env")
        case True
        with False Suc.prems card_enter [of i env R] have "card (known env - insert i R) < f" by linarith
        from Suc.IH [OF this] have "total_resolver (resolver env f) (settled env (insert i R))"
          by unfold_locales (simp_all add: list_members_returns)
        from total_resolver.resolution_returns [OF this, of env i] show ?thesis
          using I by (simp add: returns_def settled_def)
      qed (use I in \<open>simp add: unknown_variable settled_def\<close>)
      with run settled_leave [of env i R] False show ?thesis by (metis option.simps(9) prod.collapse)
    qed
  qed
qed simp

interpretation ending: total_resolver "state_resolver env" "settled env {}"
  by unfold_locales (simp_all add: state_resolver_def value_returns card_known_less list_members_returns)

section \<open>Loops over variables\<close>

lemma and_then_Inr:
  "and_then m f s = Some (Inr y, s') \<longleftrightarrow> (\<exists>x s1. m s = Some (Inr x, s1) \<and> f x s1 = Some (Inr y, s'))"
  by (auto simp: and_then_def split: option.splits sum.splits)

lemma for_each_yields:
  assumes "\<And>x. simulates J (f x) (\<lambda>n. g n x)"
  shows "J s \<Longrightarrow> for_each f xs s = Some (Inr ys, s') \<Longrightarrow> list_all2 (\<lambda>x. yields (\<lambda>n. g n x)) xs ys"
proof (induction xs arbitrary: s ys)
  case (Cons x xs)
  then obtain y s1 zs where y: "f x s = Some (Inr y, s1)" "for_each f xs s1 = Some (Inr zs, s')" "ys = y # zs"
    by (auto simp: and_then_Inr ret_def)
  with assms [of x] Cons.prems(1) have "J s1" "yields (\<lambda>n. g n x) y" by (auto simp: simulates_def)
  with Cons.IH y show ?case by simp
qed (simp add: ret_def)

lemma for_each_reached:
  assumes "\<And>n x. follows J (f x) (g n x)"
  shows "J s \<Longrightarrow> list_all2 (\<lambda>x. yields (\<lambda>n. g n x)) xs ys \<Longrightarrow> \<exists>s'. for_each f xs s = Some (Inr ys, s')"
proof (induction xs arbitrary: s ys)
  case (Cons x xs)
  then obtain y zs where y: "ys = y # zs" "yields (\<lambda>n. g n x) y" "list_all2 (\<lambda>x. yields (\<lambda>n. g n x)) xs zs"
    by (auto simp: list_all2_Cons1)
  obtain n where "g n x () = Some (Inr y, ())" using yields_index [OF y(2)] by blast
  with assms [of x n] Cons.prems(1) obtain s1 where s1: "f x s = Some (Inr y, s1)" "J s1"
    unfolding follows_def by blast
  obtain s' where "for_each f xs s1 = Some (Inr zs, s')" using Cons.IH [OF s1(2) y(3)] by blast
  with s1(1) y(1) show ?case by (simp add: and_then_def ret_def)
qed (simp add: ret_def)

text \<open>What an outcome says of a run whose specification is \<open>d\<close>.\<close>

definition tells :: "resolution_trace denotation \<Rightarrow> string \<Rightarrow> trace_outcome \<Rightarrow> bool" where
  "tells d i out = (vo_id out = i \<and> (\<forall>t. vo_trace out = Some t \<longleftrightarrow> yields d t)
     \<and> (vo_error out = None \<longleftrightarrow> vo_trace out \<noteq> None))"

lemma outcome_tells:
  assumes "simulates J m d" "\<And>n. follows J m (d n)" "J s" "outcome_of i m s = Some (Inr out, s')"
  shows "J s' \<and> tells d i out"
proof -
  obtain r s1 where m: "m s = Some (r, s1)" using assms(4) by (auto simp: outcome_of_def split: option.splits)
  have 1: "J s1" "\<And>t. r = Inr t \<Longrightarrow> yields d t"
    using assms(1) [unfolded simulates_def, rule_format, OF assms(3) m] by auto
  have 2: "r = Inr t" if y: "yields d t" for t
  proof -
    obtain n where "d n () = Some (Inr t, ())" using yields_index [OF y] by blast
    with assms(2) [of n, unfolded follows_def] assms(3) m show ?thesis by fastforce
  qed
  show ?thesis
  proof (cases r)
    case (Inl e)
    with assms(4) m obtain msg where out: "s1 = s'" "out = \<lparr>vo_id = i, vo_trace = None, vo_error = Some msg\<rparr>"
      by (cases e) (auto simp: outcome_of_def)
    moreover have "\<not> yields d t" for t using 2 [of t] Inl by auto
    ultimately show ?thesis using 1(1) out by (simp add: tells_def)
  next
    case (Inr t)
    with assms(4) m have out: "s1 = s'" "out = \<lparr>vo_id = i, vo_trace = Some t, vo_error = None\<rparr>"
      by (auto simp: outcome_of_def)
    moreover have "yields d u \<longleftrightarrow> t = u" for u using 2 [of u] 1(2) [OF Inr] Inr by auto
    ultimately show ?thesis using 1(1) out by (simp add: tells_def)
  qed
qed

lemma for_each_outcomes:
  assumes "\<And>x. simulates J (f x) (d x)" "\<And>n x. follows J (f x) (d x n)"
  shows "J s \<Longrightarrow> for_each (\<lambda>x. outcome_of x (f x)) xs s = Some (Inr outs, s') \<Longrightarrow>
    list_all2 (\<lambda>x. tells (d x) x) xs outs"
proof (induction xs arbitrary: s outs)
  case (Cons x xs)
  then obtain y s1 zs where y: "outcome_of x (f x) s = Some (Inr y, s1)"
    "for_each (\<lambda>x. outcome_of x (f x)) xs s1 = Some (Inr zs, s')" "outs = y # zs"
    by (auto simp: and_then_Inr ret_def)
  have "J s1 \<and> tells (d x) x y" by (rule outcome_tells [OF assms(1) assms(2) Cons.prems(1) y(1)])
  with Cons.IH [OF _ y(2)] y(3) show ?case by simp
qed (simp add: ret_def)

lemma trace_variable_iff: "trace_variable_unchecked env i = Some (Inr t) \<longleftrightarrow> yields (plain_trace env i) t"
proof
  assume "trace_variable_unchecked env i = Some (Inr t)"
  then obtain s where "resolve_variable_trace_with_state env (state_resolver env) i new_state = Some (Inr t, s)"
    by (auto simp: trace_variable_unchecked_def)
  from stateful.trace_simulates [of env "{}" env i, unfolded simulates_def, rule_format, OF consistent_new this]
  show "yields (plain_trace env i) t" unfolding plain_trace_def by blast
next
  assume "yields (plain_trace env i) t"
  then obtain n where "plain_trace env i n () = Some (Inr t, ())" by (auto dest: yields_index)
  from follower.trace_follows [of env env i n, unfolded follows_def, rule_format, OF consistent_new this [unfolded plain_trace_def]]
  show "trace_variable_unchecked env i = Some (Inr t)" by (auto simp: trace_variable_unchecked_def)
qed

lemma resolve_variable_iff:
  "resolve_variable_unchecked env i = Some (Inr r) \<longleftrightarrow>
     (\<exists>t. trace_variable_unchecked env i = Some (Inr t) \<and> r = tr_resolution t)"
  by (auto simp: resolve_variable_unchecked_def trace_variable_unchecked_def resolve_variable_with_state_def
      and_then_Inr ret_def)

lemma trace_batch_iff:
  "trace_variable_resolutions_unchecked env = Some (Inr ts) \<longleftrightarrow>
     list_all2 (\<lambda>i t. trace_variable_unchecked env i = Some (Inr t)) (variable_ids env) ts"
  (is "?l \<longleftrightarrow> ?r")
proof -
  have "?l \<longleftrightarrow> list_all2 (\<lambda>i. yields (plain_trace env i)) (variable_ids env) ts"
    unfolding plain_trace_def trace_variable_resolutions_unchecked_def
    using for_each_yields [OF stateful.trace_simulates, OF consistent_new]
      for_each_reached [OF follower.trace_follows, OF consistent_new]
    by fastforce
  then show ?thesis by (simp only: trace_variable_iff)
qed

lemma for_each_map:
  "for_each (\<lambda>x. and_then (f x) (\<lambda>y. ret (h y))) xs = and_then (for_each f xs) (\<lambda>ys. ret (map h ys))"
  by (induction xs) (auto simp: and_then_def ret_def fun_eq_iff split: option.splits sum.splits)

lemma batch_of_traces:
  "resolve_variables_unchecked env =
     map_option (\<lambda>r. rbind r (\<lambda>ts. Inr (map tr_resolution ts))) (trace_variable_resolutions_unchecked env)"
  unfolding resolve_variables_unchecked_def trace_variable_resolutions_unchecked_def
    resolve_variable_with_state_def [abs_def] for_each_map
  by (auto simp: and_then_def ret_def rbind_def split: option.splits sum.splits)

section \<open>Ending\<close>

lemma hydrates_refless:
  assumes "refless (re_runtime env) bound" "bound * card (entry_names (re_runtime env)) \<le> re_hydration env"
  shows "hydrates env"
proof -
  have "catalog_entry_view (json_pointer (re_crates env)) (re_hydration env) (re_runtime env) c name v \<noteq> None"
    if es: "map_of (rp_catalog_entries (re_runtime env)) c = Some es" "(name, v) \<in> set es" for c es name v
  proof -
    from es(2) have "map_of es name \<noteq> None" unfolding map_of_eq_None_iff by force
    with es(1) have "(c, name) \<in> entry_names (re_runtime env)" by (simp add: entry_names_def entry_of_def)
    then show ?thesis unfolding catalog_entry_view_def
      by (rule hydrate_entry_ends [OF assms(1)]) (use assms hydrate_schema_ends [OF assms(1)] in auto)
  qed
  then show ?thesis by (auto simp: hydrates_def list_all_iff)
qed

lemma returns_start: "returns (settled env {}) m \<Longrightarrow> hydrates env \<Longrightarrow> map_option fst (m new_state) \<noteq> None"
proof -
  assume "returns (settled env {}) m" "hydrates env"
  moreover from this(2) have "settled env {} new_state" by (simp add: settled_def new_state_def)
  ultimately show ?thesis unfolding returns_def by (metis option.map_disc_iff option.distinct(1))
qed

lemma returns_outcome: "returns I m \<Longrightarrow> returns I (outcome_of i m)"
  unfolding returns_def outcome_of_def
  by (fastforce split: option.splits sum.splits rototo_error.splits)

lemma policies_return: "returns (settled env {}) (evaluate_trace_policies env (state_resolver env) target)"
  unfolding evaluate_trace_policies_def evaluate_policy_def
  by (intro returns_intros ending.evaluate_bool_traced_returns)

section \<open>Cyclic references\<close>

lemma for_each_all: "for_each f xs s = Some (Inr ys, s') \<Longrightarrow> x \<in> set xs \<Longrightarrow> \<exists>y s1 s2. f x s1 = Some (Inr y, s2)"
proof (induction xs arbitrary: s ys)
  case (Cons a xs)
  then obtain y s1 zs s2 where "f a s = Some (Inr y, s1)" "for_each f xs s1 = Some (Inr zs, s')"
    by (auto simp: and_then_Inr ret_def)
  with Cons.IH [of s1 zs] Cons.prems(2) show ?case by auto
qed simp

lemma evaluation_resolves:
  assumes "evaluate_bool eng cr e ctx entry now res s = Some (Inr b, s')" "i \<in> set (ref_variables (refs e))"
  shows "\<exists>v s1 s2. variable_value res i s1 = Some (Inr v, s2)"
proof -
  obtain s1 v s2 where "resolved_object (variable_value res) (ref_variables (refs e)) s1 = Some (Inr v, s2)"
    using assms(1) unfolding evaluate_bool_def evaluate_value_def cel_evaluate_def and_then_Inr by blast
  then obtain ys s3 where
    "for_each (\<lambda>i. and_then (variable_value res i) (\<lambda>v. ret (i, v))) (ref_variables (refs e)) s1 = Some (Inr ys, s3)"
    unfolding resolved_object_def and_then_Inr by blast
  from for_each_all [OF this assms(2)] show ?thesis by (auto simp: and_then_Inr)
qed

text \<open>The condition of a variable's first rule is always evaluated; the ids it references are always
  resolved.\<close>

definition first_condition :: "'v resolution_env \<Rightarrow> string \<Rightarrow> expression option" where
  "first_condition env i =
     (case map_of (rp_variables (re_runtime env)) i of
        Some (RulesResolution dflt (r # _)) \<Rightarrow> Some (rule_when r)
      | _ \<Rightarrow> None)"

lemma resolution_needs:
  assumes "resolve_variable_trace_with_state env res i s = Some (Inr t, s')"
    and "first_condition env i = Some e" "j \<in> set (ref_variables (refs e))"
  shows "\<exists>v s1 s2. variable_value res j s1 = Some (Inr v, s2)"
proof -
  obtain d r rs where v: "map_of (rp_variables (re_runtime env)) i = Some (RulesResolution d (r # rs))" "e = rule_when r"
    using assms(2) by (auto simp: first_condition_def split: option.splits runtime_resolution.splits list.splits)
  then obtain s1 b s2 where "evaluate_condition env res e None s1 = Some (Inr b, s2)"
    using assms(1) by (auto simp: resolve_variable_trace_with_state_def find_variable_def resolve_method_def
        resolve_rules_trace_def and_then_Inr lift_def)
  from evaluation_resolves [OF this [unfolded evaluate_condition_def] assms(3)] show ?thesis .
qed

definition references_in_a_circle :: "'v resolution_env \<Rightarrow> string list \<Rightarrow> bool" where
  "references_in_a_circle env ids = (ids \<noteq> [] \<and>
     list_all2 (\<lambda>i j. case first_condition env i of Some e \<Rightarrow> j \<in> set (ref_variables (refs e)) | None \<Rightarrow> False)
       ids (rotate1 ids))"

lemma circle_next:
  assumes "references_in_a_circle env ids" "i \<in> set ids"
  obtains j e where "j \<in> set ids" "first_condition env i = Some e" "j \<in> set (ref_variables (refs e))"
proof -
  obtain k where k: "k < length ids" "i = ids ! k" using assms(2) by (auto simp: in_set_conv_nth)
  have "(case first_condition env i of Some e \<Rightarrow> (rotate1 ids ! k) \<in> set (ref_variables (refs e)) | None \<Rightarrow> False)"
    using assms(1) k by (auto simp: references_in_a_circle_def list_all2_conv_all_nth)
  moreover have "rotate1 ids ! k \<in> set ids" using k(1) by (metis length_rotate1 nth_mem set_rotate1)
  ultimately show ?thesis using that by (auto split: option.splits)
qed

lemma circle_has_no_value:
  assumes "references_in_a_circle env ids" "i \<in> set ids"
  shows "plain_value env n i () \<noteq> Some (Inr v, ())"
  using assms(2)
proof (induction n arbitrary: i v)
  case (Suc n)
  obtain j e where j: "j \<in> set ids" "first_condition env i = Some e" "j \<in> set (ref_variables (refs e))"
    using assms(1) Suc.prems by (rule circle_next)
  show ?case
  proof
    assume "plain_value env (Suc n) i () = Some (Inr v, ())"
    then obtain t s where "resolve_variable_trace_with_state env (plain_resolver env n) i () = Some (Inr t, s)"
      unfolding plain_value_Suc resolve_variable_with_state_def and_then_Inr by blast
    from resolution_needs [OF this j(2,3)] Suc.IH [OF j(1)] show False by auto
  qed
qed simp

lemma circle_fails:
  assumes "references_in_a_circle env ids" "i \<in> set ids"
  shows "trace_variable_unchecked env i \<noteq> Some (Inr t)"
proof
  assume "trace_variable_unchecked env i = Some (Inr t)"
  then obtain n where "plain_trace env i n () = Some (Inr t, ())"
    unfolding trace_variable_iff by (auto dest: yields_index)
  then have "plain_value env (Suc n) i () = Some (Inr (vr_value (tr_resolution t)), ())"
    unfolding plain_value_Suc resolve_variable_with_state_def plain_trace_def
    by (simp add: and_then_def ret_def)
  with circle_has_no_value [OF assms] show False by blast
qed

lemma lenient_outcomes:
  assumes "trace_variable_resolution_outcomes_unchecked env = Some (Inr outs)"
  shows "list_all2 (\<lambda>i out. vo_id out = i
      \<and> (\<forall>t. vo_trace out = Some t \<longleftrightarrow> trace_variable_unchecked env i = Some (Inr t))
      \<and> (vo_error out = None \<longleftrightarrow> vo_trace out \<noteq> None)) (variable_ids env) outs"
proof -
  from assms obtain s where "for_each (\<lambda>i. outcome_of i (resolve_variable_trace_with_state env (state_resolver env) i))
      (variable_ids env) new_state = Some (Inr outs, s)"
    by (auto simp: trace_variable_resolution_outcomes_unchecked_def)
  from for_each_outcomes [OF stateful.trace_simulates follower.trace_follows, OF consistent_new this]
  have "list_all2 (\<lambda>i. tells (plain_trace env i) i) (variable_ids env) outs"
    by (simp add: plain_trace_def [abs_def])
  then show ?thesis by (simp only: tells_def [abs_def] trace_variable_iff)
qed

section \<open>Properties\<close>



text \<open>C1 resolution_is_plain: resolving over the cache and the cycle check succeeds with a result
  exactly when resolving without either does, with the same result.\<close>

theorem resolution_is_plain:
  "trace_variable_unchecked env i = Some (Inr t) \<longleftrightarrow> yields (plain_trace env i) t"
  by (rule trace_variable_iff)

text \<open>C5 batch_agrees: resolving all variables together, plain or traced, over one shared cache, succeeds
  exactly when each one alone does, and then with the same resolutions and traces, in the order of the
  ids.\<close>

theorem batch_agrees:
  "(trace_variable_resolutions_unchecked env = Some (Inr ts) \<longleftrightarrow>
     list_all2 (\<lambda>i t. trace_variable_unchecked env i = Some (Inr t)) (variable_ids env) ts)
   \<and> resolve_variables_unchecked env =
     map_option (\<lambda>r. rbind r (\<lambda>ts. Inr (map tr_resolution ts))) (trace_variable_resolutions_unchecked env)"
  by (intro conjI trace_batch_iff batch_of_traces)

text \<open>A lenient batch that returns has one outcome for each variable: the trace
  of resolving it alone where that succeeds, and otherwise an error, so one variable that fails
  changes nothing for the others.\<close>

theorem lenient_batch_agrees:
  assumes "trace_variable_resolution_outcomes_unchecked env = Some (Inr outs)"
  shows "list_all2 (\<lambda>i out. vo_id out = i
      \<and> (\<forall>t. vo_trace out = Some t \<longleftrightarrow> trace_variable_unchecked env i = Some (Inr t))
      \<and> (vo_error out = None \<longleftrightarrow> vo_trace out \<noteq> None)) (variable_ids env) outs"
  using assms by (rule lenient_outcomes)



definition one_flag_env :: "json resolution_env" where
  "one_flag_env = example_env (variables_package [(''a'', flag_variable ''true'' (Literal (LBoolean True)))]) (JObject [])"

theorem lenient_batch_agrees_witness:
  "\<exists>outs :: trace_outcome list. list_all2 (\<lambda>i out. vo_id out = i
      \<and> (\<forall>t. vo_trace out = Some t \<longleftrightarrow> trace_variable_unchecked one_flag_env i = Some (Inr t))
      \<and> (vo_error out = None \<longleftrightarrow> vo_trace out \<noteq> None)) [''a''] outs"
proof -
  have "(case trace_variable_resolution_outcomes_unchecked one_flag_env of Some (Inr outs) \<Rightarrow> True | _ \<Rightarrow> False)"
    by code_simp
  then obtain outs where outs: "trace_variable_resolution_outcomes_unchecked one_flag_env = Some (Inr outs)"
    by (auto split: option.splits sum.splits)
  have ids: "variable_ids one_flag_env = [''a'']"
    by (simp add: variable_ids_def one_flag_env_def example_env_def variables_package_def mutual_package_def)
  show ?thesis using lenient_batch_agrees [OF outs] unfolding ids by blast
qed

end
