(* ===== verification/Select.thy ===== *)
theory Select
  imports Memo "HOL-Library.Sublist"
begin

text \<open>
  What a resolution selects (src/src/resolve.rs): the first rule that holds, the entries a query
  filters, sorts and limits, the arm an allocation puts a unit in; and what a captured trace
  records. Conditions and keys are meant as the specification of \<open>Resolve\<close> evaluates them,
  without cache.
\<close>

section \<open>Conditions without a cache\<close>

definition holds :: "'v resolution_env \<Rightarrow> expression \<Rightarrow> json option \<Rightarrow> bool \<Rightarrow> bool" where
  "holds env e entry b = yields (\<lambda>n. evaluate_condition env (plain_resolver env n) e entry) b"

lemma holds_at: "evaluate_condition env (plain_resolver env n) e entry () = Some (Inr b, ()) \<Longrightarrow> holds env e entry b"
  unfolding holds_def yields_def eventually_sequentially
  using condition_extends [OF plain_resolver_extends] unfolding extends_run_def by blast

lemma holds_unique: "holds env e entry b \<Longrightarrow> holds env e entry c \<Longrightarrow> b = c"
  unfolding holds_def by (rule yields_unique)

lemma plain_trace_of:
  assumes "trace_variable_unchecked env i = Some (Inr t)" "map_of (rp_variables (re_runtime env)) i = Some r"
  obtains n t' where "resolve_method env (plain_resolver env n) i r () = Some (Inr t', ())"
    "t = t'\<lparr>tr_provenance := map_of (rp_provenance (re_runtime env)) i\<rparr>"
proof -
  obtain n where "plain_trace env i n () = Some (Inr t, ())"
    using assms(1) unfolding trace_variable_iff by (auto dest: yields_index)
  with assms(2) that show ?thesis
    by (auto simp: plain_trace_def resolve_variable_trace_with_state_def find_variable_def and_then_Inr
        lift_def ret_def)
qed

lemma resolved_variable_known:
  assumes "trace_variable_unchecked env i = Some (Inr t)"
  shows "\<exists>r. map_of (rp_variables (re_runtime env)) i = Some r"
proof -
  obtain n where "plain_trace env i n () = Some (Inr t, ())"
    using assms unfolding trace_variable_iff by (auto dest: yields_index)
  then show ?thesis
    by (auto simp: plain_trace_def resolve_variable_trace_with_state_def find_variable_def and_then_Inr
        lift_def err_def split: option.splits)
qed

section \<open>Rules\<close>

definition rules_decide ::
  "'v resolution_env \<Rightarrow> runtime_rule list \<Rightarrow> rule_trace list \<times> selected_value option \<Rightarrow> bool" where
  "rules_decide env rules p =
     (case snd p of
        None \<Rightarrow> list_all (\<lambda>r. holds env (rule_when r) None False) rules
          \<and> fst p = map (\<lambda>r. trace_rule r False) rules
      | Some sv \<Rightarrow> \<exists>before r after. rules = before @ r # after
          \<and> list_all (\<lambda>r. holds env (rule_when r) None False) before \<and> holds env (rule_when r) None True
          \<and> sv = rule_value r \<and> fst p = map (\<lambda>r. trace_rule r False) before @ [trace_rule r True])"

lemma try_rules_decide:
  "try_rules env (plain_resolver env n) rules () = Some (Inr p, ()) \<Longrightarrow> rules_decide env rules p"
proof (induction rules arbitrary: p)
  case (Cons r rules)
  then obtain b where b: "evaluate_condition env (plain_resolver env n) (rule_when r) None () = Some (Inr b, ())"
    by (auto simp: and_then_Inr)
  note h = holds_at [OF b]
  show ?case
  proof (cases b)
    case True
    with Cons.prems b have "p = ([trace_rule r True], Some (rule_value r))"
      by (auto simp: and_then_Inr ret_def)
    with h True show ?thesis by (auto simp: rules_decide_def intro!: exI [of _ "[]"])
  next
    case False
    with Cons.prems b obtain q where q: "try_rules env (plain_resolver env n) rules () = Some (Inr q, ())"
      "p = (trace_rule r False # fst q, snd q)"
      by (auto simp: and_then_Inr ret_def)
    show ?thesis
    proof (cases "snd q")
      case None
      with Cons.IH [OF q(1)] q(2) h False show ?thesis by (simp add: rules_decide_def)
    next
      case (Some sv)
      with Cons.IH [OF q(1)] obtain before r' after where "rules = before @ r' # after"
        "list_all (\<lambda>r. holds env (rule_when r) None False) before" "holds env (rule_when r') None True"
        "sv = rule_value r'" "fst q = map (\<lambda>r. trace_rule r False) before @ [trace_rule r' True]"
        by (auto simp: rules_decide_def)
      with Some q(2) h False show ?thesis
        by (auto simp: rules_decide_def intro!: exI [of _ "r # before"])
    qed
  qed
qed (simp add: ret_def rules_decide_def)

section \<open>Sorting\<close>

definition number_key :: "keyed_entry \<Rightarrow> bool" where
  "number_key e = (case fst e of JNumber _ \<Rightarrow> True | _ \<Rightarrow> False)"

definition string_key :: "keyed_entry \<Rightarrow> bool" where
  "string_key e = (case fst e of JString _ \<Rightarrow> True | _ \<Rightarrow> False)"

lemma ordering_of_le: "ordering_of a b \<noteq> Greater \<longleftrightarrow> a \<le> b"
  by (auto simp: ordering_of_def)

lemma key_le_number: "fst a = JNumber x \<Longrightarrow> fst b = JNumber y \<Longrightarrow> key_le a b \<longleftrightarrow> as_f64 x \<le> as_f64 y"
  by (simp add: key_le_def compare_query_sort_keys_def ordering_of_le)

lemma key_le_string: "fst a = JString x \<Longrightarrow> fst b = JString y \<Longrightarrow> key_le a b \<longleftrightarrow> x \<le> y"
  by (simp add: key_le_def compare_query_sort_keys_def ordering_of_le)

lemma number_keyE: "number_key e \<Longrightarrow> (\<And>x. fst e = JNumber x \<Longrightarrow> P) \<Longrightarrow> P"
  by (cases "fst e") (auto simp: number_key_def)

lemma string_keyE: "string_key e \<Longrightarrow> (\<And>x. fst e = JString x \<Longrightarrow> P) \<Longrightarrow> P"
  by (cases "fst e") (auto simp: string_key_def)

interpretation number_keys: comparator number_key key_le
  by unfold_locales (auto simp: key_le_number elim!: number_keyE)

interpretation string_keys: comparator string_key key_le
  by unfold_locales (auto simp: key_le_string elim!: string_keyE)

lemma comparable_kind:
  "query_sort_keys_comparable (fst a) (fst b) \<longleftrightarrow> number_key a \<and> number_key b \<or> string_key a \<and> string_key b"
  by (auto simp: query_sort_keys_comparable_def number_key_def string_key_def split: json.splits)

lemma kinds_apart: "number_key e \<Longrightarrow> \<not> string_key e"
  by (auto elim!: number_keyE string_keyE)

lemma neighbours_comparable:
  "check_all (check_pair text i) (zip (a # keyed) keyed) = Inr () \<Longrightarrow>
   keyed = [] \<or> list_all number_key (a # keyed) \<or> list_all string_key (a # keyed)"
proof (induction keyed arbitrary: a)
  case (Cons b keyed)
  then have "query_sort_keys_comparable (fst a) (fst b)" "keyed = [] \<or> list_all number_key (b # keyed) \<or> list_all string_key (b # keyed)"
    by (auto simp: check_pair_def rbind_eq_Inr err_def split: if_splits)
  then show ?case using kinds_apart [of a] kinds_apart [of b] by (auto simp: comparable_kind)
qed simp

text \<open>Entries whose keys compare equal.\<close>

definition same_key :: "keyed_entry \<Rightarrow> keyed_entry \<Rightarrow> bool" where
  "same_key p e = (key_le p e \<and> key_le e p)"

definition in_order :: "bool \<Rightarrow> keyed_entry \<Rightarrow> keyed_entry \<Rightarrow> bool" where
  "in_order descending a b = (if descending then key_le b a else key_le a b)"

lemma sort_by_ordered:
  assumes "check_all (check_pair text i) (zip keyed (tl keyed)) = Inr ()"
  shows "sorted_wrt key_le (sort_by key_le keyed)
    \<and> (p \<in> set keyed \<longrightarrow> filter (same_key p) (sort_by key_le keyed) = filter (same_key p) keyed)"
proof -
  consider "length keyed \<le> 1" | "\<forall>x \<in> set keyed. number_key x" | "\<forall>x \<in> set keyed. string_key x"
  proof (cases keyed)
    case (Cons a rest)
    with neighbours_comparable [of "text" i a rest] assms that show ?thesis by (auto simp: list_all_iff)
  qed (use that in auto)
  then show ?thesis
  proof cases
    case 1
    then have "keyed = [] \<or> (\<exists>a. keyed = [a])" by (cases keyed) auto
    then show ?thesis by auto
  next
    case 2
    then show ?thesis
      using number_keys.sort_by_sorted [of keyed] number_keys.sort_by_stable [of keyed p]
      by (simp add: same_key_def [abs_def])
  next
    case 3
    then show ?thesis
      using string_keys.sort_by_sorted [of keyed] string_keys.sort_by_stable [of keyed p]
      by (simp add: same_key_def [abs_def])
  qed
qed

section \<open>Queries\<close>

text \<open>An entry a query may select: one of its catalog, whose view satisfies the filter.\<close>

definition satisfies :: "'v resolution_env \<Rightarrow> runtime_query \<Rightarrow> string \<times> json \<Rightarrow> bool" where
  "satisfies env q kv =
     (\<exists>view. catalog_entry_view (json_pointer (re_crates env)) (re_hydration env) (re_runtime env)
         (query_catalog q) (fst kv) (snd kv) = Some view
       \<and> pred_option (\<lambda>f. holds env f (Some view) True) (query_filter q))"

definition candidates :: "'v resolution_env \<Rightarrow> runtime_query \<Rightarrow> json smap \<Rightarrow> string set" where
  "candidates env q es = fst ` {kv \<in> set es. satisfies env q kv}"

lemma match_entry_satisfies:
  assumes "match_entry env (plain_resolver env n) q kv () = Some (Inr found, ())"
  shows "(case found of Some m \<Rightarrow> fst m = fst kv \<and> satisfies env q kv | None \<Rightarrow> \<not> satisfies env q kv)"
proof -
  from assms obtain view b where view: "catalog_entry_view (json_pointer (re_crates env)) (re_hydration env)
      (re_runtime env) (query_catalog q) (fst kv) (snd kv) = Some view"
    and keep: "case query_filter q of Some f \<Rightarrow> evaluate_condition env (plain_resolver env n) f (Some view) () = Some (Inr b, ())
       | None \<Rightarrow> b" and found: "found = (if b then Some (fst kv, view) else None)"
    by (cases "query_filter q") (auto simp: match_entry_def and_then_Inr entry_view_def ret_def)
  have "satisfies env q kv \<longleftrightarrow> b"
  proof (cases "query_filter q")
    case (Some f)
    with keep holds_at have "holds env f (Some view) b" by simp
    with Some view show ?thesis using holds_unique [of env f "Some view"] by (cases b) (auto simp: satisfies_def)
  qed (use keep view in \<open>simp add: satisfies_def\<close>)
  with found show ?thesis by simp
qed

lemma for_each_Inr:
  "for_each f xs () = Some (Inr ys, ()) \<Longrightarrow> list_all2 (\<lambda>x y. f x () = Some (Inr y, ())) xs ys"
  by (induction xs arbitrary: ys) (auto simp: and_then_Inr ret_def)

lemma found_names:
  assumes "list_all2 (\<lambda>kv found. case found of Some m \<Rightarrow> fst m = fst kv \<and> P kv | None \<Rightarrow> \<not> P kv) es founds"
  shows "map fst (List.map_filter id founds) = map fst (filter P es)"
  using assms
proof (induction es founds rule: list_all2_induct)
  case (Cons kv es found founds)
  then show ?case by (cases found) (auto simp: List.map_filter_simps)
qed (simp add: List.map_filter_simps)

lemma keyed_names:
  "for_each (key_entry env res srt) ms () = Some (Inr keyed, ()) \<Longrightarrow> map snd keyed = ms"
  by (induction ms arbitrary: keyed) (auto simp: and_then_Inr ret_def key_entry_def)

lemma sort_keyed_mset: "sort_keyed txt i descending keyed = Inr out \<Longrightarrow> mset out = mset keyed"
  by (auto simp: sort_keyed_def rbind_eq_Inr split: if_splits)

lemma sort_matches_mset:
  assumes "sort_matches env res i q ms () = Some (Inr out, ())"
  shows "mset out = mset ms"
proof (cases "query_sort q")
  case (Some srt)
  with assms obtain keyed ks where "for_each (key_entry env res srt) ms () = Some (Inr keyed, ())"
    "sort_keyed (json_text (re_crates env)) i (query_descending q) keyed = Inr ks" "out = map snd ks"
    by (auto simp: sort_matches_def and_then_Inr lift_def ret_def)
  then show ?thesis using keyed_names sort_keyed_mset by (metis mset_map)
qed (use assms in \<open>simp add: sort_matches_def ret_def\<close>)

lemma limit_matches_sub:
  "set (limit_matches q xs) \<subseteq> set xs" "query_limit q = None \<Longrightarrow> limit_matches q xs = xs"
  "pred_option (\<lambda>n. length (limit_matches q xs) \<le> n) (query_limit q)"
  "distinct xs \<Longrightarrow> distinct (limit_matches q xs)" "map f (limit_matches q xs) = limit_matches q (map f xs)"
  by (auto simp: limit_matches_def take_map dest: in_set_takeD split: option.splits)

lemma query_names:
  assumes "resolve_catalog_query env (plain_resolver env n) i q () = Some (Inr sv, ())"
  obtains es names where "map_of (rp_catalog_entries (re_runtime env)) (query_catalog q) = Some es"
    "set names \<subseteq> candidates env q es" "query_limit q = None \<longrightarrow> set names = candidates env q es"
    "pred_option (\<lambda>n. length names \<le> n) (query_limit q)" "distinct (map fst es) \<longrightarrow> distinct names"
    "select_matches i q es names = Inr sv"
proof -
  from assms obtain es founds ms where es: "map_of (rp_catalog_entries (re_runtime env)) (query_catalog q) = Some es"
    and founds: "for_each (match_entry env (plain_resolver env n) q) es () = Some (Inr founds, ())"
    and ms: "sort_matches env (plain_resolver env n) i q (List.map_filter id founds) () = Some (Inr ms, ())"
    and sel: "select_matches i q es (map fst (limit_matches q ms)) = Inr sv"
    by (auto simp: resolve_catalog_query_def and_then_Inr lift_def query_entries_def err_def split: option.splits)
  have "list_all2 (\<lambda>kv found. case found of Some m \<Rightarrow> fst m = fst kv \<and> satisfies env q kv
      | None \<Rightarrow> \<not> satisfies env q kv) es founds"
    using for_each_Inr [OF founds] by (rule list_all2_mono) (rule match_entry_satisfies)
  from found_names [OF this] sort_matches_mset [OF ms]
  have names: "mset (map fst ms) = mset (map fst (filter (satisfies env q) es))" by (metis mset_map)
  then have all: "set (map fst ms) = candidates env q es" unfolding candidates_def
    by (metis list.set_map set_filter set_mset_mset)
  have dist: "distinct (map fst es) \<longrightarrow> distinct (map fst ms)"
    using names by (metis distinct_map_filter mset_eq_imp_distinct_iff)
  show ?thesis
    by (rule that [OF es, where names = "limit_matches q (map fst ms)"])
      (use limit_matches_sub [where q = q and xs = "map fst ms"] all dist sel in
        \<open>auto simp: limit_matches_sub(5) simp del: set_map\<close>)
qed

section \<open>Allocations\<close>

lemma allocation_bucket_less:
  assumes "unit_bucket env a u = Inr b"
  shows "b < alloc_buckets a"
proof -
  let ?h = "unat (stable_unit_hash (json_text (re_crates env)) (alloc_layer a) u)"
  from assms have b: "alloc_buckets a \<noteq> 0" "b = of_nat (?h mod unat (alloc_buckets a))"
    by (auto simp: unit_bucket_def allocation_bucket_def split: if_splits)
  have less: "?h mod unat (alloc_buckets a) < unat (alloc_buckets a)"
    using b(1) by (simp add: unat_gt_0)
  have "unat (alloc_buckets a) < 2 ^ LENGTH(32)" by (rule unsigned_less)
  then have "unat (alloc_buckets a) < 2 ^ 32" by simp
  with less have "?h mod unat (alloc_buckets a) < 2 ^ 32" by linarith
  then have "unat b = ?h mod unat (alloc_buckets a)" using b(2) by (simp add: unat_of_nat)
  with less show ?thesis by (simp add: word_less_nat_alt)
qed

definition enrolls :: "'v resolution_env \<Rightarrow> runtime_allocation \<Rightarrow> bool" where
  "enrolls env a = (alloc_running a \<and> pred_option (\<lambda>e. holds env e None True) (alloc_eligibility a))"

lemma allocation_trace_parts:
  assumes "resolve_allocation_trace env (plain_resolver env n) i a () = Some (Inr t, ())"
  obtains bucket where "t = allocation_result i a bucket" "(bucket \<noteq> None) = enrolls env a"
    "pred_option (\<lambda>b. b < alloc_buckets a) bucket"
proof -
  from assms obtain b where b:
    "(if alloc_running a then evaluate_allocation_eligibility env (plain_resolver env n) a else ret False) () = Some (Inr b, ())"
    "(if b then and_then (evaluate_key env (plain_resolver env n) (alloc_unit a) None) (\<lambda>u.
         and_then (lift (unit_bucket env a u)) (\<lambda>b. ret (allocation_result i a (Some b))))
      else ret (allocation_result i a None)) () = Some (Inr t, ())"
    by (auto simp: resolve_allocation_trace_def and_then_Inr)
  have "b = enrolls env a"
  proof (cases "alloc_running a")
    case True
    show ?thesis
    proof (cases "alloc_eligibility a")
      case (Some e)
      with b(1) True holds_at have "holds env e None b" by (simp add: evaluate_allocation_eligibility_def)
      with Some True show ?thesis using holds_unique [of env e None] by (cases b) (auto simp: enrolls_def)
    qed (use b(1) True in \<open>simp add: evaluate_allocation_eligibility_def enrolls_def ret_def\<close>)
  qed (use b(1) in \<open>simp add: enrolls_def ret_def\<close>)
  show ?thesis
  proof (cases b)
    case True
    with b(2) obtain u x where "unit_bucket env a u = Inr x" "t = allocation_result i a (Some x)"
      by (auto simp: and_then_Inr ret_def lift_def)
    then show ?thesis using that [of "Some x"] allocation_bucket_less [of env a u x] True \<open>b = enrolls env a\<close>
      by simp
  next
    case False
    with b(2) have "t = allocation_result i a None" by (simp add: ret_def)
    then show ?thesis using that [of None] False \<open>b = enrolls env a\<close> by simp
  qed
qed

section \<open>Trace policies\<close>

definition evaluate_policy_condition ::
  "'v resolution_env \<Rightarrow> 's ref_resolver \<Rightarrow> string \<Rightarrow> expression \<Rightarrow> ('s, bool) run" where
  "evaluate_policy_condition env res i e =
     evaluate_bool_traced (re_engine env) (re_crates env) e (re_context env) (re_now env) (ResolvingVariable i) res"

definition policy_holds :: "'v resolution_env \<Rightarrow> string \<Rightarrow> expression \<Rightarrow> bool \<Rightarrow> bool" where
  "policy_holds env i e b = yields (\<lambda>n. evaluate_policy_condition env (plain_resolver env n) i e) b"

context simulated_resolver
begin

lemma policies_simulate:
  "simulates J (evaluate_trace_policies env res target) (\<lambda>n. evaluate_trace_policies env (den n) target)"
  unfolding evaluate_trace_policies_def evaluate_policy_def evaluate_bool_traced_def
  by (intro simulates_intros evaluate_simulates)

end

lemma policy_holds_at:
  "evaluate_policy_condition env (plain_resolver env n) i e () = Some (Inr b, ()) \<Longrightarrow> policy_holds env i e b"
proof -
  assume run: "evaluate_policy_condition env (plain_resolver env n) i e () = Some (Inr b, ())"
  have "extends_run (evaluate_policy_condition env (plain_resolver env n) i e)
      (evaluate_policy_condition env (plain_resolver env m) i e)" if "n \<le> m" for m
    unfolding evaluate_policy_condition_def evaluate_bool_traced_def
    by (intro extends_intros evaluate_extends plain_resolver_extends that)
  with run show ?thesis unfolding policy_holds_def yields_def eventually_sequentially extends_run_def by blast
qed

lemma policy_holds_unique: "policy_holds env i e b \<Longrightarrow> policy_holds env i e c \<Longrightarrow> b = c"
  unfolding policy_holds_def by (rule yields_unique)

lemma policies_at:
  assumes "evaluate_trace_policies env (plain_resolver env n) (ResolvingVariable i) () = Some (Inr ps, ())"
  shows "ps = map fst (filter (\<lambda>p. policy_holds env i (snd p) True) (enumerate 0 (rp_trace_policies (re_runtime env))))"
proof -
  obtain founds where f: "for_each (evaluate_policy env (plain_resolver env n) (ResolvingVariable i))
      (enumerate 0 (rp_trace_policies (re_runtime env))) () = Some (Inr founds, ())" "ps = List.map_filter id founds"
    using assms by (auto simp: evaluate_trace_policies_def and_then_Inr ret_def)
  have "List.map_filter id founds = map fst (filter (\<lambda>p. policy_holds env i (snd p) True) xs)"
    if "list_all2 (\<lambda>p found. evaluate_policy env (plain_resolver env n) (ResolvingVariable i) p () = Some (Inr found, ())) xs founds"
    for xs
    using that
  proof (induction xs founds rule: list_all2_induct)
    case (Cons p xs found founds)
    then obtain b where b: "evaluate_policy_condition env (plain_resolver env n) i (snd p) () = Some (Inr b, ())"
      "found = (if b then Some (fst p) else None)"
      by (auto simp: evaluate_policy_def evaluate_policy_condition_def and_then_Inr ret_def)
    have "policy_holds env i (snd p) True \<longleftrightarrow> b"
      using policy_holds_at [OF b(1)] policy_holds_unique [of env i "snd p" True] by (cases b) auto
    with b(2) Cons.IH show ?case by (cases b) (simp_all add: List.map_filter_simps)
  qed (simp add: List.map_filter_simps)
  with for_each_Inr [OF f(1)] f(2) show ?thesis by blast
qed

lemma and_then_InrE:
  "and_then m f s = Some (Inr y, s') \<Longrightarrow>
     (\<And>x s1. m s = Some (Inr x, s1) \<Longrightarrow> f x s1 = Some (Inr y, s') \<Longrightarrow> P) \<Longrightarrow> P"
  by (auto simp: and_then_Inr)

lemma traced_parts:
  assumes "resolve_variable_traced_unchecked env i app = Some (Inr (r, cap))"
  obtains t where "trace_variable_unchecked env i = Some (Inr t)" "r = tr_resolution t"
    "cap = capture_of app t (map fst (filter (\<lambda>p. policy_holds env i (snd p) True)
       (enumerate 0 (rp_trace_policies (re_runtime env)))))"
proof -
  from assms obtain s2 where "and_then (resolve_variable_trace_with_state env (state_resolver env) i) (\<lambda>t.
        and_then (evaluate_trace_policies env (state_resolver env) (ResolvingVariable i)) (\<lambda>policies.
          ret (tr_resolution t, capture_of app t policies))) new_state = Some (Inr (r, cap), s2)"
    by (auto simp: resolve_variable_traced_unchecked_def)
  then obtain t s1 ps where t: "resolve_variable_trace_with_state env (state_resolver env) i new_state = Some (Inr t, s1)"
    and ps: "evaluate_trace_policies env (state_resolver env) (ResolvingVariable i) s1 = Some (Inr ps, s2)"
    and r: "r = tr_resolution t" "cap = capture_of app t ps"
    by (elim and_then_InrE) (simp add: ret_def)
  have "consistent env {} s1"
    using stateful.trace_simulates [of env "{}" env i, unfolded simulates_def, rule_format, OF consistent_new t] by blast
  from stateful.policies_simulate [of env "{}" env "ResolvingVariable i", unfolded simulates_def, rule_format, OF this ps]
  have "yields (\<lambda>n. evaluate_trace_policies env (plain_resolver env n) (ResolvingVariable i)) ps" by simp
  from yields_index [OF this]
  obtain n where "evaluate_trace_policies env (plain_resolver env n) (ResolvingVariable i) () = Some (Inr ps, ())" ..
  note ps_eq = policies_at [OF this]
  show ?thesis
    by (rule that [of t]) (use t r ps_eq in \<open>simp_all add: trace_variable_unchecked_def\<close>)
qed

section \<open>Types\<close>

text \<open>A resolution of a type: an entry of the catalog with its content, with or without its name as
  the \<open>id\<close>, a list of them, or a literal.\<close>

definition entry_result :: "json smap smap \<Rightarrow> string \<Rightarrow> string \<Rightarrow> json \<Rightarrow> bool" where
  "entry_result entries c name v =
     (case entry_of entries c name of Some e \<Rightarrow> v = e \<or> v = with_id name e | None \<Rightarrow> False)"

fun typed_result :: "json smap smap \<Rightarrow> type_kind \<Rightarrow> variable_resolution \<Rightarrow> bool" where
  "typed_result entries (KCatalog c) r =
     (\<exists>name. vr_source r = SourceCatalog c name \<and> entry_result entries c name (vr_value r))"
| "typed_result entries (KArray (KCatalog c)) r =
     (\<exists>names vs. vr_source r = SourceCatalogArray c names \<and> vr_value r = JArray vs
        \<and> list_all2 (entry_result entries c) names vs)"
| "typed_result entries _ r = (vr_source r = SourceLiteral)"

lemma typed_value_result: "typed_value entries kind sv \<Longrightarrow> typed_result entries kind (resolved i sv)"
proof (induction entries kind sv rule: typed_value.induct)
  case (2 entries c sv)
  then obtain names vs where "sv = CatalogArrayValue c names (JArray vs)"
    "list_all2 (\<lambda>name v. entry_of entries c name = Some v) names vs" by auto
  then show ?case
    by (auto simp: resolved_def selected_value_source_def entry_result_def elim: list_all2_mono)
qed (auto simp: resolved_def selected_value_source_def entry_result_def)

lemma raw_entry_result:
  assumes "map_of entries c = Some es" "name \<in> fst ` set es"
  shows "entry_result entries c name (raw_entry_with_id es name)"
proof -
  from assms(2) obtain v where "map_of es name = Some v"
    by (metis map_of_eq_None_iff option.exhaust)
  with assms(1) show ?thesis by (simp add: entry_result_def entry_of_def raw_entry_with_id_def)
qed

lemma select_matches_typed:
  assumes "select_matches i q es names = Inr sv" "map_of entries (query_catalog q) = Some es"
    and "set names \<subseteq> fst ` set es" "query_catalog_of kind = Inr (query_catalog q, query_single q)"
    and "pred_option (typed_value entries kind) (query_default q)"
  shows "typed_result entries kind (resolved i sv)"
proof (cases "query_default q = Some sv")
  case True
  with assms(5) typed_value_result show ?thesis by simp
next
  case False
  show ?thesis
  proof (cases "query_single q")
    case True
    with assms(1) False obtain name rest where "names = name # rest"
      "sv = CatalogValue (query_catalog q) name (raw_entry_with_id es name)"
      by (cases names; cases "query_default q")
        (auto simp: select_matches_def select_single_def err_def split: if_splits)
    moreover have "kind = KCatalog (query_catalog q)"
      using assms(4) True by (auto simp: query_catalog_of_def err_def split: type_kind.splits)
    ultimately show ?thesis
      using raw_entry_result [OF assms(2)] assms(3) by (simp add: resolved_def selected_value_source_def)
  next
    case multi: False
    with assms(1) False have
      "sv = CatalogArrayValue (query_catalog q) names (JArray (map (raw_entry_with_id es) names))"
      by (auto simp: select_matches_def select_many_def split: list.splits option.splits)
    moreover have "kind = KArray (KCatalog (query_catalog q))"
      using assms(4) multi by (auto simp: query_catalog_of_def err_def split: type_kind.splits)
    moreover have "list_all2 (entry_result entries (query_catalog q)) names (map (raw_entry_with_id es) names)"
      using raw_entry_result [OF assms(2)] assms(3) by (induction names) auto
    ultimately show ?thesis by (simp add: resolved_def selected_value_source_def)
  qed
qed

lemma candidates_subset: "candidates env q es \<subseteq> fst ` set es"
  by (auto simp: candidates_def)

lemma typed_resolution_result:
  assumes "trace_variable_unchecked env i = Some (Inr t)" "map_of (rp_variables (re_runtime env)) i = Some r"
    and "typed_resolution (rp_catalog_entries (re_runtime env)) kind r"
  shows "typed_result (rp_catalog_entries (re_runtime env)) kind (tr_resolution t)"
proof -
  obtain n t' where t: "resolve_method env (plain_resolver env n) i r () = Some (Inr t', ())"
    "tr_resolution t = tr_resolution t'"
    using assms(1,2) by (rule plain_trace_of) simp
  show ?thesis
  proof (cases r)
    case (RulesResolution dflt rules)
    with t(1) obtain p where p: "try_rules env (plain_resolver env n) rules () = Some (Inr p, ())" "t' = rules_result i dflt p"
      by (auto simp: resolve_method_def resolve_rules_trace_def and_then_Inr ret_def)
    have "typed_value (rp_catalog_entries (re_runtime env)) kind (case snd p of Some sv \<Rightarrow> sv | None \<Rightarrow> dflt)"
      using try_rules_decide [OF p(1)] assms(3) RulesResolution
      by (auto simp: rules_decide_def split: option.splits)
    with p(2) t(2) typed_value_result show ?thesis by (simp add: rules_result_def)
  next
    case (QueryResolution q)
    with t(1) obtain sv where sv: "resolve_catalog_query env (plain_resolver env n) i q () = Some (Inr sv, ())"
      "t' = query_result i q sv"
      by (auto simp: resolve_method_def resolve_query_trace_def and_then_Inr ret_def)
    obtain es names where "map_of (rp_catalog_entries (re_runtime env)) (query_catalog q) = Some es"
      "set names \<subseteq> candidates env q es" "select_matches i q es names = Inr sv"
      using sv(1) by (rule query_names)
    then have "typed_result (rp_catalog_entries (re_runtime env)) kind (resolved i sv)"
      using assms(3) QueryResolution candidates_subset [of env q es] by (intro select_matches_typed) auto
    with sv(2) t(2) show ?thesis by (simp add: query_result_def)
  next
    case (AllocationResolution a)
    with t(1) have "resolve_allocation_trace env (plain_resolver env n) i a () = Some (Inr t', ())"
      by (simp add: resolve_method_def)
    then obtain bucket where b: "t' = allocation_result i a bucket" by (rule allocation_trace_parts)
    have "typed_value (rp_catalog_entries (re_runtime env)) kind
        (case Option.bind bucket (\<lambda>b. List.find (arm_holds b) (alloc_arms a)) of
           Some m \<Rightarrow> arm_value m | None \<Rightarrow> alloc_default a)"
      using assms(3) AllocationResolution
      by (auto simp: list_all_iff bind_eq_Some_conv find_Some_iff split: option.splits)
    with b t(2) typed_value_result show ?thesis by (simp add: allocation_result_def Let_def)
  qed
qed

section \<open>Properties\<close>

text \<open>C3 first_rule_wins: a variable with rules resolves to the value of the first rule whose condition
  holds, every earlier condition being false, and to its default when none holds; the trace
  lists exactly the rules that were tried, with what their conditions gave.\<close>

theorem first_rule_wins:
  assumes "trace_variable_unchecked env i = Some (Inr t)"
    and "map_of (rp_variables (re_runtime env)) i = Some (RulesResolution dflt rules)"
  shows "(list_all (\<lambda>r. holds env (rule_when r) None False) rules
      \<and> tr_resolution t = resolved i dflt \<and> tr_rules t = map (\<lambda>r. trace_rule r False) rules)
    \<or> (\<exists>before r after. rules = before @ r # after
      \<and> list_all (\<lambda>r. holds env (rule_when r) None False) before \<and> holds env (rule_when r) None True
      \<and> tr_resolution t = resolved i (rule_value r)
      \<and> tr_rules t = map (\<lambda>r. trace_rule r False) before @ [trace_rule r True])"
proof -
  obtain n t' where t: "resolve_method env (plain_resolver env n) i (RulesResolution dflt rules) () = Some (Inr t', ())"
    "tr_resolution t = tr_resolution t'" "tr_rules t = tr_rules t'"
    using assms by (rule plain_trace_of) simp
  then obtain p where p: "try_rules env (plain_resolver env n) rules () = Some (Inr p, ())" "t' = rules_result i dflt p"
    by (auto simp: resolve_method_def resolve_rules_trace_def and_then_Inr ret_def)
  from try_rules_decide [OF p(1)] p(2) t(2,3) show ?thesis
    by (cases "snd p") (auto simp: rules_decide_def rules_result_def)
qed

definition flag_env :: "json \<Rightarrow> json resolution_env" where
  "flag_env beta = example_env (variables_package [(''flag'', flag_variable ''context.beta'' (Select (Ident ''context'') ''beta''))])
     (JObject [(''beta'', beta)])"

theorem first_rule_wins_witness:
  "\<exists>t. trace_variable_unchecked (flag_env (JBool True)) ''flag'' = Some (Inr t)
     \<and> ((list_all (\<lambda>r. holds (flag_env (JBool True)) (rule_when r) None False)
           [bool_rule 0 ''context.beta'' (Select (Ident ''context'') ''beta'')]
         \<and> tr_resolution t = resolved ''flag'' (LiteralValue (JBool False))
         \<and> tr_rules t = map (\<lambda>r. trace_rule r False) [bool_rule 0 ''context.beta'' (Select (Ident ''context'') ''beta'')])
       \<or> (\<exists>before r after. [bool_rule 0 ''context.beta'' (Select (Ident ''context'') ''beta'')] = before @ r # after
         \<and> list_all (\<lambda>r. holds (flag_env (JBool True)) (rule_when r) None False) before
         \<and> holds (flag_env (JBool True)) (rule_when r) None True
         \<and> tr_resolution t = resolved ''flag'' (rule_value r)
         \<and> tr_rules t = map (\<lambda>r. trace_rule r False) before @ [trace_rule r True]))"
proof -
  have "(case trace_variable_unchecked (flag_env (JBool True)) ''flag'' of Some (Inr t) \<Rightarrow> True | _ \<Rightarrow> False)" by code_simp
  then obtain t where t: "trace_variable_unchecked (flag_env (JBool True)) ''flag'' = Some (Inr t)"
    by (auto split: option.splits sum.splits)
  have "map_of (rp_variables (re_runtime (flag_env (JBool True)))) ''flag'' = Some (RulesResolution (LiteralValue (JBool False))
      [bool_rule 0 ''context.beta'' (Select (Ident ''context'') ''beta'')])"
    by (simp add: flag_env_def example_env_def variables_package_def mutual_package_def flag_variable_def)
  from first_rule_wins [OF t this] t show ?thesis by blast
qed

text \<open>Sorting the matches of a query, when their neighbouring keys are comparable,
  permutes them into the order asked for, ascending or descending; entries with equal keys keep
  their order, which a descending query turns around.\<close>

theorem query_sort_stable:
  assumes "sort_keyed txt i descending keyed = Inr out"
  shows "mset out = mset keyed \<and> sorted_wrt (in_order descending) out
    \<and> list_all (\<lambda>p. filter (same_key p) out
        = (if descending then rev (filter (same_key p) keyed) else filter (same_key p) keyed)) keyed"
proof -
  have ok: "check_all (check_pair txt i) (zip keyed (tl keyed)) = Inr ()"
    and out: "out = (if descending then rev (sort_by key_le keyed) else sort_by key_le keyed)"
    using assms by (auto simp: sort_keyed_def rbind_eq_Inr)
  note ordered = sort_by_ordered [OF ok]
  have "sorted_wrt (in_order descending) out"
    using ordered out by (simp add: in_order_def [abs_def] sorted_wrt_rev)
  with sort_keyed_mset [OF assms] ordered out show ?thesis by (simp add: list_all_iff rev_filter [symmetric])
qed

theorem query_sort_stable_witness:
  "let keyed = [(JString ''y'', ''b'', JNull), (JString ''x'', ''a'', JNull), (JString ''y'', ''c'', JNull)] in
   \<exists>out. sort_keyed (\<lambda>_. []) ''v'' True keyed = Inr out \<and> map (fst \<circ> snd) out = [''c'', ''b'', ''a'']
     \<and> mset out = mset keyed"
proof -
  let ?keyed = "[(JString ''y'', ''b'', JNull), (JString ''x'', ''a'', JNull), (JString ''y'', ''c'', JNull)]"
  have "(case sort_keyed (\<lambda>_. []) ''v'' True ?keyed of Inr out \<Rightarrow> map (fst \<circ> snd) out = [''c'', ''b'', ''a''] | _ \<Rightarrow> False)"
    by code_simp
  then obtain out where "sort_keyed (\<lambda>_. []) ''v'' True ?keyed = Inr out" "map (fst \<circ> snd) out = [''c'', ''b'', ''a'']"
    by (auto split: sum.splits)
  with query_sort_stable [of "\<lambda>_. []" "''v''" True ?keyed out] show ?thesis by (auto simp: Let_def)
qed


definition compiled_example :: "int \<Rightarrow> runtime_package" where
  "compiled_example n = (case compile_package [] [] (example_index n) of Inr rt \<Rightarrow> rt | Inl _ \<Rightarrow> mutual_package)"

definition user_env :: "int \<Rightarrow> json resolution_env" where
  "user_env n = example_env (compiled_example n) (JObject [(''user'', JString ''u-1'')])"

lemma user_env_resolves:
  "\<exists>t. trace_variable_unchecked (user_env 10) ''ranked'' = Some (Inr t)"
  "\<exists>q. map_of (rp_variables (re_runtime (user_env 10))) ''ranked'' = Some (QueryResolution q)"
proof -
  have "(case trace_variable_unchecked (user_env 10) ''ranked'' of Some (Inr t) \<Rightarrow> True | _ \<Rightarrow> False)" by code_simp
  then show "\<exists>t. trace_variable_unchecked (user_env 10) ''ranked'' = Some (Inr t)"
    by (auto split: option.splits sum.splits)
  have "(case map_of (rp_variables (re_runtime (user_env 10))) ''ranked'' of Some (QueryResolution q) \<Rightarrow> True | _ \<Rightarrow> False)"
    by code_simp
  then show "\<exists>q. map_of (rp_variables (re_runtime (user_env 10))) ''ranked'' = Some (QueryResolution q)"
    by (auto split: option.splits runtime_resolution.splits)
qed


text \<open>C6 allocation_places_unit: a variable on an allocation enrolls the unit exactly when the allocation
  runs and its eligibility holds. The bucket it then gets is below the layer's number of buckets, and
  the value is the one of the first arm whose range holds the bucket; a unit that is not enrolled,
  or in no arm, gets the default.\<close>

theorem allocation_places_unit:
  assumes "trace_variable_unchecked env i = Some (Inr t)"
    and "map_of (rp_variables (re_runtime env)) i = Some (AllocationResolution a)"
  shows "\<exists>al. tr_allocation t = Some al \<and> at_enrolled al = enrolls env a
    \<and> (case at_bucket al of
         None \<Rightarrow> \<not> enrolls env a \<and> at_arm al = None \<and> tr_resolution t = resolved i (alloc_default a)
       | Some b \<Rightarrow> enrolls env a \<and> b < alloc_buckets a
           \<and> (case List.find (arm_holds b) (alloc_arms a) of
                Some m \<Rightarrow> at_arm al = Some (arm_name m) \<and> tr_resolution t = resolved i (arm_value m)
              | None \<Rightarrow> at_arm al = None \<and> tr_resolution t = resolved i (alloc_default a)))"
proof -
  obtain n t' where t: "resolve_method env (plain_resolver env n) i (AllocationResolution a) () = Some (Inr t', ())"
    "tr_resolution t = tr_resolution t'" "tr_allocation t = tr_allocation t'"
    using assms by (rule plain_trace_of) simp
  then have "resolve_allocation_trace env (plain_resolver env n) i a () = Some (Inr t', ())"
    by (simp add: resolve_method_def)
  then obtain bucket where b: "t' = allocation_result i a bucket" "(bucket \<noteq> None) = enrolls env a"
    "pred_option (\<lambda>b. b < alloc_buckets a) bucket"
    by (rule allocation_trace_parts)
  then show ?thesis
    using t(2,3) by (cases bucket) (auto simp: allocation_result_def Let_def split: option.splits)
qed

lemma enrolled_returns:
  assumes "map_of (rp_variables (re_runtime env)) i = Some (AllocationResolution a)"
    and "alloc_running a" "alloc_eligibility a = None" "alloc_buckets a \<noteq> 0"
    and "evaluate_key env (state_resolver env) (alloc_unit a) None new_state = Some (Inr u, s)"
  shows "\<exists>t. trace_variable_unchecked env i = Some (Inr t)"
  using assms by (simp add: trace_variable_unchecked_def resolve_variable_trace_with_state_def
      find_variable_def resolve_method_def resolve_allocation_trace_def
      evaluate_allocation_eligibility_def and_then_def lift_def ret_def unit_bucket_def allocation_bucket_def)

definition enrolls_plainly :: "json resolution_env \<Rightarrow> string \<Rightarrow> runtime_allocation \<Rightarrow> bool" where
  "enrolls_plainly env i a = (alloc_running a \<and> alloc_eligibility a = None
     \<and> (case evaluate_key env (state_resolver env) (alloc_unit a) None new_state of
          Some (Inr u, s) \<Rightarrow> True | _ \<Rightarrow> False))"

lemma user_env_enrolls:
  assumes "n = 10 \<or> n = 2 ^ 32"
  shows "\<exists>a. map_of (rp_variables (re_runtime (user_env n))) ''color'' = Some (AllocationResolution a)
    \<and> enrolls_plainly (user_env n) ''color'' a"
proof -
  have "(case map_of (rp_variables (re_runtime (user_env 10))) ''color'' of
      Some (AllocationResolution a) \<Rightarrow> enrolls_plainly (user_env 10) ''color'' a | _ \<Rightarrow> False)" by code_simp
  moreover have "(case map_of (rp_variables (re_runtime (user_env (2 ^ 32)))) ''color'' of
      Some (AllocationResolution a) \<Rightarrow> enrolls_plainly (user_env (2 ^ 32)) ''color'' a | _ \<Rightarrow> False)" by code_simp
  ultimately have "(case map_of (rp_variables (re_runtime (user_env n))) ''color'' of
      Some (AllocationResolution a) \<Rightarrow> enrolls_plainly (user_env n) ''color'' a | _ \<Rightarrow> False)"
    using assms by blast
  then show ?thesis by (auto split: option.splits runtime_resolution.splits)
qed

theorem allocation_places_unit_witness:
  "\<exists>t a al b. trace_variable_unchecked (user_env 10) ''color'' = Some (Inr t)
     \<and> map_of (rp_variables (re_runtime (user_env 10))) ''color'' = Some (AllocationResolution a)
     \<and> tr_allocation t = Some al \<and> at_bucket al = Some b \<and> b < alloc_buckets a"
proof -
  obtain a where a: "map_of (rp_variables (re_runtime (user_env 10))) ''color'' = Some (AllocationResolution a)"
    "enrolls_plainly (user_env 10) ''color'' a" using user_env_enrolls [of 10] by auto
  have "(case map_of (rp_variables (re_runtime (user_env 10))) ''color'' of
      Some (AllocationResolution a) \<Rightarrow> alloc_buckets a = 10 | _ \<Rightarrow> False)" by code_simp
  with a(1) have "alloc_buckets a \<noteq> 0" by simp
  then obtain t where t: "trace_variable_unchecked (user_env 10) ''color'' = Some (Inr t)"
    using enrolled_returns [OF a(1)] a(2)
    by (auto simp: enrolls_plainly_def split: option.splits sum.splits prod.splits)
  have "enrolls (user_env 10) a" using a(2) by (simp add: enrolls_plainly_def enrolls_def)
  with allocation_places_unit [OF t a(1)] obtain al b where
    "tr_allocation t = Some al" "at_bucket al = Some b" "b < alloc_buckets a" by (auto split: option.splits)
  with t a(1) show ?thesis by blast
qed

text \<open>A traced resolution that succeeds is the plain one; it is captured exactly when
  the caller asked or some policy of the package holds for the variable, with the trace of that
  resolution and the indices of exactly the policies that hold.\<close>

theorem capture_explains:
  assumes "resolve_variable_traced_unchecked env i app_requested = Some (Inr (r, cap))"
  shows "\<exists>t. trace_variable_unchecked env i = Some (Inr t) \<and> r = tr_resolution t
    \<and> cap = capture_of app_requested t (map fst (filter (\<lambda>p. policy_holds env i (snd p) True)
        (enumerate 0 (rp_trace_policies (re_runtime env)))))"
  using assms by (rule traced_parts) blast

theorem capture_explains_witness:
  "\<exists>t. trace_variable_unchecked (flag_env (JBool True)) ''flag'' = Some (Inr t)
     \<and> resolve_variable_traced_unchecked (flag_env (JBool True)) ''flag'' True
       = Some (Inr (tr_resolution t, Some \<lparr>tc_trace = t, tc_policies = []\<rparr>))"
proof -
  have "(case resolve_variable_traced_unchecked (flag_env (JBool True)) ''flag'' True of
      Some (Inr p) \<Rightarrow> True | _ \<Rightarrow> False)" by code_simp
  then obtain r cap where r: "resolve_variable_traced_unchecked (flag_env (JBool True)) ''flag'' True = Some (Inr (r, cap))"
    by (auto split: option.splits sum.splits)
  have "rp_trace_policies (re_runtime (flag_env (JBool True))) = []"
    by (simp add: flag_env_def example_env_def variables_package_def mutual_package_def)
  with capture_explains [OF r] r show ?thesis by (auto simp: capture_of_def)
qed

text \<open>The number of buckets of a layer is cut to its low 32 bits, so a layer
  that declares a multiple of \<open>2 ^ 32\<close> buckets compiles to a line of none; enrolling any unit
  on it then divides by zero and panics instead of returning an error.\<close>

theorem empty_bucket_line_panics:
  assumes "compile_allocation_body ix vn kind dfl assigns name ly al = Inr (AllocationResolution a)"
    and "ly_buckets ly = Present (2 ^ 32 * k)" "alloc_running a" "alloc_eligibility a = None"
    and "map_of (rp_variables (re_runtime env)) i = Some (AllocationResolution a)"
    and "evaluate_key env (state_resolver env) (alloc_unit a) None new_state = Some (Inr u, s)"
  shows "trace_variable_unchecked env i = Some (Inl Panicked)"
proof -
  obtain b where b: "layer_buckets ly = Inr b" "alloc_buckets a = b"
    using assms(1) by (elim compile_allocation_parts) auto
  have "of_int (2 ^ 32 * k) = ((2 :: 32 word) ^ 32) * of_int k" by (simp only: of_int_mult of_int_power of_int_numeral)
  also have "(2 :: 32 word) ^ 32 = 0" by simp
  finally have "b = 0"
    using b(1) assms(2) by (simp add: layer_buckets_def err_def split: if_splits)
  with b assms(3-6) show ?thesis
    by (simp add: trace_variable_unchecked_def resolve_variable_trace_with_state_def find_variable_def
        resolve_method_def resolve_allocation_trace_def evaluate_allocation_eligibility_def and_then_def
        lift_def ret_def unit_bucket_def allocation_bucket_def)
qed

theorem empty_bucket_line_panics_witness:
  "trace_variable_unchecked (user_env (2 ^ 32)) ''color'' = Some (Inl Panicked)"
proof -
  let ?c = "compile_allocation_body (example_index (2 ^ 32)) (snd color_variable) (KPrimitive ''string'')
      (Present (JString ''grey'')) example_assigns ''color_test'' (example_layer (2 ^ 32))
      (hd (ly_allocations (example_layer (2 ^ 32))))"
  obtain a where a: "map_of (rp_variables (re_runtime (user_env (2 ^ 32)))) ''color'' = Some (AllocationResolution a)"
    "enrolls_plainly (user_env (2 ^ 32)) ''color'' a" using user_env_enrolls [of "2 ^ 32"] by auto
  have "(case map_of (rp_variables (re_runtime (user_env (2 ^ 32)))) ''color'' of
      Some r \<Rightarrow> ?c = Inr r | None \<Rightarrow> False)" by code_simp
  with a(1) have c: "?c = Inr (AllocationResolution a)" by simp
  have ly: "ly_buckets (example_layer (2 ^ 32)) = Present (2 ^ 32 * 1)" by (simp add: example_layer_def)
  from a(2) obtain u s where "evaluate_key (user_env (2 ^ 32)) (state_resolver (user_env (2 ^ 32))) (alloc_unit a) None
      new_state = Some (Inr u, s)" "alloc_running a" "alloc_eligibility a = None"
    by (auto simp: enrolls_plainly_def split: option.splits sum.splits prod.splits)
  with empty_bucket_line_panics [OF c ly _ _ a(1)] show ?thesis by blast
qed

end
