(* ===== verification/Composition.thy ===== *)
theory Composition
  imports Governance
begin

text \<open>
  How one file of a layer lands on the projection of the layers below
  (src/src/source/layer/compose.rs): the classification of a file by its path, the
  ids and stems that paths name, the deep merge of catalog entries, the composition
  of list members and the restricted merge of a variable update. A package-relative
  path is the list of its components. Parsing and printing TOML are parameters.
\<close>

section \<open>Paths and the ids they name\<close>

type_synonym path = "string list"

definition show_path :: "path \<Rightarrow> string" where
  "show_path p = join_with ''/'' p"

text \<open>
  \<open>Path::extension\<close> is \<open>toml\<close> when the file name ends in \<open>.toml\<close> with something before it.
\<close>

definition toml_stem :: "string \<Rightarrow> string option" where
  "toml_stem file = (case strip_suffix ''.toml'' file of
     None \<Rightarrow> None | Some s \<Rightarrow> if s = [] then None else Some s)"

definition without_update :: "string \<Rightarrow> string" where
  "without_update s = (case strip_suffix ''.update'' s of Some r \<Rightarrow> r | None \<Rightarrow> s)"

definition variable_id_for_relative :: "path \<Rightarrow> string option" where
  "variable_id_for_relative relative =
     (case relative of
        first # rest \<Rightarrow>
          if first \<noteq> ''variables'' \<or> rest = [] then None
          else (case toml_stem (last rest) of
                  None \<Rightarrow> None
                | Some s \<Rightarrow> Some (without_update (show_path (butlast rest @ [s]))))
      | [] \<Rightarrow> None)"

definition file_stem_of :: "string \<Rightarrow> string" where
  "file_stem_of file =
     without_update (case strip_suffix ''.toml'' file of Some s \<Rightarrow> s | None \<Rightarrow> file)"

section \<open>Classification\<close>

datatype layer_file_composition =
    Replace
  | CatalogEntryDeleted string
  | CatalogEntryUpdate string
  | VariableUpdate
  | VariableRestate
  | ListUpdate
  | ListRestate

definition classify_layer_file :: "path \<Rightarrow> string \<Rightarrow> bool \<Rightarrow> layer_file_composition" where
  "classify_layer_file relative file target_exists =
     (if 4 \<le> length relative \<and> take 2 relative = [''data'', ''catalogs''] then
        (case strip_suffix ''.deleted.toml'' file of
           Some entry \<Rightarrow> CatalogEntryDeleted entry
         | None \<Rightarrow>
             (case strip_suffix ''.update.toml'' file of
                Some entry \<Rightarrow> CatalogEntryUpdate entry
              | None \<Rightarrow> Replace))
      else if 2 \<le> length relative \<and> hd relative = ''variables'' \<and> ends_with ''.update.toml'' file
        then VariableUpdate
      else if 2 \<le> length relative \<and> hd relative = ''variables'' \<and> target_exists
              \<and> ends_with ''.toml'' file
        then VariableRestate
      else if 2 \<le> length relative \<and> hd relative = ''lists'' \<and> ends_with ''.update.toml'' file
        then ListUpdate
      else if 2 \<le> length relative \<and> hd relative = ''lists'' \<and> target_exists
              \<and> ends_with ''.toml'' file
        then ListRestate
      else Replace)"

section \<open>Deep merge of a catalog entry\<close>

text \<open>The \<open>for\<close> loop over the update's table is a fold over its bindings in key order.\<close>

function (sequential) deep_merge_toml :: "toml \<Rightarrow> toml \<Rightarrow> toml" where
  "deep_merge_toml (TTable b) (TTable u) =
     TTable (fold (\<lambda>kv acc. case map_of acc (fst kv) of
                Some existing \<Rightarrow> bm_insert (fst kv) (deep_merge_toml existing (snd kv)) acc
              | None \<Rightarrow> bm_insert (fst kv) (snd kv) acc) u b)"
| "deep_merge_toml b u = u"
  by pat_completeness auto

lemma size_table_entry: "kv \<in> set t \<Longrightarrow> size (snd kv) < size (TTable t)"
  by (induction t) auto

lemma size_map_entry_toml: "map_of t k = Some v \<Longrightarrow> size v < size (TTable t)"
  using size_table_entry [OF map_of_SomeD] by force

termination deep_merge_toml
  by (relation "measure (size \<circ> snd)") (auto dest: size_table_entry)

text \<open>What a TOML document is: every table in it is in key order.\<close>

fun toml_wf :: "toml \<Rightarrow> bool" where
  "toml_wf (TArray xs) = list_all toml_wf xs"
| "toml_wf (TTable t) = (bm_inv t \<and> list_all (\<lambda>kv. toml_wf (snd kv)) t)"
| "toml_wf _ = True"

definition merge_value :: "toml option \<Rightarrow> toml option \<Rightarrow> toml option" where
  "merge_value b u =
     (case u of None \<Rightarrow> b
      | Some v \<Rightarrow> Some (case b of None \<Rightarrow> v | Some e \<Rightarrow> deep_merge_toml e v))"

definition merge_step :: "string \<times> toml \<Rightarrow> toml smap \<Rightarrow> toml smap" where
  "merge_step kv acc = (case map_of acc (fst kv) of
     Some existing \<Rightarrow> bm_insert (fst kv) (deep_merge_toml existing (snd kv)) acc
   | None \<Rightarrow> bm_insert (fst kv) (snd kv) acc)"

lemma deep_merge_tables: "deep_merge_toml (TTable b) (TTable u) = TTable (fold merge_step u b)"
  by (simp add: merge_step_def [abs_def])

lemma deep_merge_replaces:
  "as_table b = None \<or> as_table u = None \<Longrightarrow> deep_merge_toml b u = u"
  by (cases b; cases u) auto

lemma map_of_merge_step:
  "map_of (merge_step (k, v) acc) = (map_of acc)(k := merge_value (map_of acc k) (Some v))"
  by (simp add: merge_step_def merge_value_def map_of_bm_insert split: option.splits)

lemma bm_inv_merge: "bm_inv b \<Longrightarrow> bm_inv (fold merge_step u b)"
  by (induction u arbitrary: b) (auto simp: merge_step_def bm_inv_insert split: option.splits)

lemma map_of_merge_other: "k \<notin> fst ` set u \<Longrightarrow> map_of (fold merge_step u b) k = map_of b k"
proof (induction u arbitrary: b)
  case (Cons kv u)
  then show ?case by (cases kv) (simp add: map_of_merge_step)
qed simp

lemma map_of_merge:
  "distinct (map fst u) \<Longrightarrow> map_of (fold merge_step u b) k = merge_value (map_of b k) (map_of u k)"
proof (induction u arbitrary: b)
  case Nil
  then show ?case by (simp add: merge_value_def)
next
  case (Cons kv u)
  obtain k' v where kv: "kv = (k', v)" by (cases kv)
  show ?case
  proof (cases "k = k'")
    case True
    with Cons.prems kv have "k \<notin> fst ` set u" by auto
    then show ?thesis using True kv by (simp add: map_of_merge_other map_of_merge_step)
  next
    case False
    then show ?thesis using Cons kv by (simp add: map_of_merge_step)
  qed
qed

text \<open>An ordered map is determined by its lookups.\<close>

lemma bm_ext:
  fixes m :: "('k::linorder, 'v) bmap"
  assumes "bm_inv m" "bm_inv n" "map_of m = map_of n"
  shows "m = n"
proof -
  have "set m = set n"
    using assms bm_inv_distinct map_of_inject_set by blast
  moreover have "inj_on fst (set m \<union> set n)"
    using \<open>set m = set n\<close> bm_inv_distinct [OF assms(1)] by (simp add: distinct_map)
  ultimately show ?thesis
    using assms(1,2) by (intro map_sorted_distinct_set_unique [of fst])
      (auto simp: bm_inv_def strict_sorted_iff)
qed

lemma toml_wf_table: "toml_wf (TTable t) \<Longrightarrow> map_of t k = Some v \<Longrightarrow> toml_wf v"
  using map_of_SomeD [of t k v] by (force simp: list_all_iff)

lemma toml_wf_distinct: "toml_wf (TTable t) \<Longrightarrow> distinct (map fst t)"
  by (simp add: bm_inv_distinct)

lemma toml_wf_tableI:
  assumes "bm_inv t" "\<And>k v. map_of t k = Some v \<Longrightarrow> toml_wf v"
  shows "toml_wf (TTable t)"
  using assms bm_inv_distinct [OF assms(1)] by (auto simp: list_all_iff)

lemma merge_tables_get:
  "toml_wf (TTable u) \<Longrightarrow>
   map_of (fold merge_step u b) k = merge_value (map_of b k) (map_of u k)"
  by (simp only: map_of_merge toml_wf_distinct)

lemma merge_value_wf:
  "toml_wf v \<Longrightarrow> (\<And>e. toml_wf e \<Longrightarrow> toml_wf (deep_merge_toml e v)) \<Longrightarrow>
   (\<And>e. b = Some e \<Longrightarrow> toml_wf e) \<Longrightarrow> merge_value b (Some v) = Some w \<Longrightarrow> toml_wf w"
  by (auto simp: merge_value_def split: option.splits)

lemma deep_merge_wf: "toml_wf b \<Longrightarrow> toml_wf u \<Longrightarrow> toml_wf (deep_merge_toml b u)"
proof (induction u arbitrary: b rule: measure_induct_rule [of size])
  case (less u)
  show ?case
  proof (cases "as_table b = None \<or> as_table u = None")
    case True
    then show ?thesis using less.prems by (simp add: deep_merge_replaces)
  next
    case False
    then obtain bt ut where t: "b = TTable bt" "u = TTable ut" by auto
    have "toml_wf v" if "map_of (fold merge_step ut bt) k = Some v" for k v
    proof (cases "map_of ut k")
      case None
      then have "map_of bt k = Some v"
        using that less.prems t by (simp only: merge_tables_get) (simp add: merge_value_def)
      then show ?thesis using less.prems t toml_wf_table by blast
    next
      case (Some w)
      then have "merge_value (map_of bt k) (Some w) = Some v"
        using that less.prems t by (simp only: merge_tables_get)
      moreover have "toml_wf w" "\<And>e. toml_wf e \<Longrightarrow> toml_wf (deep_merge_toml e w)"
        using less Some t size_map_entry_toml toml_wf_table by blast+
      ultimately show ?thesis
        using less.prems t toml_wf_table by (metis merge_value_wf)
    qed
    moreover have "bm_inv (fold merge_step ut bt)"
      using less.prems t by (simp add: bm_inv_merge)
    ultimately have "toml_wf (TTable (fold merge_step ut bt))"
      by (intro toml_wf_tableI)
    then show ?thesis unfolding t deep_merge_tables .
  qed
qed

lemma deep_merge_self: "toml_wf v \<Longrightarrow> deep_merge_toml v v = v"
proof (induction v rule: measure_induct_rule [of size])
  case (less v)
  show ?case
  proof (cases "as_table v")
    case (Some t)
    have "map_of (fold merge_step t t) k = map_of t k" for k
      using less Some size_map_entry_toml [of t k] toml_wf_table [of t k]
      by (auto simp add: merge_tables_get merge_value_def simp del: toml_wf.simps split: option.splits)
    then have "fold merge_step t t = t"
      using less.prems Some by (intro bm_ext) (auto simp: bm_inv_merge fun_eq_iff)
    then show ?thesis using Some by (simp add: deep_merge_tables del: deep_merge_toml.simps)
  qed (simp add: deep_merge_replaces)
qed

lemma deep_merge_idem:
  "toml_wf b \<Longrightarrow> toml_wf u \<Longrightarrow> deep_merge_toml (deep_merge_toml b u) u = deep_merge_toml b u"
proof (induction u arbitrary: b rule: measure_induct_rule [of size])
  case (less u)
  show ?case
  proof (cases "as_table b = None \<or> as_table u = None")
    case True
    then show ?thesis using less.prems by (simp add: deep_merge_replaces deep_merge_self)
  next
    case False
    then obtain bt ut where t: "b = TTable bt" "u = TTable ut" by auto
    let ?m = "fold merge_step ut bt"
    have "map_of (fold merge_step ut ?m) k = map_of ?m k" for k
    proof (cases "map_of ut k")
      case None
      then show ?thesis using less.prems t by (simp only: merge_tables_get) (simp add: merge_value_def)
    next
      case (Some v)
      have v: "size v < size u" "toml_wf v"
        using Some t less.prems size_map_entry_toml toml_wf_table by blast+
      have "merge_value (merge_value (map_of bt k) (Some v)) (Some v) = merge_value (map_of bt k) (Some v)"
      proof (cases "map_of bt k")
        case None
        with v show ?thesis by (simp add: merge_value_def deep_merge_self)
      next
        case (Some e)
        moreover from this have "toml_wf e" using t less.prems toml_wf_table by blast
        ultimately show ?thesis using less.IH v by (simp add: merge_value_def)
      qed
      then show ?thesis using less.prems t Some by (simp only: merge_tables_get)
    qed
    then have "fold merge_step ut ?m = ?m"
      using less.prems t by (intro bm_ext) (auto simp: bm_inv_merge fun_eq_iff)
    then show ?thesis using t by (simp add: deep_merge_tables del: deep_merge_toml.simps)
  qed
qed

text \<open>
  Reading a document along a path of keys, and whether an update says anything about
  a path: a value there, or something that is no table on the way.
\<close>

fun toml_at :: "toml \<Rightarrow> string list \<Rightarrow> toml option" where
  "toml_at v [] = Some v"
| "toml_at v (k # ks) = (case toml_get v k of None \<Rightarrow> None | Some x \<Rightarrow> toml_at x ks)"

lemma toml_get_table: "as_table v = Some t \<Longrightarrow> toml_get v k = map_of t k"
  by simp

fun mentions :: "toml \<Rightarrow> string list \<Rightarrow> bool" where
  "mentions v [] = True"
| "mentions v (k # ks) =
     (case as_table v of
        None \<Rightarrow> True
      | Some t \<Rightarrow> (case map_of t k of None \<Rightarrow> False | Some x \<Rightarrow> mentions x ks))"

definition inherits :: "toml \<Rightarrow> toml option \<Rightarrow> toml" where
  "inherits v b = (case b of None \<Rightarrow> v | Some e \<Rightarrow> deep_merge_toml e v)"

lemma unmentioned: "\<not> mentions v ks \<Longrightarrow> toml_at v ks = None"
  by (induction v ks rule: mentions.induct) (auto simp: toml_get_table split: option.splits)

lemma deep_merge_at:
  "toml_wf u \<Longrightarrow> toml_at (deep_merge_toml b u) ks =
     (if mentions u ks then map_option (\<lambda>v. inherits v (toml_at b ks)) (toml_at u ks)
      else toml_at b ks)"
proof (induction ks arbitrary: b u)
  case Nil
  then show ?case by (simp add: inherits_def)
next
  case (Cons k ks)
  consider bt ut where "b = TTable bt" "u = TTable ut"
    | "as_table u = None" | ut where "as_table b = None" "u = TTable ut"
    by (cases b; cases u) auto
  then show ?case
  proof cases
    case 1
    then show ?thesis
      using Cons toml_wf_table [of ut k]
      by (auto simp add: deep_merge_tables merge_tables_get merge_value_def inherits_def
          unmentioned option.map_ident simp del: toml_wf.simps deep_merge_toml.simps split: option.splits)
  next
    case 2
    then show ?thesis by (cases u) (auto simp: deep_merge_replaces)
  next
    case 3
    then have "toml_get b k = None" by (cases b) auto
    with 3 show ?thesis
      by (auto simp: deep_merge_replaces inherits_def unmentioned option.map_ident split: option.splits)
  qed
qed

section \<open>List members\<close>

definition push_member :: "toml \<Rightarrow> toml list \<Rightarrow> toml list" where
  "push_member member members =
     (if toml_contains members member then members else members @ [member])"

definition union_members :: "toml list \<Rightarrow> toml list \<Rightarrow> toml list" where
  "union_members added base = fold push_member added base"

text \<open>\<open>position\<close> and \<open>Vec::remove\<close> together: the list without the first equal member.\<close>

fun remove_member :: "toml \<Rightarrow> toml list \<Rightarrow> toml list option" where
  "remove_member v [] = None"
| "remove_member v (m # ms) =
     (if toml_eq m v then Some ms else map_option ((#) m) (remove_member v ms))"

fun remove_members ::
  "(toml \<Rightarrow> string) \<Rightarrow> path \<Rightarrow> toml list option \<Rightarrow> toml list \<Rightarrow> toml list \<Rightarrow> toml list res"
  where
  "remove_members show relative added [] members = Inr members"
| "remove_members show relative added (v # deleted) members =
     (if (case added of None \<Rightarrow> False | Some ms \<Rightarrow> toml_contains ms v) then
        err (''package both adds list member '' @ show v @ '' and deletes it: '' @ show_path relative)
      else (case remove_member v members of
              None \<Rightarrow> err (''deleted list member is not in the base packages: '' @ show v
                           @ '' ('' @ show_path relative @ '')'')
            | Some ms \<Rightarrow> remove_members show relative added deleted ms))"

definition deleted_values :: "path \<Rightarrow> toml smap \<Rightarrow> toml list option res" where
  "deleted_values relative overlay =
     (case map_of overlay ''deleted'' of
        None \<Rightarrow> Inr None
      | Some (TArray values) \<Rightarrow> Inr (Some values)
      | Some _ \<Rightarrow> err (''deleted list members must be an array: '' @ show_path relative))"

definition compose_list_members :: "(toml \<Rightarrow> string) \<Rightarrow> toml \<Rightarrow> toml \<Rightarrow> path \<Rightarrow> toml res" where
  "compose_list_members show base overlay relative =
     (case (base, overlay) of
        (TTable base_table, TTable overlay_table) \<Rightarrow>
          (let added = Option.bind (map_of overlay_table ''members'') toml_as_array in
           rbind (deleted_values relative overlay_table) (\<lambda>deleted.
             case Option.bind (map_of base_table ''members'') toml_as_array of
               None \<Rightarrow>
                 if deleted \<noteq> None then
                   err (''deleted list members have no member set to remove in the base packages: ''
                        @ show_path relative)
                 else Inr (TTable (case map_of overlay_table ''members'' of
                             Some members \<Rightarrow> bm_insert ''members'' members base_table
                           | None \<Rightarrow> base_table))
             | Some base_members \<Rightarrow>
                 let united = union_members (case added of None \<Rightarrow> [] | Some ms \<Rightarrow> ms) base_members in
                 rbind (case deleted of
                          None \<Rightarrow> Inr united
                        | Some values \<Rightarrow>
                            rbind (remove_members show relative added values united) (\<lambda>ms.
                              if ms = [] then
                                err (''deleting these members leaves the list with no members: ''
                                     @ show_path relative)
                              else Inr ms))
                   (\<lambda>ms. Inr (TTable (bm_insert ''members'' (TArray ms) base_table)))))
      | _ \<Rightarrow> Inr base)"

section \<open>Keys an update may carry\<close>

definition list_update_keys :: "path \<Rightarrow> toml \<Rightarrow> unit res" where
  "list_update_keys relative overlay =
     (case as_table overlay of
        None \<Rightarrow> Inr ()
      | Some t \<Rightarrow>
          check_all (\<lambda>key.
            if key \<notin> {''members'', ''deleted'', ''description''}
            then err (''a list update may only update members, deleted, and description; ''
                      @ show_path relative @ '' sets '' @ quoted key)
            else Inr ()) (map fst t))"

definition with_description :: "toml \<Rightarrow> toml \<Rightarrow> toml" where
  "with_description base overlay =
     (case (base, overlay) of
        (TTable base_table, TTable overlay_table) \<Rightarrow>
          (case map_of overlay_table ''description'' of
             Some d \<Rightarrow> TTable (bm_insert ''description'' d base_table)
           | None \<Rightarrow> base)
      | _ \<Rightarrow> base)"

definition variable_update_keys :: "path \<Rightarrow> toml smap \<Rightarrow> unit res" where
  "variable_update_keys relative update =
     check_all (\<lambda>key.
       if key \<noteq> ''resolve'' \<and> key \<noteq> ''description''
       then err (''a variable update may only update [resolve] and description; ''
                 @ show_path relative @ '' declares '' @ key @ '', which stays with the base'')
       else Inr ()) (map fst update)"

definition merge_variable :: "toml \<Rightarrow> toml smap \<Rightarrow> toml" where
  "merge_variable base update =
     (case as_table base of
        None \<Rightarrow> base
      | Some t \<Rightarrow> TTable (bm_extend t update))"

section \<open>What composing gives\<close>

definition first_occurrences :: "'a list \<Rightarrow> 'a list" where
  "first_occurrences xs = rev (remdups (rev xs))"

lemma first_occurrences_snoc:
  "first_occurrences (xs @ [x]) =
     (if x \<in> set xs then first_occurrences xs else first_occurrences xs @ [x])"
  by (simp add: first_occurrences_def)

lemma set_first_occurrences [simp]: "set (first_occurrences xs) = set xs"
  by (simp add: first_occurrences_def)

lemma distinct_first_occurrences [simp]: "distinct (first_occurrences xs)"
  by (simp add: first_occurrences_def)

lemma union_members_eq:
  "\<forall>x \<in> set added. \<not> has_nan x \<Longrightarrow>
   union_members added ms = ms @ filter (\<lambda>x. x \<notin> set ms) (first_occurrences added)"
proof (induction added rule: rev_induct)
  case Nil
  then show ?case by (simp add: union_members_def first_occurrences_def)
next
  case (snoc x xs)
  then show ?case
    by (auto simp: union_members_def push_member_def toml_contains_iff first_occurrences_snoc)
qed

lemma remove_member_eq:
  "remove_member v ms = (if v \<in> set ms \<and> \<not> has_nan v then Some (remove1 v ms) else None)"
  by (induction ms) (auto simp: toml_eq_def)

lemma remove_members_Inr:
  assumes "distinct members"
  shows "remove_members show relative added deleted members = Inr r \<longleftrightarrow>
    (\<forall>v \<in> set deleted. \<not> has_nan v \<and> (\<forall>ms. added = Some ms \<longrightarrow> v \<notin> set ms)) \<and> distinct deleted
    \<and> set deleted \<subseteq> set members \<and> r = filter (\<lambda>m. m \<notin> set deleted) members"
  using assms
proof (induction deleted arbitrary: members)
  case (Cons v deleted)
  have "filter (\<lambda>m. m \<notin> set deleted) (remove1 v members) = filter (\<lambda>m. m \<notin> set (v # deleted)) members"
    using Cons.prems
    by (auto simp: distinct_remove1_removeAll removeAll_filter_not_eq intro!: filter_cong)
  moreover have "set deleted \<subseteq> set (remove1 v members) \<longleftrightarrow> v \<notin> set deleted \<and> set deleted \<subseteq> set members"
    using Cons.prems by auto
  ultimately show ?case
    using Cons.IH [of "remove1 v members"] Cons.prems
    by (auto simp: remove_member_eq toml_contains_iff distinct_remove1 split: option.splits)
qed auto


definition example_entry :: toml where
  "example_entry = TTable [(''a'', TTable [(''x'', TInteger 1), (''y'', TInteger 2)]), (''b'', TBoolean True)]"

definition example_update :: toml where
  "example_update = TTable [(''a'', TTable [(''y'', TInteger 3)]), (''c'', TArray [])]"


text \<open>C15 list_members_compose: composing a list update over a base list without repeated members
  succeeds exactly when what it deletes is a set of base members that it does not also add and that
  are not all there is; the result is the base's members, then the new ones in the order written,
  without the deleted ones.\<close>

theorem list_members_compose:
  assumes base: "map_of b ''members'' = Some (TArray ms)" "distinct ms"
    and added: "added = Option.bind (map_of u ''members'') toml_as_array"
      "new = (case added of None \<Rightarrow> [] | Some xs \<Rightarrow> xs)" "\<forall>x \<in> set new. \<not> has_nan x"
    and deleted: "map_of u ''deleted'' = map_option TArray removed"
      "gone = (case removed of None \<Rightarrow> [] | Some xs \<Rightarrow> xs)"
      "members = filter (\<lambda>m. m \<notin> set gone) (ms @ filter (\<lambda>x. x \<notin> set ms) (first_occurrences new))"
  shows "compose_list_members show (TTable b) (TTable u) relative = Inr r \<longleftrightarrow>
    set gone \<subseteq> set ms \<and> set gone \<inter> set new = {} \<and> distinct gone \<and> (\<forall>v \<in> set gone. \<not> has_nan v)
    \<and> (removed \<noteq> None \<longrightarrow> members \<noteq> []) \<and> r = TTable (bm_insert ''members'' (TArray members) b)"
proof -
  let ?u = "union_members new ms"
  have united: "?u = ms @ filter (\<lambda>x. x \<notin> set ms) (first_occurrences new)" "distinct ?u"
    using added(3) base(2) by (auto simp: union_members_eq)
  have none: "(\<forall>xs. added = Some xs \<longrightarrow> v \<notin> set xs) \<longleftrightarrow> v \<notin> set new" for v
    using added(2) by (cases added) auto
  have run: "compose_list_members show (TTable b) (TTable u) relative =
    rbind (case removed of None \<Rightarrow> Inr ?u | Some values \<Rightarrow>
        rbind (remove_members show relative added values ?u) (\<lambda>ms. if ms = [] then
          err (''deleting these members leaves the list with no members: '' @ show_path relative)
          else Inr ms))
      (\<lambda>ms. Inr (TTable (bm_insert ''members'' (TArray ms) b)))"
    using base(1) added(1,2) deleted(1)
    by (cases removed) (simp_all add: compose_list_members_def deleted_values_def Let_def)
  show ?thesis
  proof (cases removed)
    case None
    then show ?thesis using deleted(2,3) united by (auto simp: run)
  next
    case (Some ds)
    have ds: "gone = ds" using Some deleted(2) by simp
    have "(\<exists>xs. remove_members show relative added ds ?u = Inr xs \<and> xs \<noteq> []
        \<and> r = TTable (bm_insert ''members'' (TArray xs) b)) \<longleftrightarrow>
      (\<forall>v \<in> set ds. \<not> has_nan v \<and> v \<notin> set new) \<and> distinct ds \<and> set ds \<subseteq> set ?u \<and> members \<noteq> []
      \<and> r = TTable (bm_insert ''members'' (TArray members) b)"
      using united deleted(3) ds by (simp add: remove_members_Inr none)
    moreover have "set ?u = set ms \<union> set new" using united by auto
    ultimately show ?thesis
      using Some ds by (auto simp: run rbind_eq_Inr split: if_splits)
  qed
qed

theorem list_members_compose_witness:
  "compose_list_members (\<lambda>_. [])
     (TTable [(''members'', TArray [TString ''a'', TString ''b''])])
     (TTable [(''deleted'', TArray [TString ''a'']), (''members'', TArray [TString ''c'', TString ''b''])]) []
   = Inr (TTable [(''members'', TArray [TString ''b'', TString ''c''])])"
proof -
  let ?b = "[(''members'', TArray [TString ''a'', TString ''b''])]"
  let ?u = "[(''deleted'', TArray [TString ''a'']), (''members'', TArray [TString ''c'', TString ''b''])]"
  have "compose_list_members (\<lambda>_. []) (TTable ?b) (TTable ?u) [] =
      Inr (TTable (bm_insert ''members'' (TArray [TString ''b'', TString ''c'']) ?b))"
    by (subst list_members_compose [of ?b "[TString ''a'', TString ''b'']"
          "Some [TString ''c'', TString ''b'']" ?u "[TString ''c'', TString ''b'']"
          "Some [TString ''a'']" "[TString ''a'']" "[TString ''b'', TString ''c'']"])
      (simp_all add: first_occurrences_def)
  then show ?thesis by simp
qed

end
