(* ===== verification/Layering.thy ===== *)
theory Layering
  imports Composition
begin

text \<open>
  Laying the files of one layer on the projection of the layers below it:
  the governance check of every file (src/src/source/layer/enforce.rs), the provenance
  sidecar and the sibling bases (src/src/source/layer/provenance.rs), and the
  recursive copy with its composition rules (src/src/source/layer/compose.rs).
  The layer is the tree read from disk; the projection is a map from paths to file
  contents with the set of its directories. The crates that parse and print TOML and
  the sidecar, and the texts of their errors, are fields of one record.
\<close>

section \<open>Files\<close>

datatype node = File string | Directory "(string \<times> node) list" | Other

text \<open>
  A directory holds its entries under their names, in the order of the names: what
  \<open>read_dir\<close> and \<open>sort_by_key\<close> give. \<open>Other\<close> is an entry that is neither file nor
  directory, such as a socket; reading it fails.
\<close>

type_synonym entries = "(string \<times> node) list"

fun node_at :: "node \<Rightarrow> path \<Rightarrow> node option" where
  "node_at n [] = Some n"
| "node_at (Directory es) (x # xs) =
     (case map_of es x of None \<Rightarrow> None | Some n \<Rightarrow> node_at n xs)"
| "node_at _ (x # xs) = None"

definition content :: "node \<Rightarrow> string option" where
  "content n = (case n of File t \<Rightarrow> Some t | _ \<Rightarrow> None)"

definition layer_file :: "entries \<Rightarrow> path \<Rightarrow> string option" where
  "layer_file layer p = Option.bind (node_at (Directory layer) p) content"

record codec =
  parse_toml :: "string \<Rightarrow> string + toml"
  print_toml :: "toml \<Rightarrow> string + string"
  show_toml :: "toml \<Rightarrow> string"
  parse_sidecar :: "string \<Rightarrow> string smap option"
  print_sidecar :: "string smap \<Rightarrow> string"
  read_error :: string

record disk =
  files :: "path \<Rightarrow> string option"
  dirs :: "path \<Rightarrow> bool"

definition is_file :: "disk \<Rightarrow> path \<Rightarrow> bool" where
  "is_file d p = (files d p \<noteq> None)"

definition write_file :: "path \<Rightarrow> string \<Rightarrow> disk \<Rightarrow> disk" where
  "write_file p t d = d\<lparr>files := (files d)(p \<mapsto> t)\<rparr>"

definition remove_file :: "path \<Rightarrow> disk \<Rightarrow> disk" where
  "remove_file p d = d\<lparr>files := (files d)(p := None)\<rparr>"

definition below :: "path \<Rightarrow> path \<Rightarrow> bool" where
  "below p q = (take (length p) q = p)"

definition remove_dir_all :: "path \<Rightarrow> disk \<Rightarrow> disk" where
  "remove_dir_all p d =
     d\<lparr>files := (\<lambda>q. if below p q then None else files d q),
       dirs := (\<lambda>q. \<not> below p q \<and> dirs d q)\<rparr>"

definition create_dir_all :: "path \<Rightarrow> disk \<Rightarrow> disk" where
  "create_dir_all p d = d\<lparr>dirs := (\<lambda>q. below q p \<or> dirs d q)\<rparr>"

definition file_identical :: "string option \<Rightarrow> string option \<Rightarrow> bool" where
  "file_identical left right = (left \<noteq> None \<and> left = right)"

definition read_layer_toml :: "codec \<Rightarrow> string \<Rightarrow> string option \<Rightarrow> toml res" where
  "read_layer_toml cod shown text =
     (case text of
        None \<Rightarrow> err (''failed to read package source file '' @ shown @ '': '' @ read_error cod)
      | Some t \<Rightarrow>
          (case parse_toml cod t of
             Inl e \<Rightarrow> err (''failed to parse package source file '' @ shown @ '': '' @ e)
           | Inr v \<Rightarrow> Inr v))"

definition write_layer_toml :: "codec \<Rightarrow> path \<Rightarrow> toml \<Rightarrow> disk \<Rightarrow> disk res" where
  "write_layer_toml cod p value d =
     (case print_toml cod value of
        Inl e \<Rightarrow> err (''failed to serialize composed file: '' @ e)
      | Inr text \<Rightarrow> Inr (write_file p text d))"

text \<open>
  One layer being laid: its tree, the directory it and the projection live in (for the
  texts of errors only), its label and what its own sidecar says.
\<close>

record layer_source =
  tree :: entries
  source_dir :: string
  target_dir :: string
  label :: string
  nested :: "string smap"

definition shown_source :: "layer_source \<Rightarrow> path \<Rightarrow> string" where
  "shown_source ls p = source_dir ls @ ''/'' @ show_path p"

definition shown_target :: "layer_source \<Rightarrow> path \<Rightarrow> string" where
  "shown_target ls p = target_dir ls @ ''/'' @ show_path p"

definition sibling :: "path \<Rightarrow> string \<Rightarrow> path" where
  "sibling p name = butlast p @ [name]"

section \<open>Provenance\<close>

definition provenance_file :: string where
  "provenance_file = ''.rototo-provenance.json''"

definition package_manifest :: string where
  "package_manifest = ''rototo-package.toml''"

definition read_provenance :: "codec \<Rightarrow> string option \<Rightarrow> string smap" where
  "read_provenance cod text =
     (case Option.bind text (parse_sidecar cod) of None \<Rightarrow> [] | Some m \<Rightarrow> m)"

definition write_provenance :: "codec \<Rightarrow> string smap \<Rightarrow> disk \<Rightarrow> disk" where
  "write_provenance cod m d = write_file [provenance_file] (print_sidecar cod m) d"

definition record_variable :: "layer_source \<Rightarrow> string \<Rightarrow> string smap \<Rightarrow> string smap" where
  "record_variable ls i recorded =
     bm_insert i (case map_of (nested ls) i of Some l \<Rightarrow> l | None \<Rightarrow> label ls) recorded"

section \<open>Sibling bases\<close>

definition namespaced :: "path \<Rightarrow> string \<Rightarrow> string option" where
  "namespaced parts suffix =
     (case strip_suffix suffix (show_path parts) of
        None \<Rightarrow> None
      | Some i \<Rightarrow> if i = [] \<or> last i = CHR ''/'' then None else Some i)"

definition sibling_entity :: "path \<Rightarrow> string option" where
  "sibling_entity p =
     (if 2 \<le> length p \<and> take 2 p = [''model'', ''catalogs''] then
        map_option (\<lambda>i. ''catalog '' @ i @ '' schema'') (namespaced (drop 2 p) ''.schema.json'')
      else if 4 \<le> length p \<and> take 2 p = [''data'', ''catalogs''] then
        map_option (\<lambda>e. ''catalog '' @ show_path (butlast (drop 2 p)) @ '' entry '' @ e)
          (or_else (strip_suffix ''.deleted.toml'' (last p))
            (or_else (strip_suffix ''.update.toml'' (last p)) (strip_suffix ''.toml'' (last p))))
      else if 2 \<le> length p \<and> hd p = ''lists'' \<and> ends_with ''.update.toml'' (last p) then
        map_option (\<lambda>i. ''list '' @ i) (namespaced (drop 1 p) ''.update.toml'')
      else if 1 \<le> length p \<and> hd p = ''lists'' then
        map_option (\<lambda>i. ''list '' @ i) (namespaced (drop 1 p) ''.toml'')
      else if 4 \<le> length p \<and> take 2 p = [''model'', ''context'']
              \<and> ends_with ''-samples'' (last (butlast p)) then
        map_option (\<lambda>i. ''evaluation context '' @ i @ '' sample '' @ last p)
          (namespaced (butlast (drop 2 p)) ''-samples'')
      else if 2 \<le> length p \<and> take 2 p = [''model'', ''context''] then
        map_option (\<lambda>i. ''evaluation context '' @ i) (namespaced (drop 2 p) ''.schema.json'')
      else if 1 \<le> length p \<and> hd p = ''layers'' then
        map_option (\<lambda>i. ''layer '' @ i) (namespaced (drop 1 p) ''.toml'')
      else if 1 \<le> length p \<and> hd p = ''variables'' then
        map_option (\<lambda>i. ''variable '' @ i) (variable_id_for_relative p)
      else None)"

definition sibling_entity_key :: "path \<Rightarrow> string" where
  "sibling_entity_key p =
     (case sibling_entity p of Some k \<Rightarrow> k | None \<Rightarrow> ''file '' @ show_path p)"

text \<open>The state of one layer's copy.\<close>

record copying =
  projection :: disk
  recorded :: "string smap"
  provided :: "string smap option"

definition admit :: "layer_source \<Rightarrow> path \<Rightarrow> string \<Rightarrow> copying \<Rightarrow> (bool \<times> copying) res" where
  "admit ls relative text st =
     (case provided st of
        None \<Rightarrow> Inr (False, st)
      | Some owners \<Rightarrow>
          let key = sibling_entity_key relative;
              claim = Inr (False, st\<lparr>provided := Some (bm_insert key (label ls) owners)\<rparr>) in
          (case map_of owners key of
             None \<Rightarrow> claim
           | Some owner \<Rightarrow>
               if owner \<noteq> label ls then
                 if file_identical (Some text) (files (projection st) relative) then Inr (True, st)
                 else err (''package extends bases conflict on '' @ key @ '': '' @ owner @ '' and ''
                           @ label ls @ '' both provide it; make one base extend the other or move''
                           @ '' the shared piece into one package'')
               else claim))"

section \<open>One file\<close>

definition marker_stem :: "string \<Rightarrow> string option" where
  "marker_stem file = or_else (strip_suffix ''.deleted.toml'' file) (strip_suffix ''.update.toml'' file)"

definition reject_same_layer_entry :: "entries \<Rightarrow> path \<Rightarrow> string \<Rightarrow> string \<Rightarrow> unit res" where
  "reject_same_layer_entry layer p entry opn =
     (case marker_stem (last p) of
        None \<Rightarrow> Inr ()
      | Some stem \<Rightarrow>
          if layer_file layer (sibling p (stem @ ''.toml'')) \<noteq> None then
            err (''package both provides catalog entry '' @ entry @ '' and declares '' @ opn @ '' for it'')
          else Inr ())"

definition update_and_delete :: "string \<Rightarrow> 'a res" where
  "update_and_delete entry =
     err (''package both declares an update and a deleted marker for catalog entry '' @ entry
          @ ''; updating and removing it are contradictory'')"

definition compose_replace :: "layer_source \<Rightarrow> path \<Rightarrow> string \<Rightarrow> copying \<Rightarrow> copying res" where
  "compose_replace ls p text st =
     Inr (st\<lparr>projection := write_file p text (projection st),
             recorded := (case variable_id_for_relative p of
                Some i \<Rightarrow> record_variable ls i (recorded st) | None \<Rightarrow> recorded st)\<rparr>)"

definition compose_deleted :: "layer_source \<Rightarrow> path \<Rightarrow> string \<Rightarrow> copying \<Rightarrow> copying res" where
  "compose_deleted ls p entry st =
     rbind (reject_same_layer_entry (tree ls) p entry ''a deleted marker'') (\<lambda>_.
       if layer_file (tree ls) (sibling p (entry @ ''.update.toml'')) \<noteq> None then update_and_delete entry
       else let target = sibling p (entry @ ''.toml'') in
         if \<not> is_file (projection st) target then
           err (''deleted marker has no catalog entry to remove in the base packages: '' @ show_path p)
         else Inr (st\<lparr>projection := remove_file target (projection st)\<rparr>))"

definition compose_entry_update ::
  "codec \<Rightarrow> layer_source \<Rightarrow> path \<Rightarrow> string \<Rightarrow> string \<Rightarrow> copying \<Rightarrow> copying res" where
  "compose_entry_update cod ls p entry text st =
     rbind (reject_same_layer_entry (tree ls) p entry ''an update'') (\<lambda>_.
       let target = sibling p (entry @ ''.toml'') in
       if \<not> is_file (projection st) target then
         err (''update has no catalog entry to update in the base packages: '' @ show_path p)
       else
         rbind (read_layer_toml cod (shown_target ls target) (files (projection st) target)) (\<lambda>base.
         rbind (read_layer_toml cod (shown_source ls p) (Some text)) (\<lambda>update.
         rbind (write_layer_toml cod target (deep_merge_toml base update) (projection st)) (\<lambda>d.
           Inr (st\<lparr>projection := d\<rparr>)))))"

definition compose_variable_update ::
  "codec \<Rightarrow> layer_source \<Rightarrow> path \<Rightarrow> string \<Rightarrow> string \<Rightarrow> copying \<Rightarrow> copying res" where
  "compose_variable_update cod ls p file text st =
     (let i = (case variable_id_for_relative p of Some i \<Rightarrow> i | None \<Rightarrow> []);
          target = sibling p (file_stem_of file @ ''.toml'') in
      if layer_file (tree ls) target \<noteq> None then
        err (''package both provides variable '' @ i @ '' and declares an update for it'')
      else if \<not> is_file (projection st) target then
        err (''variable update has no base variable to update in the base packages: '' @ show_path p)
      else
        rbind (read_layer_toml cod (shown_source ls p) (Some text)) (\<lambda>update.
          case as_table update of
            None \<Rightarrow> err (''variable update is not a TOML table: '' @ show_path p)
          | Some ut \<Rightarrow>
              rbind (variable_update_keys p ut) (\<lambda>_.
              rbind (read_layer_toml cod (shown_target ls target) (files (projection st) target)) (\<lambda>base.
              rbind (write_layer_toml cod target (merge_variable base ut) (projection st)) (\<lambda>d.
                Inr (st\<lparr>projection := d,
                        recorded := (if map_of ut ''resolve'' \<noteq> None \<and> i \<noteq> []
                          then record_variable ls i (recorded st) else recorded st)\<rparr>))))))"

definition variable_restate_denied :: "string \<Rightarrow> 'a res" where
  "variable_restate_denied i =
     err (''variable '' @ i @ '' is declared in the base packages; update it with variables/'' @ i
          @ ''.update.toml instead of restating the file'')"

definition compose_list_update ::
  "codec \<Rightarrow> layer_source \<Rightarrow> path \<Rightarrow> string \<Rightarrow> string \<Rightarrow> copying \<Rightarrow> copying res" where
  "compose_list_update cod ls p file text st =
     (let target = (case strip_suffix ''.update.toml'' file of
            Some stem \<Rightarrow> sibling p (stem @ ''.toml'') | None \<Rightarrow> []) in
      if \<not> is_file (projection st) target then
        err (''list update has no base list to update: '' @ show_path p)
      else
        rbind (read_layer_toml cod (shown_source ls p) (Some text)) (\<lambda>overlay.
        rbind (list_update_keys p overlay) (\<lambda>_.
        rbind (read_layer_toml cod (shown_target ls target) (files (projection st) target)) (\<lambda>base.
        rbind (compose_list_members (show_toml cod) (with_description base overlay) overlay p) (\<lambda>v.
        rbind (write_layer_toml cod target v (projection st)) (\<lambda>d.
          Inr (st\<lparr>projection := d\<rparr>)))))))"

definition list_restate_denied :: "path \<Rightarrow> 'a res" where
  "list_restate_denied p =
     (let i = (case strip_suffix ''.toml'' (show_path (drop 1 p)) of Some i \<Rightarrow> i | None \<Rightarrow> []) in
      err (''list '' @ i @ '' is declared in the base packages; update it with lists/'' @ i
           @ ''.update.toml instead of restating the file''))"

definition compose_package_layer_file ::
  "codec \<Rightarrow> layer_source \<Rightarrow> path \<Rightarrow> string \<Rightarrow> copying \<Rightarrow> copying res" where
  "compose_package_layer_file cod ls p text st =
     (let below_text = files (projection st) p in
      case classify_layer_file p (last p) (is_file (projection st) p) of
        Replace \<Rightarrow> compose_replace ls p text st
      | CatalogEntryDeleted entry \<Rightarrow> compose_deleted ls p entry st
      | CatalogEntryUpdate entry \<Rightarrow> compose_entry_update cod ls p entry text st
      | VariableUpdate \<Rightarrow> compose_variable_update cod ls p (last p) text st
      | VariableRestate \<Rightarrow>
          if file_identical (Some text) below_text then Inr st
          else variable_restate_denied (case variable_id_for_relative p of Some i \<Rightarrow> i | None \<Rightarrow> [])
      | ListUpdate \<Rightarrow> compose_list_update cod ls p (last p) text st
      | ListRestate \<Rightarrow>
          if file_identical (Some text) below_text then Inr st else list_restate_denied p)"

section \<open>The copy\<close>

definition land_file ::
  "codec \<Rightarrow> layer_source \<Rightarrow> path \<Rightarrow> string \<Rightarrow> copying \<Rightarrow> copying res" where
  "land_file cod ls p text st =
     (let d = projection st;
          cleared = (if dirs d p then remove_dir_all p d else d);
          st1 = st\<lparr>projection := create_dir_all (butlast p) cleared\<rparr> in
      rbind (admit ls p text st1) (\<lambda>admitted.
        if fst admitted then Inr (snd admitted)
        else compose_package_layer_file cod ls p text (snd admitted)))"

definition open_dir :: "path \<Rightarrow> disk \<Rightarrow> disk" where
  "open_dir p d = create_dir_all p (if is_file d p then remove_file p d else d)"

definition skipped :: "bool \<Rightarrow> path \<Rightarrow> string \<Rightarrow> bool" where
  "skipped include_manifest dir name =
     (dir = [] \<and> (\<not> include_manifest \<and> name = package_manifest \<or> name = provenance_file))"

fun copy_node :: "codec \<Rightarrow> layer_source \<Rightarrow> bool \<Rightarrow> path \<Rightarrow> node \<Rightarrow> copying \<Rightarrow> copying res"
  and copy_package_layer_recursive ::
    "codec \<Rightarrow> layer_source \<Rightarrow> bool \<Rightarrow> path \<Rightarrow> entries \<Rightarrow> copying \<Rightarrow> copying res"
  where
  "copy_node cod ls include_manifest p (Directory es) st =
     copy_package_layer_recursive cod ls include_manifest p es
       (st\<lparr>projection := open_dir p (projection st)\<rparr>)"
| "copy_node cod ls include_manifest p (File text) st = land_file cod ls p text st"
| "copy_node cod ls include_manifest p Other st =
     err (''package source contains unsupported entry type: '' @ shown_source ls p)"
| "copy_package_layer_recursive cod ls include_manifest dir [] st = Inr st"
| "copy_package_layer_recursive cod ls include_manifest dir ((name, n) # es) st =
     (if skipped include_manifest dir name
      then copy_package_layer_recursive cod ls include_manifest dir es st
      else rbind (copy_node cod ls include_manifest (dir @ [name]) n st)
             (copy_package_layer_recursive cod ls include_manifest dir es))"

text \<open>\<open>copy_package_layer\<close>: the projection afterwards and what the sibling bases provide.\<close>

definition layer_of :: "codec \<Rightarrow> entries \<Rightarrow> string \<Rightarrow> string \<Rightarrow> string \<Rightarrow> layer_source" where
  "layer_of cod es source target written =
     \<lparr>tree = es, source_dir = source, target_dir = target, label = written,
      nested = read_provenance cod (layer_file es [provenance_file])\<rparr>"

definition copy_package_layer ::
  "codec \<Rightarrow> layer_source \<Rightarrow> bool \<Rightarrow> string smap option \<Rightarrow> disk \<Rightarrow> (disk \<times> string smap option) res"
  where
  "copy_package_layer cod ls include_manifest siblings d =
     rbind (copy_package_layer_recursive cod ls include_manifest [] (tree ls)
              \<lparr>projection = create_dir_all [] d, recorded = [], provided = siblings\<rparr>)
       (\<lambda>st. let d' = projection st in
         Inr (if recorded st = [] then d'
              else write_provenance cod
                     (bm_extend (read_provenance cod (files d' [provenance_file])) (recorded st)) d',
              provided st))"

end
