(* ===== verification/Enforcement.thy ===== *)
theory Enforcement
  imports Layering
begin

text \<open>
  The governance check of a layer about to land on a projection
  (src/src/source/layer/enforce.rs): which operation each file of the layer is, the
  walk over the layer's directories, and what both guarantee together with the copy.
\<close>

section \<open>The check of one file\<close>

text \<open>
  A path built by formatting an id into it is looked up by its components; \<open>Path\<close>
  drops empty and \<open>.\<close> components.
\<close>

definition path_of :: "string \<Rightarrow> path" where
  "path_of s = filter (\<lambda>c. c \<noteq> [] \<and> c \<noteq> ''.'') (split_on (CHR ''/'') s)"

definition is_file_at :: "disk \<Rightarrow> string \<Rightarrow> bool" where
  "is_file_at d s = is_file d (path_of s)"

definition schema_edit_denied :: "string \<Rightarrow> string \<Rightarrow> 'a res" where
  "schema_edit_denied what i =
     err (''governance does not allow an overlay to change a base '' @ what @ '' '' @ i
          @ ''; narrow the contract with a custom lint rule under lint/ instead'')"

definition toml_top_level_keys :: "codec \<Rightarrow> string \<Rightarrow> string option \<Rightarrow> string list res" where
  "toml_top_level_keys cod shown text =
     rbind (read_layer_toml cod shown text) (\<lambda>v.
       Inr (case as_table v of Some t \<Rightarrow> map fst t | None \<Rightarrow> []))"

definition declared_below :: "disk \<Rightarrow> string \<Rightarrow> string \<Rightarrow> bool" where
  "declared_below d kind i =
     (if kind = ''catalog'' then is_file_at d (''model/catalogs/'' @ i @ ''.schema.json'')
      else if kind = ''list'' then is_file_at d (''lists/'' @ i @ ''.toml'')
      else if kind = ''variable'' then is_file_at d (''variables/'' @ i @ ''.toml'')
      else if kind = ''evaluation_context'' then is_file_at d (''model/context/'' @ i @ ''.schema.json'')
      else if kind = ''layer'' then is_file_at d (''layers/'' @ i @ ''.toml'')
      else True)"

definition any_declared_below :: "disk \<Rightarrow> bool" where
  "any_declared_below d =
     list_ex (\<lambda>dir. dirs d [dir]) [''model'', ''variables'', ''data'', ''layers'']"

definition govern_contract :: "codec \<Rightarrow> layer_source \<Rightarrow> contract \<Rightarrow> disk \<Rightarrow> path \<Rightarrow> string option \<Rightarrow> unit res" where
  "govern_contract cod ls c d p text =
     (case text of
        None \<Rightarrow> err (''failed to read package source file '' @ shown_source ls p @ '': '' @ read_error cod)
      | Some t \<Rightarrow>
          (case parse_toml cod t of
             Inl e \<Rightarrow> err (''failed to parse the overlay governance.toml: '' @ e)
           | Inr v \<Rightarrow> check_ceiling c (parse_contract v) (declared_below d) (any_declared_below d)))"

definition govern_sample :: "disk \<Rightarrow> path \<Rightarrow> unit res" where
  "govern_sample d p =
     (case namespaced (butlast (drop 2 p)) ''-samples'' of
        Some i \<Rightarrow>
          if is_file_at d (''model/context/'' @ i @ ''.schema.json'') \<and> is_file d p then
            err (''governance does not allow an overlay to change a base sample for evaluation context ''
                 @ i @ ''; add a new sample file instead'')
          else Inr ()
      | None \<Rightarrow> Inr ())"

definition govern_list_update :: "contract \<Rightarrow> disk \<Rightarrow> path \<Rightarrow> unit res" where
  "govern_list_update c d p =
     (case namespaced (drop 1 p) ''.update.toml'' of
        Some i \<Rightarrow>
          if is_file_at d (''lists/'' @ i @ ''.toml'') then check c ''list'' i Update None [] else Inr ()
      | None \<Rightarrow> Inr ())"

text \<open>The catalog of an entry file: the longest directory prefix with a schema below.\<close>

fun catalog_of :: "disk \<Rightarrow> path \<Rightarrow> nat \<Rightarrow> (string \<times> string) option" where
  "catalog_of d middle 0 = None"
| "catalog_of d middle (Suc n) =
     (let candidate = show_path (take (Suc n) middle) in
      if is_file_at d (''model/catalogs/'' @ candidate @ ''.schema.json'')
      then Some (candidate, show_path (drop (Suc n) middle))
      else catalog_of d middle n)"

definition entry_name :: "string \<Rightarrow> string \<Rightarrow> string" where
  "entry_name namespace stem = (if namespace = [] then stem else namespace @ ''/'' @ stem)"

definition govern_catalog_entry ::
  "codec \<Rightarrow> layer_source \<Rightarrow> contract \<Rightarrow> disk \<Rightarrow> path \<Rightarrow> string option \<Rightarrow> unit res" where
  "govern_catalog_entry cod ls c d p text =
     (let middle = butlast (drop 2 p); file = last p in
      case catalog_of d middle (length middle) of
        None \<Rightarrow> Inr ()
      | Some (catalog, namespace) \<Rightarrow>
          (case strip_suffix ''.deleted.toml'' file of
             Some stem \<Rightarrow>
               let entry = entry_name namespace stem in
               rbind (reject_same_layer_entry (tree ls) p entry ''a deleted marker'') (\<lambda>_.
                 if layer_file (tree ls) (sibling p (stem @ ''.update.toml'')) \<noteq> None
                 then update_and_delete entry
                 else check c ''catalog'' catalog Delete (Some entry) [])
           | None \<Rightarrow>
               (case strip_suffix ''.update.toml'' file of
                  Some stem \<Rightarrow>
                    let entry = entry_name namespace stem in
                    rbind (reject_same_layer_entry (tree ls) p entry ''an update'') (\<lambda>_.
                    rbind (toml_top_level_keys cod (shown_source ls p) text) (\<lambda>fields.
                      check c ''catalog'' catalog Update (Some entry) fields))
                | None \<Rightarrow>
                    (case strip_suffix ''.toml'' file of
                       Some stem \<Rightarrow>
                         if is_file d p then
                           (let entry = entry_name namespace stem in
                            err (''governance does not model replacing catalog entry '' @ entry
                                 @ '' wholesale;                      use '' @ entry
                                 @ ''.update.toml to update fields or '' @ entry
                                 @ ''.deleted.toml to                      remove it''))
                         else check c ''catalog'' catalog Add None []
                     | None \<Rightarrow> Inr ()))))"

definition govern_variable :: "contract \<Rightarrow> disk \<Rightarrow> path \<Rightarrow> unit res" where
  "govern_variable c d p =
     (case variable_id_for_relative p of
        None \<Rightarrow> Inr ()
      | Some i \<Rightarrow>
          if ends_with ''.update.toml'' (last p) then
            if is_file d (sibling p (file_stem_of (last p) @ ''.toml''))
            then check c ''variable'' i Update None [] else Inr ()
          else if is_file d p then variable_restate_denied i
          else Inr ())"

definition govern_layer :: "contract \<Rightarrow> disk \<Rightarrow> path \<Rightarrow> unit res" where
  "govern_layer c d p =
     (case namespaced (drop 1 p) ''.toml'' of
        Some i \<Rightarrow> if is_file d p then check c ''layer'' i Update None [] else Inr ()
      | None \<Rightarrow> Inr ())"

definition govern_schema :: "disk \<Rightarrow> path \<Rightarrow> string \<Rightarrow> unit res" where
  "govern_schema d p what =
     (case namespaced (drop 2 p) ''.schema.json'' of
        Some i \<Rightarrow> if is_file d p then schema_edit_denied what i else Inr ()
      | None \<Rightarrow> Inr ())"

definition check_governed_file ::
  "codec \<Rightarrow> layer_source \<Rightarrow> contract \<Rightarrow> disk \<Rightarrow> path \<Rightarrow> string option \<Rightarrow> unit res" where
  "check_governed_file cod ls c d p text =
     (if p = [package_manifest] then Inr ()
      else if p = [''governance.toml''] then govern_contract cod ls c d p text
      else if 2 \<le> length p \<and> take 2 p = [''model'', ''catalogs''] then
        govern_schema d p ''catalog schema''
      else if 4 \<le> length p \<and> take 2 p = [''model'', ''context'']
              \<and> ends_with ''-samples'' (last (butlast p)) then govern_sample d p
      else if 2 \<le> length p \<and> take 2 p = [''model'', ''context''] then
        govern_schema d p ''evaluation context schema''
      else if 2 \<le> length p \<and> hd p = ''lists'' \<and> ends_with ''.update.toml'' (last p) then
        govern_list_update c d p
      else if 1 \<le> length p \<and> hd p = ''lists'' then Inr ()
      else if 4 \<le> length p \<and> take 2 p = [''data'', ''catalogs''] then
        govern_catalog_entry cod ls c d p text
      else if 2 \<le> length p \<and> hd p = ''variables'' then govern_variable c d p
      else if 1 \<le> length p \<and> hd p = ''layers'' then govern_layer c d p
      else if length p = 2 \<and> hd p = ''lint'' \<and> is_file d p then
        err (''governance does not model replacing a lint file the base owns: lint/'' @ last p)
      else Inr ())"

section \<open>The walk\<close>

text \<open>
  \<open>pending\<close> is a stack: the directories met in the loop over one directory's entries
  are pushed and the last one is taken next.
\<close>

type_synonym pending = "(path \<times> entries) list"

fun enforce_entries ::
  "(path \<Rightarrow> string option \<Rightarrow> unit res) \<Rightarrow> path \<Rightarrow> entries \<Rightarrow> pending \<Rightarrow> pending res" where
  "enforce_entries chk dir [] pending = Inr pending"
| "enforce_entries chk dir ((name, Directory es) # rest) pending =
     enforce_entries chk dir rest ((dir @ [name], es) # pending)"
| "enforce_entries chk dir ((name, n) # rest) pending =
     rbind (chk (dir @ [name]) (content n)) (\<lambda>_. enforce_entries chk dir rest pending)"

definition entries_size :: "entries \<Rightarrow> nat" where
  "entries_size es = size (Directory es)"

definition pending_size :: "pending \<Rightarrow> nat" where
  "pending_size pending = sum_list (map (entries_size \<circ> snd) pending)"

lemma enforce_entries_size:
  "enforce_entries chk dir es pending = Inr pending' \<Longrightarrow>
   pending_size pending' < pending_size pending + entries_size es"
  by (induction chk dir es pending arbitrary: pending' rule: enforce_entries.induct)
    (fastforce simp: pending_size_def entries_size_def rbind_eq_Inr)+

lemma rbind_cong [fundef_cong]:
  "r = r' \<Longrightarrow> (\<And>x. r' = Inr x \<Longrightarrow> f x = g x) \<Longrightarrow> rbind r f = rbind r' g"
  by (cases r') auto

function enforce_pending :: "(path \<Rightarrow> string option \<Rightarrow> unit res) \<Rightarrow> pending \<Rightarrow> unit res" where
  "enforce_pending chk [] = Inr ()"
| "enforce_pending chk ((dir, es) # pending) =
     rbind (enforce_entries chk dir es pending) (enforce_pending chk)"
  by pat_completeness auto

termination
  by (relation "measure (pending_size \<circ> snd)")
    (auto dest: enforce_entries_size simp: pending_size_def)

definition enforce_file ::
  "codec \<Rightarrow> layer_source \<Rightarrow> contract \<Rightarrow> disk \<Rightarrow> path \<Rightarrow> string option \<Rightarrow> unit res" where
  "enforce_file cod ls c d p text =
     (if file_identical text (files d p) then Inr () else check_governed_file cod ls c d p text)"

definition projection_contract :: "codec \<Rightarrow> disk \<Rightarrow> contract" where
  "projection_contract cod d =
     read_governance_contract
       (\<lambda>t. case parse_toml cod t of Inl _ \<Rightarrow> None | Inr v \<Rightarrow> Some v) (files d [''governance.toml''])"

definition enforce_layer_governance :: "codec \<Rightarrow> layer_source \<Rightarrow> disk \<Rightarrow> unit res" where
  "enforce_layer_governance cod ls d =
     enforce_pending (enforce_file cod ls (projection_contract cod d) d) [([], tree ls)]"

section \<open>The walk checks every file\<close>

lemma enforce_entries_sound:
  assumes "enforce_entries chk dir es pending = Inr pending'"
  shows "set pending \<subseteq> set pending'
    \<and> (\<forall>name sub. (name, Directory sub) \<in> set es \<longrightarrow> (dir @ [name], sub) \<in> set pending')
    \<and> (\<forall>name n. (name, n) \<in> set es \<longrightarrow> (\<forall>sub. n \<noteq> Directory sub) \<longrightarrow>
        chk (dir @ [name]) (content n) = Inr ())"
  using assms
  by (induction chk dir es pending arbitrary: pending' rule: enforce_entries.induct)
    (auto simp: rbind_eq_Inr)

lemma enforce_pending_sound:
  "enforce_pending chk pending = Inr () \<Longrightarrow> (dir, es) \<in> set pending \<Longrightarrow>
   node_at (Directory es) q = Some n \<Longrightarrow> \<forall>sub. n \<noteq> Directory sub \<Longrightarrow>
   chk (dir @ q) (content n) = Inr ()"
proof (induction chk pending arbitrary: dir es q rule: enforce_pending.induct)
  case (2 chk dir0 es0 pending)
  then obtain pending' where run: "enforce_entries chk dir0 es0 pending = Inr pending'"
    "enforce_pending chk pending' = Inr ()"
    by (auto simp: rbind_eq_Inr)
  note sound = enforce_entries_sound [OF run(1)]
  show ?case
  proof (cases "(dir, es) \<in> set pending")
    case True
    with sound have "(dir, es) \<in> set pending'" by blast
    then show ?thesis using 2(1) [OF run(1) run(2) _ 2(4,5)] by blast
  next
    case False
    with 2(3) have here: "dir = dir0" "es = es0" by auto
    from 2(4,5) obtain x xs where q: "q = x # xs" by (cases q) auto
    with 2(4) here obtain m where m: "map_of es0 x = Some m" "node_at m xs = Some n"
      by (auto split: option.splits)
    note entry = map_of_SomeD [OF m(1)]
    show ?thesis
    proof (cases m)
      case (Directory sub)
      with sound entry have "(dir0 @ [x], sub) \<in> set pending'" by blast
      then show ?thesis
        using 2(1) [OF run(1) run(2) _ _ 2(5), of "dir0 @ [x]" sub xs] m(2) Directory q here by simp
    next
      case (File t)
      then show ?thesis using m(2) entry sound q here by (cases xs) auto
    next
      case Other
      then show ?thesis using m(2) entry sound q here by (cases xs) auto
    qed
  qed
qed simp

lemma content_Some: "content n = Some t \<longleftrightarrow> n = File t"
  by (cases n) (auto simp: content_def)

lemma enforced_file:
  assumes "enforce_layer_governance cod ls d = Inr ()" "layer_file (tree ls) p = Some t"
  shows "files d p = Some t
    \<or> check_governed_file cod ls (projection_contract cod d) d p (Some t) = Inr ()"
proof -
  obtain n where n: "node_at (Directory (tree ls)) p = Some n" "n = File t"
    using assms(2) by (auto simp: layer_file_def content_Some bind_eq_Some_conv)
  then have "enforce_file cod ls (projection_contract cod d) d p (Some t) = Inr ()"
    using enforce_pending_sound [of "enforce_file cod ls (projection_contract cod d) d"
        "[([], tree ls)]" "[]" "tree ls" p n] assms(1)
    by (simp add: enforce_layer_governance_def content_def)
  then show ?thesis by (auto simp: enforce_file_def file_identical_def split: if_splits)
qed

section \<open>What one layer can change\<close>

text \<open>The file of the projection that a marker at a path composes into.\<close>

definition marker_target :: "path \<Rightarrow> path option" where
  "marker_target q =
     (if 4 \<le> length q \<and> take 2 q = [''data'', ''catalogs''] then
        map_option (\<lambda>s. sibling q (s @ ''.toml'')) (marker_stem (last q))
      else if 2 \<le> length q \<and> hd q \<in> {''variables'', ''lists''} then
        map_option (\<lambda>s. sibling q (s @ ''.toml'')) (strip_suffix ''.update.toml'' (last q))
      else None)"

definition plain :: "path \<Rightarrow> bool" where
  "plain q = (classify_layer_file q (last q) True = Replace)"

definition unmarked :: "disk \<Rightarrow> bool" where
  "unmarked d = (\<forall>q. is_file d q \<longrightarrow> marker_target q = None)"

text \<open>No directory of the layer lies where the projection has the file, and no file of it above.\<close>

definition no_clash :: "entries \<Rightarrow> path \<Rightarrow> bool" where
  "no_clash layer p =
     ((\<forall>es. node_at (Directory layer) p \<noteq> Some (Directory es))
      \<and> (\<forall>n < length p. layer_file layer (take n p) = None))"

definition overlaid :: "entries \<Rightarrow> disk \<Rightarrow> path \<Rightarrow> bool" where
  "overlaid layer base p =
     (\<exists>q t. layer_file layer q = Some t
        \<and> (marker_target q = Some p \<or> q = p \<and> plain q \<and> files base p \<noteq> Some t))"

lemma strip_marker [simp]:
  "strip_suffix x (s @ x) = Some s"
  "strip_suffix ''.toml'' (s @ ''.update.toml'') = Some (s @ ''.update'')"
  by (simp_all add: strip_suffix_Some_iff)

lemma file_stem_of_marker [simp]: "file_stem_of (s @ ''.update.toml'') = s"
  by (simp add: file_stem_of_def without_update_def)

lemma take_two_hd: "take 2 q = [a, b] \<Longrightarrow> hd q = a"
  by (cases q) auto

text \<open>The four regions of the classification.\<close>

lemma classify_simps:
  "4 \<le> length q \<Longrightarrow> take 2 q = [''data'', ''catalogs''] \<Longrightarrow> classify_layer_file q file ex =
     (case strip_suffix ''.deleted.toml'' file of
        Some e \<Rightarrow> CatalogEntryDeleted e
      | None \<Rightarrow> (case strip_suffix ''.update.toml'' file of
                 Some e \<Rightarrow> CatalogEntryUpdate e | None \<Rightarrow> Replace))"
  "2 \<le> length q \<Longrightarrow> hd q = ''variables'' \<Longrightarrow> classify_layer_file q file ex =
     (if ends_with ''.update.toml'' file then VariableUpdate
      else if ex \<and> ends_with ''.toml'' file then VariableRestate else Replace)"
  "2 \<le> length q \<Longrightarrow> hd q = ''lists'' \<Longrightarrow> classify_layer_file q file ex =
     (if ends_with ''.update.toml'' file then ListUpdate
      else if ex \<and> ends_with ''.toml'' file then ListRestate else Replace)"
  "\<not> (4 \<le> length q \<and> take 2 q = [''data'', ''catalogs'']) \<Longrightarrow>
   \<not> (2 \<le> length q \<and> hd q \<in> {''variables'', ''lists''}) \<Longrightarrow> classify_layer_file q file ex = Replace"
  by (auto simp: classify_layer_file_def dest: take_two_hd)

lemma classify_regions:
  obtains "4 \<le> length q" "take 2 q = [''data'', ''catalogs'']" "hd q = ''data''"
  | "2 \<le> length q" "hd q = ''variables''" | "2 \<le> length q" "hd q = ''lists''"
  | "\<not> (4 \<le> length q \<and> take 2 q = [''data'', ''catalogs''])"
    "\<not> (2 \<le> length q \<and> hd q \<in> {''variables'', ''lists''})"
  by (cases "4 \<le> length q \<and> take 2 q = [''data'', ''catalogs'']"; cases "2 \<le> length q")
    (auto dest: take_two_hd)

lemma classify_replaces:
  assumes "classify_layer_file q file ex = Replace"
  shows "classify_layer_file q file True = Replace
    \<or> \<not> ex \<and> 2 \<le> length q \<and> hd q \<in> {''variables'', ''lists''}"
  using assms by (cases q rule: classify_regions) (auto simp: classify_simps split: if_splits)

lemma marker_target_simps:
  "4 \<le> length q \<Longrightarrow> take 2 q = [''data'', ''catalogs''] \<Longrightarrow>
     marker_target q = map_option (\<lambda>s. sibling q (s @ ''.toml'')) (marker_stem (last q))"
  "2 \<le> length q \<Longrightarrow> hd q = ''variables'' \<or> hd q = ''lists'' \<Longrightarrow>
     marker_target q = map_option (\<lambda>s. sibling q (s @ ''.toml'')) (strip_suffix ''.update.toml'' (last q))"
  "\<not> (4 \<le> length q \<and> take 2 q = [''data'', ''catalogs'']) \<Longrightarrow>
   \<not> (2 \<le> length q \<and> hd q \<in> {''variables'', ''lists''}) \<Longrightarrow> marker_target q = None"
  by (auto simp: marker_target_def dest: take_two_hd)

lemma classify_deleted:
  assumes "classify_layer_file q (last q) ex = CatalogEntryDeleted e"
  shows "marker_target q = Some (sibling q (e @ ''.toml'')) \<and> hd q = ''data''"
  using assms
  by (cases q rule: classify_regions)
    (simp_all add: classify_simps marker_target_simps marker_stem_def or_else_def split: if_splits option.splits)

lemma classify_updated:
  assumes "classify_layer_file q (last q) ex = CatalogEntryUpdate e"
  shows "marker_target q = Some (sibling q (e @ ''.toml''))"
  using assms
  by (cases q rule: classify_regions)
    (simp_all add: classify_simps marker_target_simps marker_stem_def or_else_def split: if_splits option.splits)

lemma classify_variable:
  assumes "classify_layer_file q (last q) ex = VariableUpdate"
  shows "marker_target q = Some (sibling q (file_stem_of (last q) @ ''.toml''))"
  using assms
  by (cases q rule: classify_regions)
    (auto simp: classify_simps marker_target_simps ends_with_iff split: if_splits option.splits)

lemma classify_list:
  assumes "classify_layer_file q (last q) ex = ListUpdate"
  shows "\<exists>s. strip_suffix ''.update.toml'' (last q) = Some s \<and> marker_target q = Some (sibling q (s @ ''.toml''))"
  using assms
  by (cases q rule: classify_regions)
    (auto simp: classify_simps marker_target_simps ends_with_iff split: if_splits option.splits)

text \<open>Everything one layer file can do to the files of the projection.\<close>

inductive landing :: "path \<Rightarrow> string \<Rightarrow> disk \<Rightarrow> disk \<Rightarrow> bool" where
  unchanged: "landing q t d d"
| replaced: "classify_layer_file q (last q) (is_file d q) = Replace \<Longrightarrow> landing q t d (write_file q t d)"
| composed: "marker_target q = Some p \<Longrightarrow> is_file d p \<Longrightarrow> landing q t d (write_file p text d)"
| removed: "marker_target q = Some p \<Longrightarrow> hd q = ''data'' \<Longrightarrow> is_file d p \<Longrightarrow>
    landing q t d (remove_file p d)"

inductive_cases landing_cases: "landing q t d d'"

lemma write_layer_toml_Inr:
  "write_layer_toml cod p v d = Inr d' \<longleftrightarrow> (\<exists>text. print_toml cod v = Inr text \<and> d' = write_file p text d)"
  by (auto simp: write_layer_toml_def split: sum.splits)

lemma rbind_InrE:
  assumes "rbind r f = Inr y" obtains x where "r = Inr x" "f x = Inr y"
  using assms by (auto simp: rbind_eq_Inr)

lemma landing_written:
  "write_layer_toml cod p v d = Inr d' \<Longrightarrow> marker_target q = Some p \<Longrightarrow> is_file d p \<Longrightarrow> landing q t d d'"
  by (auto simp: write_layer_toml_Inr intro: landing.composed)

lemma compose_deleted_landing:
  "compose_deleted ls q e st = Inr st' \<Longrightarrow> marker_target q = Some (sibling q (e @ ''.toml'')) \<Longrightarrow>
   hd q = ''data'' \<Longrightarrow> landing q t (projection st) (projection st') \<and> provided st' = provided st"
  by (auto simp: compose_deleted_def update_and_delete_def Let_def
      split: if_splits elim!: rbind_InrE intro: landing.removed)

lemma compose_entry_update_landing:
  "compose_entry_update cod ls q e text st = Inr st' \<Longrightarrow>
   marker_target q = Some (sibling q (e @ ''.toml'')) \<Longrightarrow>
   landing q t (projection st) (projection st') \<and> provided st' = provided st"
  by (auto simp: compose_entry_update_def Let_def
      split: if_splits elim!: rbind_InrE intro: landing_written)

lemma compose_variable_update_landing:
  "compose_variable_update cod ls q file text st = Inr st' \<Longrightarrow>
   marker_target q = Some (sibling q (file_stem_of file @ ''.toml'')) \<Longrightarrow>
   landing q t (projection st) (projection st') \<and> provided st' = provided st"
  unfolding compose_variable_update_def Let_def
  by (auto split: if_splits option.splits elim!: rbind_InrE) (erule landing_written; assumption)+

lemma compose_list_update_landing:
  "compose_list_update cod ls q file text st = Inr st' \<Longrightarrow>
   strip_suffix ''.update.toml'' file = Some s \<Longrightarrow> marker_target q = Some (sibling q (s @ ''.toml'')) \<Longrightarrow>
   landing q t (projection st) (projection st') \<and> provided st' = provided st"
  unfolding compose_list_update_def Let_def
  by (auto split: if_splits elim!: rbind_InrE intro: landing_written)

lemma compose_landing:
  assumes "compose_package_layer_file cod ls q t st = Inr st'"
  shows "landing q t (projection st) (projection st') \<and> provided st' = provided st"
proof (cases "classify_layer_file q (last q) (is_file (projection st) q)")
  case Replace
  then show ?thesis
    using assms by (auto simp: compose_package_layer_file_def compose_replace_def intro: landing.replaced)
next
  case (CatalogEntryDeleted e)
  then show ?thesis
    using assms classify_deleted [OF CatalogEntryDeleted] compose_deleted_landing
    by (simp add: compose_package_layer_file_def Let_def)
next
  case (CatalogEntryUpdate e)
  then show ?thesis
    using assms classify_updated [OF CatalogEntryUpdate] compose_entry_update_landing
    by (simp add: compose_package_layer_file_def Let_def)
next
  case VariableUpdate
  then show ?thesis
    using assms classify_variable [OF VariableUpdate] compose_variable_update_landing
    by (simp add: compose_package_layer_file_def Let_def)
next
  case ListUpdate
  from classify_list [OF ListUpdate] obtain s where
    s: "strip_suffix ''.update.toml'' (last q) = Some s" "marker_target q = Some (sibling q (s @ ''.toml''))"
    by auto
  have "compose_list_update cod ls q (last q) t st = Inr st'"
    using assms ListUpdate by (simp add: compose_package_layer_file_def Let_def)
  from compose_list_update_landing [OF this s] show ?thesis .
qed (use assms in \<open>auto simp: compose_package_layer_file_def Let_def variable_restate_denied_def
      list_restate_denied_def split: if_splits option.splits intro: landing.unchanged\<close>)

section \<open>Invariants of the copy\<close>

fun node_wf :: "node \<Rightarrow> bool" where
  "node_wf (Directory es) = (bm_inv es \<and> list_all (\<lambda>e. node_wf (snd e)) es)"
| "node_wf _ = True"

abbreviation layer_wf :: "entries \<Rightarrow> bool" where
  "layer_wf es \<equiv> node_wf (Directory es)"

definition clear_for :: "path \<Rightarrow> disk \<Rightarrow> disk" where
  "clear_for p d = create_dir_all (butlast p) (if dirs d p then remove_dir_all p d else d)"

lemma node_at_append:
  "node_at n (p @ q) = Option.bind (node_at n p) (\<lambda>m. node_at m q)"
  by (induction n p rule: node_at.induct) (auto split: option.splits)

lemma node_at_wf: "node_at n p = Some m \<Longrightarrow> node_wf n \<Longrightarrow> node_wf m"
  by (induction n p rule: node_at.induct)
    (auto simp: list_all_iff dest!: map_of_SomeD split: option.splits)

text \<open>
  A property of the projection that every single step of a copy keeps is kept by the
  whole copy.
\<close>

locale copy_invariant =
  fixes layer :: entries and P :: "disk \<Rightarrow> bool"
  assumes lands: "layer_file layer q = Some t \<Longrightarrow> P d \<Longrightarrow> landing q t d d' \<Longrightarrow> P d'"
    and clears: "layer_file layer q = Some t \<Longrightarrow> P d \<Longrightarrow> P (clear_for q d)"
    and opens: "node_at (Directory layer) q = Some (Directory es) \<Longrightarrow> P d \<Longrightarrow> P (open_dir q d)"
    and sidecar: "P d \<Longrightarrow> P (write_file [provenance_file] t d)"
begin

lemma land_file_keeps:
  assumes "land_file cod ls q t st = Inr st'" "layer_file layer q = Some t" "P (projection st)"
  shows "P (projection st')"
proof -
  let ?st1 = "st\<lparr>projection := clear_for q (projection st)\<rparr>"
  obtain r where a: "admit ls q t ?st1 = Inr r"
    "(if fst r then Inr (snd r) else compose_package_layer_file cod ls q t (snd r)) = Inr st'"
    using assms(1) unfolding land_file_def clear_for_def Let_def by (elim rbind_InrE)
  have "projection (snd r) = clear_for q (projection st)"
    using a(1) by (auto simp: admit_def Let_def split: option.splits if_splits)
  then have "P (projection (snd r))" using clears assms by simp
  then show ?thesis
    using a(2) lands [OF assms(2)] compose_landing by (auto split: if_splits)
qed

lemma copy_keeps:
  "copy_node cod ls inc p n st = Inr st' \<Longrightarrow> node_at (Directory layer) p = Some n \<Longrightarrow>
     layer_wf layer \<Longrightarrow> P (projection st) \<Longrightarrow> P (projection st')"
  "copy_package_layer_recursive cod ls inc dir es st = Inr st' \<Longrightarrow>
     node_at (Directory layer) dir = Some (Directory all) \<Longrightarrow> set es \<subseteq> set all \<Longrightarrow>
     layer_wf layer \<Longrightarrow> P (projection st) \<Longrightarrow> P (projection st')"
proof (induction cod ls inc p n st and cod ls inc dir es st arbitrary: st' and st' all
    rule: copy_node_copy_package_layer_recursive.induct)
  case (1 cod ls inc p es st)
  from 1(2) have run: "copy_package_layer_recursive cod ls inc p es
      (st\<lparr>projection := open_dir p (projection st)\<rparr>) = Inr st'" by simp
  show ?case using 1(1) [OF run 1(3) subset_refl 1(4)] opens [OF 1(3) 1(5)] by simp
next
  case (2 cod ls inc p t st)
  then show ?case
    using land_file_keeps [of cod ls p t st st'] by (simp add: layer_file_def content_def)
next
  case (5 cod ls inc dir name n es st)
  show ?case
  proof (cases "skipped inc dir name")
    case True
    then show ?thesis using 5 by simp
  next
    case False
    with 5(4) obtain st1 where run: "copy_node cod ls inc (dir @ [name]) n st = Inr st1"
      "copy_package_layer_recursive cod ls inc dir es st1 = Inr st'"
      by (auto simp: rbind_eq_Inr)
    have "bm_inv all" using node_at_wf [OF 5(5) 5(7)] by simp
    then have "map_of all name = Some n"
      using 5(6) by (simp add: bm_inv_distinct)
    then have "node_at (Directory layer) (dir @ [name]) = Some n"
      using 5(5) by (simp add: node_at_append)
    then have "P (projection st1)" using 5(2) [OF False run(1)] 5(7,8) by simp
    then show ?thesis using 5(3) [OF False run(2) 5(5)] 5(6,7) by simp
  qed
qed auto

lemma copied:
  assumes "copy_package_layer cod ls inc siblings d = Inr (d', siblings')"
    and "tree ls = layer" "layer_wf layer" "P (create_dir_all [] d)"
  shows "P d'"
proof -
  obtain st where st: "copy_package_layer_recursive cod ls inc [] (tree ls)
      \<lparr>projection = create_dir_all [] d, recorded = [], provided = siblings\<rparr> = Inr st"
    "d' = projection st \<or> (\<exists>t. d' = write_file [provenance_file] t (projection st))"
    using assms(1)
    by (auto simp: copy_package_layer_def Let_def rbind_eq_Inr write_provenance_def split: if_splits)
  have "P (projection st)"
    using copy_keeps(2) [OF st(1), of layer] assms(2-4) by simp
  then show ?thesis using st(2) sidecar by blast
qed

end

section \<open>Projections hold no markers\<close>

lemma classify_marked: "classify_layer_file q (last q) ex = Replace \<Longrightarrow> marker_target q = None"
  by (cases q rule: classify_regions)
    (simp_all add: classify_simps marker_target_simps marker_stem_def or_else_def ends_with_def
      split: if_splits option.splits)

lemma marker_single [simp]: "marker_target [x] = None"
  by (simp add: marker_target_def)

lemma files_write [simp]: "files (write_file p t d) = (files d)(p \<mapsto> t)" "dirs (write_file p t d) = dirs d"
  by (simp_all add: write_file_def)

lemma files_remove [simp]: "files (remove_file p d) = (files d)(p := None)" "dirs (remove_file p d) = dirs d"
  by (simp_all add: remove_file_def)

lemma files_create [simp]: "files (create_dir_all p d) = files d"
  "dirs (create_dir_all p d) = (\<lambda>q. below q p \<or> dirs d q)"
  by (simp_all add: create_dir_all_def)

lemma is_file_simps [simp]:
  "is_file (write_file p t d) q \<longleftrightarrow> q = p \<or> is_file d q"
  "is_file (remove_file p d) q \<longleftrightarrow> q \<noteq> p \<and> is_file d q"
  "is_file (create_dir_all p d) q \<longleftrightarrow> is_file d q"
  "is_file (remove_dir_all p d) q \<longleftrightarrow> \<not> below p q \<and> is_file d q"
  by (auto simp: is_file_def remove_dir_all_def)

interpretation unmarked: copy_invariant layer unmarked for layer
proof
  fix q t d d' assume "unmarked d" "landing q t d d'"
  then show "unmarked d'"
    by (auto simp: unmarked_def classify_marked elim!: landing_cases)
qed (auto simp: unmarked_def clear_for_def open_dir_def split: if_splits)

section \<open>Files a layer does not touch\<close>

definition kept :: "entries \<Rightarrow> disk \<Rightarrow> path \<Rightarrow> disk \<Rightarrow> bool" where
  "kept layer base p d =
     ((files d p = files base p \<or> overlaid layer base p)
      \<and> (hd p \<in> {''variables'', ''lists''} \<longrightarrow> is_file d p) \<and> \<not> dirs d p)"

definition overlay_of :: "entries \<Rightarrow> disk \<Rightarrow> path \<Rightarrow> disk \<Rightarrow> bool" where
  "overlay_of layer base p d =
     (no_clash layer p \<and> p \<noteq> [provenance_file] \<longrightarrow> kept layer base p d)"

lemma above_directory:
  assumes "node_at n (p @ q) = Some m" "q \<noteq> []"
  shows "\<exists>es. node_at n p = Some (Directory es)"
proof -
  obtain k where k: "node_at n p = Some k" "node_at k q = Some m"
    using assms(1) by (auto simp: node_at_append bind_eq_Some_conv)
  then show ?thesis using assms(2) by (cases k; cases q) auto
qed

lemma below_append: "below p q \<Longrightarrow> \<exists>r. q = p @ r"
  by (metis append_take_drop_id below_def)

lemma layer_file_at: "layer_file layer q = Some t \<longleftrightarrow> node_at (Directory layer) q = Some (File t)"
  by (auto simp: layer_file_def content_Some bind_eq_Some_conv)

lemma no_clash_above:
  assumes "no_clash layer p" "layer_file layer q = Some t"
  shows "\<not> below p (butlast q)" "below q p \<Longrightarrow> p = q"
proof -
  show "\<not> below p (butlast q)"
  proof
    assume "below p (butlast q)"
    then obtain r where r: "butlast q = p @ r" using below_append by blast
    have "q \<noteq> []" using assms(2) by (auto simp: layer_file_def content_def)
    then have "q = p @ r @ [last q]" using r append_butlast_last_id [of q] by simp
    then show False
      using above_directory [of "Directory layer" p "r @ [last q]"] assms
      by (auto simp: layer_file_at no_clash_def)
  qed
  show "p = q" if "below q p"
  proof (rule ccontr)
    assume "p \<noteq> q"
    then have "length q < length p"
      using that below_append [OF that] by (cases "length q < length p") auto
    moreover have "take (length q) p = q" using that by (simp add: below_def)
    ultimately show False using assms by (auto simp: no_clash_def)
  qed
qed

lemma marker_target_hd: "marker_target q = Some p \<Longrightarrow> hd p = hd q"
  by (cases q) (auto simp: marker_target_def sibling_def split: if_splits)

lemma kept_landing:
  assumes "kept layer base p d" "landing q t d d'" "layer_file layer q = Some t"
  shows "kept layer base p d'"
  using assms(2)
proof (cases rule: landing.cases)
  case replaced
  have "plain q" if "q = p"
    using classify_replaces [OF replaced(2)] assms(1) that by (auto simp: plain_def kept_def)
  then show ?thesis
    using assms replaced(1) by (auto simp: kept_def overlaid_def)
next
  case (composed p' written)
  then show ?thesis using assms by (auto simp: kept_def overlaid_def)
next
  case (removed p')
  have "hd p' = ''data''"
    using removed marker_target_hd by metis
  then show ?thesis using assms removed by (auto simp: kept_def overlaid_def)
qed (use assms in auto)

interpretation overlay: copy_invariant layer "overlay_of layer base p" for layer base p
proof
  fix q t d assume *: "layer_file layer q = Some t" "overlay_of layer base p d"
  show "overlay_of layer base p (clear_for q d)"
    using * no_clash_above [of layer p q t]
    by (auto simp: overlay_of_def kept_def clear_for_def remove_dir_all_def is_file_def)
next
  fix q es d assume *: "node_at (Directory layer) q = Some (Directory es)" "overlay_of layer base p d"
  have "\<not> below p q" if "no_clash layer p"
    using that * above_directory [of "Directory layer" p] below_append [of p q]
    by (metis append_Nil2 no_clash_def)
  moreover have "p \<noteq> q" if "no_clash layer p" using that * by (auto simp: no_clash_def)
  ultimately show "overlay_of layer base p (open_dir q d)"
    using * by (auto simp: overlay_of_def kept_def open_dir_def)
next
  fix q t d d' assume "layer_file layer q = Some t" "overlay_of layer base p d" "landing q t d d'"
  then show "overlay_of layer base p d'"
    by (auto simp: overlay_of_def intro: kept_landing)
next
  fix d t assume "overlay_of layer base p d"
  then show "overlay_of layer base p (write_file [provenance_file] t d)"
    by (auto simp: overlay_of_def kept_def)
qed

section \<open>A layer changes what the contract grants\<close>

text \<open>Path components as file names are: not empty, no \<open>.\<close>, no slash.\<close>

definition proper :: "path \<Rightarrow> bool" where
  "proper p = (\<forall>c \<in> set p. c \<noteq> [] \<and> c \<noteq> ''.'' \<and> CHR ''/'' \<notin> set c)"

text \<open>Whether the contract lets a layer change or remove the file a projection has at a path.\<close>

definition change_granted :: "contract \<Rightarrow> disk \<Rightarrow> path \<Rightarrow> bool" where
  "change_granted c d p =
     (if p = [package_manifest] \<or> p = [''governance.toml''] then True
      else if 2 \<le> length p \<and> take 2 p = [''model'', ''catalogs''] then
        namespaced (drop 2 p) ''.schema.json'' = None
      else if 4 \<le> length p \<and> take 2 p = [''model'', ''context'']
              \<and> ends_with ''-samples'' (last (butlast p)) then
        (case namespaced (butlast (drop 2 p)) ''-samples'' of
           None \<Rightarrow> True | Some i \<Rightarrow> \<not> is_file_at d (''model/context/'' @ i @ ''.schema.json''))
      else if 2 \<le> length p \<and> take 2 p = [''model'', ''context''] then
        namespaced (drop 2 p) ''.schema.json'' = None
      else if 1 \<le> length p \<and> hd p = ''lists'' then
        (case namespaced (drop 1 p) ''.toml'' of
           None \<Rightarrow> True | Some i \<Rightarrow> check c ''list'' i Update None [] = Inr ())
      else if 4 \<le> length p \<and> take 2 p = [''data'', ''catalogs''] then
        (case catalog_of d (butlast (drop 2 p)) (length (butlast (drop 2 p))) of
           None \<Rightarrow> True
         | Some (catalog, namespace) \<Rightarrow>
             (case strip_suffix ''.toml'' (last p) of
                None \<Rightarrow> True
              | Some stem \<Rightarrow>
                  check c ''catalog'' catalog Delete (Some (entry_name namespace stem)) [] = Inr ()
                  \<or> check c ''catalog'' catalog Update (Some (entry_name namespace stem)) [] = Inr ()))
      else if 2 \<le> length p \<and> hd p = ''variables'' then
        (case variable_id_for_relative p of
           None \<Rightarrow> True | Some i \<Rightarrow> check c ''variable'' i Update None [] = Inr ())
      else if 1 \<le> length p \<and> hd p = ''layers'' then
        (case namespaced (drop 1 p) ''.toml'' of
           None \<Rightarrow> True | Some i \<Rightarrow> check c ''layer'' i Update None [] = Inr ())
      else length p \<noteq> 2 \<or> hd p \<noteq> ''lint'')"

definition dir_prefix :: "path \<Rightarrow> string" where
  "dir_prefix xs = (if xs = [] then [] else show_path xs @ ''/'')"

lemma show_path_snoc: "show_path (xs @ [s]) = dir_prefix xs @ s"
proof (induction xs)
  case (Cons x xs)
  then show ?case
    by (cases xs) (simp_all add: show_path_def dir_prefix_def join_with_Cons)
qed (simp add: show_path_def dir_prefix_def)

lemma strip_suffix_path:
  assumes "CHR ''/'' \<notin> set suffix"
  shows "strip_suffix suffix (dir_prefix xs @ s) = map_option ((@) (dir_prefix xs)) (strip_suffix suffix s)"
proof (cases "strip_suffix suffix s")
  case (Some r)
  then show ?thesis by (simp add: strip_suffix_Some_iff)
next
  case None
  have "dir_prefix xs @ s \<noteq> r @ suffix" for r
  proof
    assume eq: "dir_prefix xs @ s = r @ suffix"
    have no: "s \<noteq> u @ suffix" for u
      using None strip_suffix_Some_iff [of suffix s u] by simp
    with eq obtain u where u: "dir_prefix xs = r @ u" "suffix = u @ s"
      unfolding append_eq_append_conv2 by metis
    with no have "u \<noteq> []" by force
    then have "last u = last (dir_prefix xs)" "xs \<noteq> []" using u by (auto simp: dir_prefix_def)
    then have "CHR ''/'' \<in> set suffix"
      using u(2) last_in_set [OF \<open>u \<noteq> []\<close>] by (simp add: dir_prefix_def)
    with assms show False ..
  qed
  then have "strip_suffix suffix (dir_prefix xs @ s) = None"
    using strip_suffix_Some_iff by (metis option.exhaust)
  with None show ?thesis by simp
qed

lemma namespaced_snoc:
  "CHR ''/'' \<notin> set suffix \<Longrightarrow> namespaced (xs @ [r @ suffix]) suffix =
     (if dir_prefix xs @ r = [] \<or> last (dir_prefix xs @ r) = CHR ''/'' then None
      else Some (dir_prefix xs @ r))"
  by (simp add: namespaced_def show_path_snoc strip_suffix_path)

lemma namespaced_last:
  "namespaced (xs @ [s]) suffix = Some i \<Longrightarrow> CHR ''/'' \<notin> set suffix \<Longrightarrow>
   \<exists>r. s = r @ suffix \<and> i = dir_prefix xs @ r"
  by (auto simp: namespaced_def show_path_snoc strip_suffix_path strip_suffix_Some_iff
      split: option.splits if_splits)

lemma path_of_show: "proper p \<Longrightarrow> p \<noteq> [] \<Longrightarrow> path_of (show_path p) = p"
  by (auto simp: path_of_def show_path_def split_on_join proper_def filter_id_conv)

lemma show_path_Cons: "xs \<noteq> [] \<Longrightarrow> show_path (x # xs) = x @ ''/'' @ show_path xs"
  by (simp add: show_path_def join_with_Cons)

lemma check_no_fields: "check c kind i opn entry fs = Inr () \<Longrightarrow> check c kind i opn entry [] = Inr ()"
  by (auto simp: check_def check_fields_def split: if_splits option.splits)

lemma unmarked_target: "unmarked d \<Longrightarrow> is_file d q \<Longrightarrow> marker_target q = None"
  by (simp add: unmarked_def)

lemma split_last: "2 \<le> length q \<Longrightarrow> \<exists>xs. q = hd q # xs @ [last q]"
  by (cases q; cases "tl q" rule: rev_cases) auto

lemma granted_list:
  assumes "marker_target q = Some p" "hd q = ''lists''" "is_file d p" "proper p"
    and "check_governed_file cod ls c d q t = Inr ()"
  shows "change_granted c d p"
proof -
  obtain s where s: "2 \<le> length q" "last q = s @ ''.update.toml''" "p = sibling q (s @ ''.toml'')"
    using assms(1,2)
    by (auto simp: marker_target_def strip_suffix_Some_iff split: if_splits dest: take_two_hd)
  obtain xs where q: "q = ''lists'' # xs @ [s @ ''.update.toml'']"
    using split_last [OF s(1)] s(2) assms(2) by metis
  then have p: "p = ''lists'' # xs @ [s @ ''.toml'']" using s(3) by (simp add: sibling_def)
  let ?i = "dir_prefix xs @ s"
  have granted: "change_granted c d p \<longleftrightarrow>
      ?i = [] \<or> last ?i = CHR ''/'' \<or> check c ''list'' ?i Update None [] = Inr ()"
    by (auto simp: p change_granted_def namespaced_snoc [of "''.toml''"] package_manifest_def)
  have "path_of (''lists/'' @ ?i @ ''.toml'') = p"
    using path_of_show [OF assms(4)] p by (simp add: show_path_Cons show_path_snoc)
  then have "is_file_at d (''lists/'' @ ?i @ ''.toml'')" using assms(3) by (simp add: is_file_at_def)
  then have "?i = [] \<or> last ?i = CHR ''/'' \<or> check c ''list'' ?i Update None [] = Inr ()"
    using assms(5)
    by (auto simp add: q check_governed_file_def package_manifest_def govern_list_update_def
        namespaced_snoc [of "''.update.toml''"] ends_with_iff split: if_splits)
  with granted show ?thesis by blast
qed

lemma variable_id_snoc:
  "variable_id_for_relative (''variables'' # xs @ [s @ ''.toml'']) =
     (if s = [] then None else Some (without_update (dir_prefix xs @ s)))"
  by (simp add: variable_id_for_relative_def toml_stem_def show_path_snoc)

lemma without_update_path: "without_update (dir_prefix xs @ s) = dir_prefix xs @ without_update s"
  by (simp add: without_update_def strip_suffix_path split: option.splits)

lemma granted_variable:
  assumes "marker_target q = Some p" "hd q = ''variables''" "is_file d p" "unmarked d"
    and "check_governed_file cod ls c d q t = Inr ()"
  shows "change_granted c d p"
proof -
  obtain s where s: "2 \<le> length q" "last q = s @ ''.update.toml''" "p = sibling q (s @ ''.toml'')"
    using assms(1,2)
    by (auto simp: marker_target_def strip_suffix_Some_iff split: if_splits dest: take_two_hd)
  obtain xs where q: "q = ''variables'' # xs @ [s @ ''.update.toml'']"
    using split_last [OF s(1)] s(2) assms(2) by metis
  then have p: "p = ''variables'' # xs @ [s @ ''.toml'']" using s(3) by (simp add: sibling_def)
  have plain_stem: "strip_suffix ''.update'' s = None"
    using unmarked_target [OF assms(4,3)]
    by (cases "strip_suffix ''.update'' s")
      (auto simp: p marker_target_def strip_suffix_Some_iff split: if_splits)
  have id: "variable_id_for_relative q = Some (dir_prefix xs @ s)"
    using variable_id_snoc [of xs "s @ ''.update''"] without_update_path [of xs "s @ ''.update''"]
    by (simp add: q without_update_def)
  have "check c ''variable'' (dir_prefix xs @ s) Update None [] = Inr ()"
    using assms(3,5) s(3)
    by (simp add: q id [unfolded q] check_governed_file_def package_manifest_def govern_variable_def
        ends_with_iff split: if_splits)
  then show ?thesis
    using without_update_path [of xs s] plain_stem
    by (auto simp: p change_granted_def package_manifest_def variable_id_snoc without_update_def)
qed

lemma entry_path:
  assumes "4 \<le> length q" "take 2 q = [''data'', ''catalogs'']"
  obtains xs l where "q = ''data'' # ''catalogs'' # xs @ [l]" "xs \<noteq> []"
proof -
  obtain r where r: "q = ''data'' # ''catalogs'' # r"
    using assms by (metis append_Cons append_Nil append_take_drop_id)
  then have "2 \<le> length r" using assms(1) by simp
  then have "r \<noteq> []" "butlast r \<noteq> []" by (auto simp flip: length_greater_0_conv)
  then show thesis using that [of "butlast r" "last r"] r by simp
qed

lemma granted_entry:
  assumes "marker_target q = Some p" "hd q = ''data''"
    and "check_governed_file cod ls c d q t = Inr ()"
  shows "change_granted c d p"
proof -
  obtain s where s: "4 \<le> length q" "take 2 q = [''data'', ''catalogs'']" "marker_stem (last q) = Some s"
    "p = sibling q (s @ ''.toml'')"
    using assms(1,2) by (auto simp: marker_target_def split: if_splits)
  obtain xs l where q: "q = ''data'' # ''catalogs'' # xs @ [l]" "xs \<noteq> []"
    using s(1,2) by (rule entry_path)
  then have p: "p = ''data'' # ''catalogs'' # xs @ [s @ ''.toml'']" and l: "last q = l"
    using s(4) by (simp_all add: sibling_def)
  have govern: "govern_catalog_entry cod ls c d q t = Inr ()"
    using assms(3) q s(1)
    by (simp add: check_governed_file_def package_manifest_def split: if_splits)
  show ?thesis
  proof (cases "catalog_of d xs (length xs)")
    case None
    then show ?thesis using q(2) by (simp add: p change_granted_def package_manifest_def Suc_le_eq)
  next
    case (Some cn)
    obtain catalog namespace where cn: "cn = (catalog, namespace)" by (cases cn)
    let ?e = "entry_name namespace s"
    have mid: "butlast (drop 2 q) = xs" by (simp add: q(1))
    have "check c ''catalog'' catalog Delete (Some ?e) [] = Inr ()
        \<or> check c ''catalog'' catalog Update (Some ?e) [] = Inr ()"
    proof (cases "strip_suffix ''.deleted.toml'' (last q)")
      case (Some s')
      then have "s' = s" using s(3) by (simp add: marker_stem_def or_else_def)
      then show ?thesis
        using govern Some \<open>catalog_of d xs (length xs) = Some cn\<close> cn mid
        by (auto simp: govern_catalog_entry_def Let_def rbind_eq_Inr update_and_delete_def split: if_splits)
    next
      case None
      then have "strip_suffix ''.update.toml'' (last q) = Some s"
        using s(3) by (simp add: marker_stem_def or_else_def)
      then show ?thesis
        using govern None \<open>catalog_of d xs (length xs) = Some cn\<close> cn mid check_no_fields
        by (auto simp: govern_catalog_entry_def Let_def rbind_eq_Inr)
    qed
    then show ?thesis
      using Some cn q(2) by (simp add: p change_granted_def package_manifest_def Suc_le_eq)
  qed
qed

lemma plain_list:
  assumes "plain p" "hd p = ''lists''" "p \<noteq> []"
  shows "namespaced (drop 1 p) ''.toml'' = None"
proof (cases "2 \<le> length p")
  case True
  then obtain xs l where p: "p = ''lists'' # xs @ [l]" using split_last assms(2) by metis
  show ?thesis
  proof (cases "namespaced (xs @ [l]) ''.toml''")
    case (Some i)
    from namespaced_last [OF this] have "ends_with ''.toml'' l" by (auto simp: ends_with_iff)
    then have False using assms(1) p by (auto simp: plain_def classify_simps split: if_splits)
    then show ?thesis ..
  qed (simp add: p)
next
  case False
  with assms(3) have "drop 1 p = []" by (cases p) (auto simp: not_le)
  then show ?thesis by (simp add: namespaced_def show_path_def strip_suffix_def)
qed

lemma granted_direct:
  assumes "is_file d p" "unmarked d" "plain p" "check_governed_file cod ls c d p (Some t) = Inr ()"
  shows "change_granted c d p"
proof -
  have unmarked_variable: "\<not> ends_with ''.update.toml'' (last p)" if "2 \<le> length p" "hd p = ''variables''"
    using unmarked_target [OF assms(2,1)] that by (auto simp: marker_target_simps ends_with_iff)
  have entry: "catalog_of d (butlast (drop 2 p)) (length (butlast (drop 2 p))) = None
      \<or> strip_suffix ''.toml'' (last p) = None"
    if "govern_catalog_entry cod ls c d p (Some t) = Inr ()" "4 \<le> length p" "take 2 p = [''data'', ''catalogs'']"
    using that unmarked_target [OF assms(2,1)] assms(1)
    by (auto simp: govern_catalog_entry_def Let_def marker_target_simps marker_stem_def or_else_def
        split: option.splits)
  note c = assms(4) [unfolded check_governed_file_def]
  have lists: "namespaced (drop 1 p) ''.toml'' = None" if "1 \<le> length p \<and> hd p = ''lists''"
    using plain_list [OF assms(3)] that by (cases "p = []") auto
  show ?thesis
    unfolding change_granted_def
    apply (intro if_bool_eq_conj [THEN iffD2] conjI impI)
               apply simp
              subgoal using c assms(1) by (auto simp: govern_schema_def schema_edit_denied_def split: option.splits if_splits)
             subgoal using c assms(1) by (simp add: govern_sample_def split: option.splits if_splits)
            subgoal using c assms(1) by (auto simp: govern_schema_def schema_edit_denied_def split: option.splits if_splits)
           subgoal using lists by (simp only: option.case)
          subgoal using c entry by (auto split: option.splits)
         subgoal using c assms(1) unmarked_variable
           by (auto simp: govern_variable_def variable_restate_denied_def split: option.splits)
        subgoal using c assms(1) by (auto simp: govern_layer_def split: option.splits if_splits)
       subgoal using c assms(1) by (auto split: if_splits)
    done
qed

lemma overlaid_granted:
  assumes "enforce_layer_governance cod ls base = Inr ()" "overlaid (tree ls) base p"
    and "is_file base p" "unmarked base" "proper p"
  shows "change_granted (projection_contract cod base) base p"
proof -
  let ?c = "projection_contract cod base"
  obtain q t where q: "layer_file (tree ls) q = Some t"
    "marker_target q = Some p \<or> q = p \<and> plain q \<and> files base p \<noteq> Some t"
    using assms(2) by (auto simp: overlaid_def)
  from enforced_file [OF assms(1) q(1)]
  have checked: "files base q = Some t \<or> check_governed_file cod ls ?c base q (Some t) = Inr ()" .
  show ?thesis
  proof (cases "marker_target q = Some p")
    case True
    with assms(4) have "files base q = None" by (auto simp: unmarked_def is_file_def)
    with checked have ok: "check_governed_file cod ls ?c base q (Some t) = Inr ()" by simp
    have "hd q \<in> {''data'', ''variables'', ''lists''}"
      using True by (auto simp: marker_target_def split: if_splits dest: take_two_hd)
    then show ?thesis
      using granted_list [OF True _ assms(3,5) ok] granted_variable [OF True _ assms(3,4) ok]
        granted_entry [OF True _ ok] by auto
  next
    case False
    then show ?thesis using q(2) checked granted_direct assms(3,4) by auto
  qed
qed


definition example_codec :: codec where
  "example_codec = \<lparr>
     parse_toml = (\<lambda>t.
       if t = ''G'' then Inr (TTable [(''variable'', TTable [(''plan'', TTable
         [(''allowed_operations'', TArray [TString ''update''])])])])
       else if t = ''V'' then Inr (TTable [(''resolve'', TInteger 1), (''type'', TString ''int'')])
       else if t = ''U'' then Inr (TTable [(''resolve'', TInteger 2)])
       else Inl ''no''),
     print_toml = (\<lambda>v. if toml_get v ''resolve'' = Some (TInteger 2) then Inr ''W'' else Inl ''no''),
     show_toml = (\<lambda>_. []), parse_sidecar = (\<lambda>_. None), print_sidecar = (\<lambda>_. ''S''),
     read_error = ''unreadable''\<rparr>"

definition example_base :: disk where
  "example_base = \<lparr>
     files = (\<lambda>q. None)([''governance.toml''] \<mapsto> ''G'', [''variables'', ''plan.toml''] \<mapsto> ''V''),
     dirs = (\<lambda>q. q = [] \<or> q = [''variables''])\<rparr>"

definition example_layer :: entries where
  "example_layer = [(''variables'', Directory [(''plan.update.toml'', File ''U'')])]"


text \<open>What the check does not see: a directory, even an empty one, with the name of a base file, and a
  file with the name of a base directory.\<close>

definition governed_base :: disk where
  "governed_base = \<lparr>
     files = (\<lambda>q. None)([''variables'', ''plan.toml''] \<mapsto> ''V'',
       [''model'', ''catalogs'', ''banner.schema.json''] \<mapsto> ''M'',
       [''data'', ''catalogs'', ''banner'', ''summer.toml''] \<mapsto> ''E''),
     dirs = (\<lambda>q. q \<in> {[], [''variables''], [''model''], [''model'', ''catalogs''], [''data''],
       [''data'', ''catalogs''], [''data'', ''catalogs'', ''banner'']})\<rparr>"

definition clash_layer :: entries where
  "clash_layer =
     [(''data'', Directory [(''catalogs'', Directory [(''banner'', File [])])]),
      (''variables'', Directory [(''plan.toml'', Directory [])])]"

text \<open>A projection without a contract grants nothing, yet a layer with a file
  named as the directory of a catalog and an empty directory named as a variable file passes the governance check, and
  its copy removes the catalog's entries and the variable.\<close>

theorem clash_escapes_governance:
  "enforce_layer_governance cod (layer_of cod clash_layer source target written) governed_base = Inr ()
   \<and> (\<exists>after. copy_package_layer cod (layer_of cod clash_layer source target written) True None governed_base
          = Inr (after, None)
        \<and> files after [''data'', ''catalogs'', ''banner'', ''summer.toml''] = None
        \<and> files after [''variables'', ''plan.toml''] = None)
   \<and> \<not> change_granted (projection_contract cod governed_base) governed_base
         [''data'', ''catalogs'', ''banner'', ''summer.toml'']
   \<and> \<not> change_granted (projection_contract cod governed_base) governed_base [''variables'', ''plan.toml'']"
proof -
  let ?ls = "layer_of cod clash_layer source target written"
  have contract: "projection_contract cod governed_base = default_contract"
    by (simp add: projection_contract_def read_governance_contract_def governed_base_def)
  have "enforce_layer_governance cod ?ls governed_base = Inr ()"
    by (simp add: enforce_layer_governance_def layer_of_def clash_layer_def enforce_file_def content_def
        file_identical_def check_governed_file_def package_manifest_def)
  moreover have "\<exists>after. copy_package_layer cod ?ls True None governed_base = Inr (after, None)
        \<and> files after [''data'', ''catalogs'', ''banner'', ''summer.toml''] = None
        \<and> files after [''variables'', ''plan.toml''] = None"
    by (simp add: copy_package_layer_def layer_of_def clash_layer_def skipped_def provenance_file_def
        open_dir_def land_file_def admit_def compose_package_layer_file_def classify_layer_file_def
        compose_replace_def variable_id_for_relative_def is_file_def governed_base_def
        create_dir_all_def remove_dir_all_def remove_file_def write_file_def below_def Let_def)
  moreover have "\<not> change_granted default_contract governed_base
         [''data'', ''catalogs'', ''banner'', ''summer.toml'']" by code_simp
  moreover have "\<not> change_granted default_contract governed_base [''variables'', ''plan.toml'']" by code_simp
  ultimately show ?thesis unfolding contract by blast
qed

end
