(* ===== verification/Sources.thy ===== *)
theory Sources
  imports Json
begin

text \<open>
  Package sources: their fingerprints and layers (src/src/source/types.rs), the
  grammar of source URIs (src/src/source/uri.rs), which relative paths are safe
  (src/src/source/path.rs), and the \<open>extends\<close> list of a manifest
  (src/src/package.rs).
\<close>

section \<open>Fingerprints and layers\<close>

datatype source_fingerprint =
    GitCommit string
  | HttpValidator string
  | ContentHash string
  | PackageLayers "source_fingerprint list"

datatype source_probe =
    ProbeUnchanged
  | ProbeChanged "source_fingerprint option"
  | ProbeImmutablePinned source_fingerprint
  | ProbeUnknown

record source_layer =
  sl_source :: string
  sl_fingerprint :: "source_fingerprint option"
  sl_immutable :: bool

section \<open>URIs\<close>

record source_uri =
  uri_scheme :: string
  uri_base :: string
  uri_ref :: "string option"
  uri_subdir :: "string option"

definition nonempty :: "string \<Rightarrow> string option" where
  "nonempty s = (if s = [] then None else Some s)"

definition invalid_uri :: "string \<Rightarrow> 'a res" where
  "invalid_uri source = err (''package source URI is invalid: '' @ source)"

definition uri_fragment :: "string option \<Rightarrow> string option \<times> string option" where
  "uri_fragment fragment =
     (case fragment of
        None \<Rightarrow> (None, None)
      | Some f \<Rightarrow>
          (case split_once (CHR '':'') f of
             Some (r, subdir) \<Rightarrow> (nonempty r, nonempty subdir)
           | None \<Rightarrow> (nonempty f, None)))"

definition parse_source_uri :: "string \<Rightarrow> source_uri option res" where
  "parse_source_uri source =
     (case split_once_str ''://'' source of
        None \<Rightarrow> Inr None
      | Some (scheme, rest) \<Rightarrow>
          if scheme = [] \<or> rest = [] then invalid_uri source
          else
            (case (case split_once (CHR ''#'') rest of
                     Some (b, f) \<Rightarrow> (b, Some f) | None \<Rightarrow> (rest, None)) of
               (b, fragment) \<Rightarrow>
                 if b = [] then invalid_uri source
                 else Inr (Some \<lparr>uri_scheme = to_ascii_lower scheme, uri_base = b,
                        uri_ref = fst (uri_fragment fragment), uri_subdir = snd (uri_fragment fragment)\<rparr>)))"

definition is_local_filesystem :: "source_uri \<Rightarrow> bool" where
  "is_local_filesystem uri = (uri_scheme uri \<in> {''file'', ''git+file''})"

section \<open>Paths\<close>

text \<open>
  \<open>Path::components\<close> on Unix: empty pieces are dropped, a leading slash is the root, a
  leading dot is \<open>CurDir\<close>, other dots are dropped, two dots are \<open>ParentDir\<close>.
\<close>

datatype path_component = RootDir | CurDir | ParentDir | Normal string

definition is_absolute :: "string \<Rightarrow> bool" where
  "is_absolute p = starts_with ''/'' p"

definition component_of :: "string \<Rightarrow> path_component" where
  "component_of s = (if s = ''..'' then ParentDir else Normal s)"

definition components :: "string \<Rightarrow> path_component list" where
  "components p =
     (let pieces = split_on (CHR ''/'') p;
          kept = map component_of (filter (\<lambda>s. s \<noteq> [] \<and> s \<noteq> ''.'') pieces) in
      if is_absolute p then RootDir # kept
      else if hd pieces = ''.'' then CurDir # kept
      else kept)"

definition is_normal :: "path_component \<Rightarrow> bool" where
  "is_normal c = (case c of Normal _ \<Rightarrow> True | _ \<Rightarrow> False)"

definition relative_path_is_safe :: "string \<Rightarrow> bool" where
  "relative_path_is_safe p = (p \<noteq> [] \<and> \<not> is_absolute p \<and> list_all is_normal (components p))"

text \<open>\<open>Path::join\<close>: an absolute argument replaces the base.\<close>

definition path_join :: "string \<Rightarrow> string \<Rightarrow> string" where
  "path_join b p =
     (if is_absolute p then p
      else if b = [] \<or> last b = CHR ''/'' then b @ p
      else b @ ''/'' @ p)"

section \<open>The extends list\<close>

fun extends_sources :: "toml list \<Rightarrow> string list res" where
  "extends_sources [] = Inr []"
| "extends_sources (v # vs) =
     (case toml_as_str v of
        None \<Rightarrow> err ''package extends sources must be strings''
      | Some s \<Rightarrow>
          if trim s = [] then err ''package extends source must not be blank''
          else if trim s \<noteq> s then
            err ''package extends source must not contain surrounding whitespace''
          else rbind (extends_sources vs) (\<lambda>ss. Inr (s # ss)))"

definition package_extends_sources :: "toml \<Rightarrow> string list res" where
  "package_extends_sources manifest =
     (case toml_get manifest ''extends'' of
        None \<Rightarrow> Inr []
      | Some v \<Rightarrow>
          (case toml_as_array v of
             None \<Rightarrow> err ''package extends must be an array of sources''
           | Some vs \<Rightarrow> extends_sources vs))"

definition validate_package_manifest :: "toml \<Rightarrow> unit res" where
  "validate_package_manifest manifest =
     (case toml_get manifest ''schema_version'' of
        Some (TInteger n) \<Rightarrow>
          if n \<noteq> 1 then err (''unsupported package schema_version: '' @ show_int n)
          else rbind (package_extends_sources manifest) (\<lambda>_. Inr ())
      | _ \<Rightarrow> err ''package manifest must declare schema_version = 1'')"

lemma safe_components:
  assumes "relative_path_is_safe p" "x \<in> set (split_on (CHR ''/'') p)"
  shows "x \<noteq> ''..''"
proof
  assume "x = ''..''"
  with assms have "ParentDir \<in> set (components p)"
    by (force simp: components_def component_of_def Let_def image_iff)
  with assms(1) show False by (auto simp: relative_path_is_safe_def list_all_iff is_normal_def)
qed

lemma extends_sources_Inr:
  "extends_sources vs = Inr ss \<Longrightarrow> map TString ss = vs \<and> (\<forall>s \<in> set ss. s \<noteq> [] \<and> trim s = s)"
  by (induction vs arbitrary: ss) (auto simp: rbind_eq_Inr split: option.splits if_splits)

end
