(* ===== verification/Refresh.thy ===== *)
theory Refresh
  imports Sources
begin

text \<open>
  The refresh lifecycle of a loaded package (src/src/sdk/refresh.rs) with the
  identities it reports (src/src/sdk.rs): starting on the primary source or on the
  fallback, one refresh attempt under the refresh lock, the probe of a layered
  source, the background loop with its backoff, and the events. What an attempt asks
  of the outside, the probe and the load of a source, the clock and the event ids, is one
  record per attempt. The tokio channels are the list of the events sent.
\<close>

section \<open>Packages and identities\<close>

text \<open>A point in time is the number of nanoseconds since the epoch.\<close>

type_synonym time = nat

text \<open>
  What staging, inspecting, linting and compiling a source yields
  (\<open>LoadedPackageSource\<close> with the inspection and the runtime package as one value), and the
  package built from it.
\<close>

record 'rt loaded =
  ld_runtime :: 'rt
  ld_fingerprint :: "source_fingerprint option"
  ld_immutable :: bool
  ld_layers :: "source_layer list"
  ld_at :: time

record 'rt package =
  pk_runtime :: 'rt
  pk_source :: string
  pk_loaded_at :: time
  pk_fingerprint :: "source_fingerprint option"
  pk_immutable :: bool
  pk_layers :: "source_layer list"
  pk_served_fallback :: bool

definition inspect_loaded :: "string \<Rightarrow> 'rt loaded \<Rightarrow> 'rt package" where
  "inspect_loaded source l =
     \<lparr>pk_runtime = ld_runtime l, pk_source = source, pk_loaded_at = ld_at l,
      pk_fingerprint = ld_fingerprint l, pk_immutable = ld_immutable l, pk_layers = ld_layers l,
      pk_served_fallback = False\<rparr>"

definition redacted_source :: "string \<Rightarrow> string" where
  "redacted_source source =
     (case split_once_str ''://'' source of
        Some (scheme, rest) \<Rightarrow>
          if CHR ''@'' \<in> set rest then
            (let host = (case rsplit_once (CHR ''@'') rest of Some (_, h) \<Rightarrow> h | None \<Rightarrow> rest) in
             scheme @ ''://<redacted>@'' @ host)
          else source
      | None \<Rightarrow> source)"

text \<open>\<open>is_ascii_alphanumeric\<close>; \<open>hash\<close> is the truncated SHA-256 in hexadecimal.\<close>

definition is_alphanumeric :: "char \<Rightarrow> bool" where
  "is_alphanumeric c =
     (is_digit c \<or> is_lower c \<or> (65 \<le> (of_char c :: nat) \<and> (of_char c :: nat) \<le> 90))"

definition release_id_from_http_validator :: "(string \<Rightarrow> string) \<Rightarrow> string \<Rightarrow> string" where
  "release_id_from_http_validator hash value =
     (let opaque = ''http:'' @ hash value in
      case find_sub ''sha256:'' value of
        Some i \<Rightarrow>
          (let digest = takeWhile (\<lambda>c. is_alphanumeric c \<or> c = CHR '':'') (drop i value) in
           if length ''sha256:'' < length digest then digest else opaque)
      | None \<Rightarrow> opaque)"

fun release_id_from_fingerprint :: "(string \<Rightarrow> string) \<Rightarrow> source_fingerprint \<Rightarrow> string" where
  "release_id_from_fingerprint hash (GitCommit commit) = ''git:'' @ commit"
| "release_id_from_fingerprint hash (ContentHash h) = h"
| "release_id_from_fingerprint hash (HttpValidator v) = release_id_from_http_validator hash v"
| "release_id_from_fingerprint hash (PackageLayers layers) =
     ''layers:'' @ hash (join_with [CHR 0x0A] (map (release_id_from_fingerprint hash) layers))"

record layer_identity =
  li_source :: string
  li_fingerprint :: "source_fingerprint option"
  li_release :: "string option"
  li_immutable :: bool

record package_identity =
  pi_source :: string
  pi_fingerprint :: "source_fingerprint option"
  pi_release :: "string option"
  pi_loaded_at :: time
  pi_immutable :: bool
  pi_layers :: "layer_identity list"

definition layer_identity_of :: "(string \<Rightarrow> string) \<Rightarrow> source_layer \<Rightarrow> layer_identity" where
  "layer_identity_of hash l =
     \<lparr>li_source = redacted_source (sl_source l), li_fingerprint = sl_fingerprint l,
      li_release = map_option (release_id_from_fingerprint hash) (sl_fingerprint l),
      li_immutable = sl_immutable l\<rparr>"

definition identity :: "(string \<Rightarrow> string) \<Rightarrow> 'rt package \<Rightarrow> package_identity" where
  "identity hash p =
     \<lparr>pi_source = redacted_source (pk_source p), pi_fingerprint = pk_fingerprint p,
      pi_release = map_option (release_id_from_fingerprint hash) (pk_fingerprint p),
      pi_loaded_at = pk_loaded_at p, pi_immutable = pk_immutable p,
      pi_layers = map (layer_identity_of hash) (pk_layers p)\<rparr>"

section \<open>Status and events\<close>

record refresh_status =
  current_fingerprint :: "source_fingerprint option"
  last_success :: "time option"
  last_attempt :: "time option"
  consecutive_failures :: "64 word"
  last_error :: "string option"
  refreshing :: bool
  immutable :: bool
  serving_fallback :: bool

definition stale :: "refresh_status \<Rightarrow> time \<Rightarrow> nat \<Rightarrow> bool" where
  "stale s now max_staleness =
     (case last_success s of
        Some t \<Rightarrow> t \<le> now \<and> max_staleness < now - t
      | None \<Rightarrow> False)"

datatype refresh_outcome = OutcomeUnchanged | OutcomeRefreshed | OutcomeImmutable

datatype refresh_event_type =
    EventLoaded | EventFallbackLoaded | EventRefreshStarted | EventUnchanged | EventRefreshed
  | EventFailed | EventImmutable | EventShutdown

definition event_type_name :: "refresh_event_type \<Rightarrow> string" where
  "event_type_name t =
     (case t of
        EventLoaded \<Rightarrow> ''loaded''
      | EventFallbackLoaded \<Rightarrow> ''fallback_loaded''
      | EventRefreshStarted \<Rightarrow> ''refresh_started''
      | EventUnchanged \<Rightarrow> ''unchanged''
      | EventRefreshed \<Rightarrow> ''refreshed''
      | EventFailed \<Rightarrow> ''failed''
      | EventImmutable \<Rightarrow> ''immutable''
      | EventShutdown \<Rightarrow> ''shutdown'')"

text \<open>An event, without the constant identity of the SDK.\<close>

record refresh_event =
  ev_id :: string
  ev_type :: refresh_event_type
  ev_source :: string
  ev_previous :: "package_identity option"
  ev_current :: "package_identity option"
  ev_attempted_at :: time
  ev_completed_at :: time
  ev_duration :: nat
  ev_outcome :: "refresh_outcome option"
  ev_failures :: "64 word"
  ev_error :: "string option"

definition new_event ::
  "string \<Rightarrow> refresh_event_type \<Rightarrow> string \<Rightarrow> package_identity option \<Rightarrow> package_identity option
   \<Rightarrow> time \<Rightarrow> time \<Rightarrow> refresh_outcome option \<Rightarrow> 64 word \<Rightarrow> string option \<Rightarrow> refresh_event" where
  "new_event uuid ty source previous current_id attempted completed outcome failures problem =
     \<lparr>ev_id = uuid, ev_type = ty, ev_source = redacted_source source, ev_previous = previous,
      ev_current = current_id, ev_attempted_at = attempted, ev_completed_at = completed,
      ev_duration = completed - attempted, ev_outcome = outcome, ev_failures = failures,
      ev_error = problem\<rparr>"

record event_summary =
  es_id :: string
  es_type :: refresh_event_type
  es_release :: "string option"
  es_completed_at :: time

definition summary :: "refresh_event \<Rightarrow> event_summary" where
  "summary e =
     \<lparr>es_id = ev_id e, es_type = ev_type e, es_release = Option.bind (ev_current e) pi_release,
      es_completed_at = ev_completed_at e\<rparr>"

section \<open>The state\<close>

record 'rt refresh_state =
  current :: "'rt package"
  status :: refresh_status
  last_event :: "event_summary option"
  sent :: "refresh_event list"

definition emit_event :: "refresh_event \<Rightarrow> 'rt refresh_state \<Rightarrow> 'rt refresh_state" where
  "emit_event e st = st\<lparr>last_event := Some (summary e), sent := sent st @ [e]\<rparr>"

record refresh_snapshot =
  sn_identity :: package_identity
  sn_last_attempt :: "time option"
  sn_last_success :: "time option"
  sn_last_event :: "event_summary option"
  sn_consecutive_failures :: "64 word"
  sn_last_error :: "string option"
  sn_refreshing :: bool
  sn_immutable :: bool
  sn_serving_fallback :: bool

definition snapshot :: "(string \<Rightarrow> string) \<Rightarrow> 'rt refresh_state \<Rightarrow> refresh_snapshot" where
  "snapshot hash st =
     (let s = status st in
      \<lparr>sn_identity = identity hash (current st), sn_last_attempt = last_attempt s,
       sn_last_success = last_success s, sn_last_event = last_event st,
       sn_consecutive_failures = consecutive_failures s, sn_last_error = last_error s,
       sn_refreshing = refreshing s, sn_immutable = immutable s,
       sn_serving_fallback = serving_fallback s\<rparr>)"

text \<open>What one attempt sees of the outside.\<close>

record 'rt attempt =
  at_started :: time
  at_finished :: time
  at_uuid :: string
  at_hash :: "string \<Rightarrow> string"
  at_probe :: "string \<Rightarrow> source_fingerprint option \<Rightarrow> string + source_probe"
  at_load :: "string \<Rightarrow> string + 'rt loaded"

definition load_snapshot :: "'rt attempt \<Rightarrow> string \<Rightarrow> string + 'rt package" where
  "load_snapshot a source = rbind (at_load a source) (\<lambda>l. Inr (inspect_loaded source l))"

section \<open>One refresh\<close>

fun probe_layers ::
  "(string \<Rightarrow> source_fingerprint option \<Rightarrow> string + source_probe) \<Rightarrow> source_layer list \<Rightarrow> string + source_probe"
  where
  "probe_layers probe [] = Inr ProbeUnchanged"
| "probe_layers probe (l # ls) =
     rbind (probe (sl_source l) (sl_fingerprint l)) (\<lambda>p.
       case p of
         ProbeUnchanged \<Rightarrow> probe_layers probe ls
       | ProbeImmutablePinned _ \<Rightarrow>
           if sl_immutable l then probe_layers probe ls else Inr ProbeUnchanged
       | ProbeChanged f \<Rightarrow> Inr (ProbeChanged f)
       | ProbeUnknown \<Rightarrow> Inr ProbeUnknown)"

definition probe_package_source_graph ::
  "(string \<Rightarrow> source_fingerprint option \<Rightarrow> string + source_probe) \<Rightarrow> string
   \<Rightarrow> source_fingerprint option \<Rightarrow> source_layer list \<Rightarrow> string + source_probe" where
  "probe_package_source_graph probe source previous layers =
     (if length layers \<le> 1 then probe source previous else probe_layers probe layers)"

definition accept_package :: "'rt attempt \<Rightarrow> string \<Rightarrow> 'rt package \<Rightarrow> 'rt refresh_state \<Rightarrow> 'rt refresh_state"
  where
  "accept_package a source p st =
     emit_event (new_event (at_uuid a) EventRefreshed source
         (Some (identity (at_hash a) (current st))) (Some (identity (at_hash a) p))
         (at_started a) (pk_loaded_at p) (Some OutcomeRefreshed) 0 None)
       (st\<lparr>current := p,
          status := (status st)\<lparr>current_fingerprint := pk_fingerprint p,
            last_success := Some (pk_loaded_at p), consecutive_failures := 0, last_error := None,
            immutable := pk_immutable p, serving_fallback := False\<rparr>\<rparr>)"

definition refresh_once_inner ::
  "'rt attempt \<Rightarrow> string \<Rightarrow> 'rt refresh_state \<Rightarrow> (string + refresh_outcome) \<times> 'rt refresh_state" where
  "refresh_once_inner a source st =
     (let c = current st; here = Some (identity (at_hash a) c) in
      case (if pk_served_fallback c then Inr ProbeUnknown
            else probe_package_source_graph (at_probe a) source (pk_fingerprint c) (pk_layers c)) of
        Inl e \<Rightarrow> (Inl e, st)
      | Inr ProbeUnchanged \<Rightarrow>
          (Inr OutcomeUnchanged,
           emit_event (new_event (at_uuid a) EventUnchanged source None here
             (at_started a) (at_finished a) (Some OutcomeUnchanged) 0 None) st)
      | Inr (ProbeImmutablePinned f) \<Rightarrow>
          (Inr OutcomeImmutable,
           emit_event (new_event (at_uuid a) EventImmutable source None here
             (at_started a) (at_finished a) (Some OutcomeImmutable) 0 None)
             (st\<lparr>status := (status st)\<lparr>current_fingerprint := Some f, immutable := True\<rparr>\<rparr>))
      | Inr _ \<Rightarrow>
          (case load_snapshot a source of
             Inl e \<Rightarrow> (Inl e, st)
           | Inr p \<Rightarrow> (Inr OutcomeRefreshed, accept_package a source p st)))"

definition saturating_add :: "'a::len word \<Rightarrow> 'a word \<Rightarrow> 'a word" where
  "saturating_add x y = (if unat x + unat y < 2 ^ LENGTH('a) then x + y else - 1)"

definition begin_refresh :: "'rt attempt \<Rightarrow> 'rt refresh_state \<Rightarrow> 'rt refresh_state" where
  "begin_refresh a st =
     st\<lparr>status := (status st)\<lparr>last_attempt := Some (at_started a), refreshing := True\<rparr>\<rparr>"

definition end_refresh ::
  "'rt attempt \<Rightarrow> string \<Rightarrow> string + refresh_outcome \<Rightarrow> 'rt refresh_state \<Rightarrow> 'rt refresh_state" where
  "end_refresh a source result st =
     (let s = (status st)\<lparr>refreshing := False\<rparr> in
      case result of
        Inr _ \<Rightarrow> st\<lparr>status := s\<rparr>
      | Inl e \<Rightarrow>
          (let failures = saturating_add (consecutive_failures s) 1 in
           emit_event (new_event (at_uuid a) EventFailed source None
               (Some (identity (at_hash a) (current st)))
               (at_started a) (at_finished a) None failures (Some e))
             (st\<lparr>status := s\<lparr>consecutive_failures := failures, last_error := Some e\<rparr>\<rparr>)))"

text \<open>The refresh lock makes one attempt run at a time, so it is one transition.\<close>

definition refresh_once ::
  "'rt attempt \<Rightarrow> string \<Rightarrow> 'rt refresh_state \<Rightarrow> (string + refresh_outcome) \<times> 'rt refresh_state" where
  "refresh_once a source st =
     (case refresh_once_inner a source (begin_refresh a st) of
        (result, st') \<Rightarrow> (result, end_refresh a source result st'))"

section \<open>Backoff\<close>

text \<open>
  \<open>Duration\<close> counts seconds in 64 bits and nanoseconds below a second; its
  multiplication saturates.
\<close>

definition duration_max :: nat where
  "duration_max = 2 ^ 64 * 10 ^ 9 - 1"

record refresh_options =
  period :: "nat option"
  max_staleness_of :: "nat option"
  min_failure_backoff :: nat
  max_failure_backoff :: nat

definition default_refresh_options :: refresh_options where
  "default_refresh_options =
     \<lparr>period = None, max_staleness_of = None, min_failure_backoff = 5 * 10 ^ 9,
      max_failure_backoff = 300 * 10 ^ 9\<rparr>"

definition failure_backoff :: "64 word \<Rightarrow> refresh_options \<Rightarrow> nat" where
  "failure_backoff failures o1 =
     (if failures = 0 then 0
      else let shift = min (unat (failures - 1)) 20; multiplier = unat (push_bit shift (1 :: 32 word)) in
        min (min (min_failure_backoff o1 * multiplier) duration_max) (max_failure_backoff o1))"

section \<open>Starting\<close>

datatype phase = Sleeping | BackingOff nat

record 'rt handle =
  hd_source :: string
  hd_options :: refresh_options
  hd_state :: "'rt refresh_state"
  hd_task :: "phase option"
  hd_open :: bool

definition fallback_load_error :: "string \<Rightarrow> string \<Rightarrow> string \<Rightarrow> string \<Rightarrow> string" where
  "fallback_load_error primary primary_err fallback fallback_err =
     ''failed to load package from primary '' @ quoted (redacted_source primary) @ '': '' @ primary_err
     @ ''; fallback '' @ quoted (redacted_source fallback) @ '' also failed: '' @ fallback_err"

text \<open>The package to start on, and why the primary failed if it is the fallback.\<close>

definition start_package ::
  "'rt attempt \<Rightarrow> string \<Rightarrow> string option \<Rightarrow> string + ('rt package \<times> string option)" where
  "start_package a source fallback_source =
     (case load_snapshot a source of
        Inr p \<Rightarrow> Inr (p, None)
      | Inl primary_err \<Rightarrow>
          (case fallback_source of
             None \<Rightarrow> Inl primary_err
           | Some fallback \<Rightarrow>
               (case load_snapshot a fallback of
                  Inl fallback_err \<Rightarrow> Inl (fallback_load_error source primary_err fallback fallback_err)
                | Inr p \<Rightarrow> Inr (p\<lparr>pk_served_fallback := True\<rparr>, Some primary_err))))"

definition start_state ::
  "'rt attempt \<Rightarrow> string \<Rightarrow> 'rt package \<Rightarrow> string option \<Rightarrow> 'rt refresh_state" where
  "start_state a source p primary_error =
     emit_event
       (new_event (at_uuid a) (if pk_served_fallback p then EventFallbackLoaded else EventLoaded) source
          None (Some (identity (at_hash a) p)) (at_started a) (pk_loaded_at p) None 0 primary_error)
       \<lparr>current = p,
        status = \<lparr>current_fingerprint = pk_fingerprint p, last_success = Some (pk_loaded_at p),
          last_attempt = None, consecutive_failures = 0, last_error = primary_error, refreshing = False,
          immutable = pk_immutable p \<and> \<not> pk_served_fallback p,
          serving_fallback = pk_served_fallback p\<rparr>,
        last_event = None, sent = []\<rparr>"

definition load_with_options ::
  "'rt attempt \<Rightarrow> string \<Rightarrow> string option \<Rightarrow> refresh_options \<Rightarrow> string + 'rt handle" where
  "load_with_options a source fallback_source o1 =
     rbind (start_package a source fallback_source) (\<lambda>(p, primary_error).
       let st = start_state a source p primary_error in
       Inr \<lparr>hd_source = source, hd_options = o1, hd_state = st,
            hd_task = (if period o1 \<noteq> None \<and> \<not> immutable (status st) then Some Sleeping else None),
            hd_open = True\<rparr>)"

section \<open>The loop and the operations of the handle\<close>

definition refresh_now :: "'rt attempt \<Rightarrow> 'rt handle \<Rightarrow> (string + refresh_outcome) \<times> 'rt handle" where
  "refresh_now a h =
     (case refresh_once a (hd_source h) (hd_state h) of
        (result, st) \<Rightarrow> (result, h\<lparr>hd_state := st\<rparr>))"

text \<open>The loop after its period has passed: one refresh, and a pause when it failed.\<close>

definition loop_tick :: "'rt attempt \<Rightarrow> 'rt handle \<Rightarrow> 'rt handle" where
  "loop_tick a h =
     (case refresh_now a h of
        (Inr _, h') \<Rightarrow> h'\<lparr>hd_task := Some Sleeping\<rparr>
      | (Inl _, h') \<Rightarrow>
          h'\<lparr>hd_task := Some (BackingOff
            (failure_backoff (consecutive_failures (status (hd_state h'))) (hd_options h')))\<rparr>)"

definition shutdown :: "'rt attempt \<Rightarrow> 'rt handle \<Rightarrow> 'rt handle" where
  "shutdown a h =
     (let st = hd_state h in
      h\<lparr>hd_task := None, hd_open := False,
        hd_state := emit_event (new_event (at_uuid a) EventShutdown (hd_source h) None
          (Some (identity (at_hash a) (current st))) (at_finished a) (at_finished a) None
          (consecutive_failures (status st)) None) st\<rparr>)"

inductive handle_step :: "'rt handle \<Rightarrow> 'rt handle \<Rightarrow> bool" where
  manual: "hd_open h \<Longrightarrow> handle_step h (snd (refresh_now a h))"
| ticked: "hd_task h = Some Sleeping \<Longrightarrow> handle_step h (loop_tick a h)"
| rested: "hd_task h = Some (BackingOff d) \<Longrightarrow> handle_step h (h\<lparr>hd_task := Some Sleeping\<rparr>)"
| closed: "hd_open h \<Longrightarrow> handle_step h (shutdown a h)"
| dropped: "hd_open h \<Longrightarrow> handle_step h (h\<lparr>hd_task := None, hd_open := False\<rparr>)"

inductive reachable :: "string \<Rightarrow> string option \<Rightarrow> refresh_options \<Rightarrow> 'rt handle \<Rightarrow> bool"
  for source :: string and fallback_source :: "string option" and o1 :: refresh_options where
  started: "load_with_options a source fallback_source o1 = Inr h \<Longrightarrow> reachable source fallback_source o1 h"
| stepped: "reachable source fallback_source o1 h \<Longrightarrow> handle_step h h' \<Longrightarrow>
    reachable source fallback_source o1 h'"

inductive_cases handle_stepE: "handle_step h h'"

section \<open>What an attempt does\<close>

lemma emit_event_simps [simp]:
  "current (emit_event e st) = current st" "status (emit_event e st) = status st"
  "last_event (emit_event e st) = Some (summary e)" "sent (emit_event e st) = sent st @ [e]"
  by (simp_all add: emit_event_def)

lemma begin_refresh_simps [simp]:
  "current (begin_refresh a st) = current st" "sent (begin_refresh a st) = sent st"
  "last_event (begin_refresh a st) = last_event st"
  by (simp_all add: begin_refresh_def)

lemma new_event_simps [simp]:
  "ev_type (new_event u ty so pr cu t1 t2 ou fa er) = ty" "ev_current (new_event u ty so pr cu t1 t2 ou fa er) = cu"
  "ev_failures (new_event u ty so pr cu t1 t2 ou fa er) = fa" "ev_error (new_event u ty so pr cu t1 t2 ou fa er) = er"
  "ev_previous (new_event u ty so pr cu t1 t2 ou fa er) = pr"
  by (simp_all add: new_event_def)

text \<open>The answer an attempt gets about the source, and the outcome it leads to.\<close>

definition probe_answer :: "'rt attempt \<Rightarrow> string \<Rightarrow> 'rt package \<Rightarrow> string + source_probe" where
  "probe_answer a source c =
     (if pk_served_fallback c then Inr ProbeUnknown
      else probe_package_source_graph (at_probe a) source (pk_fingerprint c) (pk_layers c))"

definition attempt_result :: "'rt attempt \<Rightarrow> string \<Rightarrow> 'rt package \<Rightarrow> string + refresh_outcome" where
  "attempt_result a source c =
     rbind (probe_answer a source c) (\<lambda>p.
       case p of
         ProbeUnchanged \<Rightarrow> Inr OutcomeUnchanged
       | ProbeImmutablePinned _ \<Rightarrow> Inr OutcomeImmutable
       | _ \<Rightarrow> rbind (load_snapshot a source) (\<lambda>_. Inr OutcomeRefreshed))"

lemma refresh_once_cases:
  fixes st :: "'rt refresh_state"
  obtains (failed) e where "attempt_result a source (current st) = Inl e"
      "refresh_once a source st = (Inl e, end_refresh a source (Inl e) (begin_refresh a st))"
  | (unchanged) "attempt_result a source (current st) = Inr OutcomeUnchanged"
      "refresh_once a source st = (Inr OutcomeUnchanged, end_refresh a source (Inr OutcomeUnchanged)
         (emit_event (new_event (at_uuid a) EventUnchanged source None
           (Some (identity (at_hash a) (current st))) (at_started a) (at_finished a)
           (Some OutcomeUnchanged) 0 None) (begin_refresh a st)))"
  | (pinned) f where "attempt_result a source (current st) = Inr OutcomeImmutable"
      "refresh_once a source st = (Inr OutcomeImmutable, end_refresh a source (Inr OutcomeImmutable)
         (emit_event (new_event (at_uuid a) EventImmutable source None
           (Some (identity (at_hash a) (current st))) (at_started a) (at_finished a)
           (Some OutcomeImmutable) 0 None)
           ((begin_refresh a st)\<lparr>status := (status (begin_refresh a st))
              \<lparr>current_fingerprint := Some f, immutable := True\<rparr>\<rparr>)))"
  | (refreshed) p where "attempt_result a source (current st) = Inr OutcomeRefreshed"
      "load_snapshot a source = Inr p"
      "refresh_once a source st = (Inr OutcomeRefreshed, end_refresh a source (Inr OutcomeRefreshed)
         (accept_package a source p (begin_refresh a st)))"
proof (cases "probe_answer a source (current st)")
  case (Inl e)
  then show thesis
    using failed by (simp add: refresh_once_def refresh_once_inner_def attempt_result_def probe_answer_def Let_def)
next
  case (Inr p)
  note run = refresh_once_def refresh_once_inner_def attempt_result_def probe_answer_def Let_def
  show thesis
  proof (cases p)
    case ProbeUnchanged
    then show thesis using Inr unchanged by (simp add: run)
  next
    case (ProbeImmutablePinned f)
    then show thesis using Inr pinned by (simp add: run)
  next
    case (ProbeChanged f)
    then show thesis using Inr failed refreshed by (cases "load_snapshot a source") (simp_all add: run)
  next
    case ProbeUnknown
    then show thesis using Inr failed refreshed by (cases "load_snapshot a source") (simp_all add: run)
  qed
qed

text \<open>C22 refresh_attempts: what one refresh attempt does for each answer of the outside. A failure keeps
  the package and all of the status but the count, the error and the time of the attempt, and sends one event with
  the package still current. An unchanged or pinned source keeps the package and, unlike the event,
  the failure count and the error. A load replaces the package by the primary's and clears the
  failures and the fallback mark.\<close>

theorem refresh_attempts:
  fixes st :: "'rt refresh_state"
  shows "fst (refresh_once a source st) = attempt_result a source (current st)
   \<and> (case refresh_once a source st of
        (Inl e, st') \<Rightarrow>
          (let n = saturating_add (consecutive_failures (status st)) 1 in
           current st' = current st
           \<and> status st' = (status st)\<lparr>last_attempt := Some (at_started a), refreshing := False,
               consecutive_failures := n, last_error := Some e\<rparr>
           \<and> (\<exists>ev. sent st' = sent st @ [ev] \<and> ev_type ev = EventFailed \<and> ev_failures ev = n
                \<and> ev_error ev = Some e \<and> ev_previous ev = None
                \<and> ev_current ev = Some (identity (at_hash a) (current st))))
      | (Inr OutcomeUnchanged, st') \<Rightarrow>
          current st' = current st
          \<and> status st' = (status st)\<lparr>last_attempt := Some (at_started a), refreshing := False\<rparr>
          \<and> (\<exists>ev. sent st' = sent st @ [ev] \<and> ev_type ev = EventUnchanged \<and> ev_failures ev = 0)
      | (Inr OutcomeImmutable, st') \<Rightarrow>
          current st' = current st
          \<and> (\<exists>f. status st' = (status st)\<lparr>last_attempt := Some (at_started a),
               current_fingerprint := Some f, immutable := True, refreshing := False\<rparr>)
          \<and> (\<exists>ev. sent st' = sent st @ [ev] \<and> ev_type ev = EventImmutable \<and> ev_failures ev = 0)
      | (Inr OutcomeRefreshed, st') \<Rightarrow>
          \<exists>p. load_snapshot a source = Inr p \<and> current st' = p
            \<and> status st' = \<lparr>current_fingerprint = pk_fingerprint p, last_success = Some (pk_loaded_at p),
                 last_attempt = Some (at_started a), consecutive_failures = 0, last_error = None,
                 refreshing = False, immutable = pk_immutable p, serving_fallback = False\<rparr>
            \<and> (\<exists>ev. sent st' = sent st @ [ev] \<and> ev_type ev = EventRefreshed
                 \<and> ev_previous ev = Some (identity (at_hash a) (current st))
                 \<and> ev_current ev = Some (identity (at_hash a) p)))"
  by (cases rule: refresh_once_cases [of a source st])
    (auto simp: end_refresh_def begin_refresh_def accept_package_def Let_def)

section \<open>What holds of every reachable handle\<close>

text \<open>
  The package served comes from the primary, or from the fallback of a degraded start;
  the status describes it, no attempt is half done, an error is on record whenever there are
  failures, and the last event is the last one sent.
\<close>

definition serving :: "string \<Rightarrow> string option \<Rightarrow> 'rt refresh_state \<Rightarrow> bool" where
  "serving source fallback_source st =
     ((if pk_served_fallback (current st) then fallback_source = Some (pk_source (current st))
       else pk_source (current st) = source)
      \<and> serving_fallback (status st) = pk_served_fallback (current st)
      \<and> last_success (status st) = Some (pk_loaded_at (current st))
      \<and> \<not> refreshing (status st)
      \<and> (consecutive_failures (status st) \<noteq> 0 \<longrightarrow> last_error (status st) \<noteq> None)
      \<and> (last_error (status st) \<noteq> None \<longrightarrow>
           consecutive_failures (status st) \<noteq> 0 \<or> serving_fallback (status st))
      \<and> sent st \<noteq> [] \<and> last_event st = Some (summary (last (sent st))))"

lemma load_snapshot_Inr:
  "load_snapshot a source = Inr p \<Longrightarrow> pk_source p = source \<and> \<not> pk_served_fallback p"
  by (auto simp: load_snapshot_def rbind_eq_Inr inspect_loaded_def)

lemma saturating_add_one [simp]: "saturating_add x 1 \<noteq> (0 :: 64 word)"
proof -
  have "x + 1 \<noteq> 0" if "unat x + 1 < 2 ^ 64"
  proof -
    have "unat (x + 1) = unat x + 1" using that by (simp add: unat_word_ariths)
    then show ?thesis by (metis Suc_eq_plus1 nat.simps(3) unat_0)
  qed
  then show ?thesis by (simp add: saturating_add_def)
qed

lemma refresh_once_serving:
  assumes "serving source fallback_source st"
  shows "serving source fallback_source (snd (refresh_once a source st))"
proof (cases rule: refresh_once_cases [of a source st])
  case (refreshed p)
  then show ?thesis
    using load_snapshot_Inr [OF refreshed(2)]
    by (simp add: serving_def accept_package_def end_refresh_def begin_refresh_def Let_def)
qed (use assms in \<open>auto simp: serving_def end_refresh_def begin_refresh_def Let_def split: if_splits\<close>)

definition handle_inv :: "string \<Rightarrow> string option \<Rightarrow> refresh_options \<Rightarrow> 'rt handle \<Rightarrow> bool" where
  "handle_inv source fallback_source o1 h =
     (hd_source h = source \<and> hd_options h = o1 \<and> serving source fallback_source (hd_state h)
      \<and> (hd_task h \<noteq> None \<longrightarrow> period o1 \<noteq> None \<and> hd_open h)
      \<and> (\<forall>d. hd_task h = Some (BackingOff d) \<longrightarrow> d \<le> max_failure_backoff o1))"

lemma failure_backoff_bound: "failure_backoff n o1 \<le> max_failure_backoff o1"
  by (simp add: failure_backoff_def Let_def)

lemma handle_inv_started:
  "load_with_options a source fallback_source o1 = Inr h \<Longrightarrow> handle_inv source fallback_source o1 h"
  by (auto simp: load_with_options_def start_package_def start_state_def handle_inv_def serving_def
      rbind_eq_Inr Let_def split: sum.splits option.splits if_splits dest!: load_snapshot_Inr)

lemma handle_inv_step:
  assumes "handle_step h h'" "handle_inv source fallback_source o1 h"
  shows "handle_inv source fallback_source o1 h'"
  using assms(1)
proof cases
  case (manual a)
  then show ?thesis
    using assms(2) refresh_once_serving [of source fallback_source "hd_state h" a]
    by (auto simp: handle_inv_def refresh_now_def split: prod.splits)
next
  case (ticked a)
  then show ?thesis
    using assms(2) refresh_once_serving [of source fallback_source "hd_state h" a] failure_backoff_bound
    by (auto simp: handle_inv_def loop_tick_def refresh_now_def split: prod.splits sum.splits)
qed (use assms(2) in \<open>auto simp: handle_inv_def shutdown_def serving_def Let_def\<close>)

lemma reachable_inv: "reachable source fallback_source o1 h \<Longrightarrow> handle_inv source fallback_source o1 h"
  by (induction rule: reachable.induct) (auto intro: handle_inv_started handle_inv_step)

lemma primary_stays:
  assumes "handle_step h h'" "\<not> pk_served_fallback (current (hd_state h))"
  shows "\<not> pk_served_fallback (current (hd_state h'))"
proof -
  have kept: "\<not> pk_served_fallback (current (snd (refresh_once a (hd_source h) (hd_state h))))" for a
    using assms(2) load_snapshot_Inr
    by (cases rule: refresh_once_cases [of a "hd_source h" "hd_state h"])
      (fastforce simp: end_refresh_def accept_package_def Let_def)+
  from assms(1) show ?thesis
  proof cases
    case (manual a)
    then show ?thesis using kept [of a] by (auto simp: refresh_now_def split: prod.splits)
  next
    case (ticked a)
    then show ?thesis
      using kept [of a] by (auto simp: loop_tick_def refresh_now_def split: prod.splits sum.splits)
  qed (use assms(2) in \<open>auto simp: shutdown_def Let_def\<close>)
qed

text \<open>C23 reachable_serving: whatever attempts fail or succeed and however the loop, manual refreshes and
  the end of the handle interleave, the handle serves a package that was loaded from the primary,
  or from the fallback after a degraded start, and never returns to the fallback; the status says which, when
  it was loaded and whether the last attempts failed; the last event is the last one sent; the loop runs only
  when a period is configured and never pauses longer than the configured maximum.\<close>

theorem reachable_serving:
  assumes "reachable source fallback_source o1 h"
  shows "serving source fallback_source (hd_state h)
    \<and> (hd_task h \<noteq> None \<longrightarrow> period o1 \<noteq> None \<and> hd_open h)
    \<and> (\<forall>d. hd_task h = Some (BackingOff d) \<longrightarrow> d \<le> max_failure_backoff o1)
    \<and> (\<forall>h'. handle_step h h' \<longrightarrow> \<not> serving_fallback (status (hd_state h)) \<longrightarrow>
          \<not> serving_fallback (status (hd_state h')))"
proof -
  have inv: "handle_inv source fallback_source o1 h'" if "reachable source fallback_source o1 h'" for h'
    using that by (rule reachable_inv)
  have "\<not> serving_fallback (status (hd_state h'))"
    if "handle_step h h'" "\<not> serving_fallback (status (hd_state h))" for h'
    using that primary_stays [OF that(1)] inv [OF assms] inv [OF reachable.stepped [OF assms that(1)]]
    by (simp add: handle_inv_def serving_def)
  then show ?thesis using inv [OF assms] by (auto simp: handle_inv_def)
qed

definition example_options :: refresh_options where
  "example_options = default_refresh_options\<lparr>period := Some 1000\<rparr>"

definition example_loaded :: "bool \<Rightarrow> unit loaded" where
  "example_loaded pinned = \<lparr>ld_runtime = (), ld_fingerprint = None, ld_immutable = pinned, ld_layers = [], ld_at = 7\<rparr>"

text \<open>An attempt that finds the given sources, the primary a pinned one.\<close>

definition example_attempt :: "string list \<Rightarrow> unit attempt" where
  "example_attempt up =
     \<lparr>at_started = 5, at_finished = 9, at_uuid = ''id'', at_hash = (\<lambda>_. []),
      at_probe = (\<lambda>_ _. Inl ''unused''),
      at_load = (\<lambda>s. if s \<in> set up then Inr (example_loaded (s = ''primary'')) else Inl ''down'')\<rparr>"

lemma example_start:
  obtains h where "load_with_options (example_attempt [''fallback'']) ''primary'' (Some ''fallback'') example_options = Inr h"
    "pk_served_fallback (current (hd_state h))" "hd_task h = Some Sleeping" "hd_open h" "hd_source h = ''primary''"
    "consecutive_failures (status (hd_state h)) = 0"
proof -
  have "(case load_with_options (example_attempt [''fallback'']) ''primary'' (Some ''fallback'') example_options of
      Inl _ \<Rightarrow> False
    | Inr h \<Rightarrow> pk_served_fallback (current (hd_state h)) \<and> hd_task h = Some Sleeping \<and> hd_open h
        \<and> hd_source h = ''primary'' \<and> consecutive_failures (status (hd_state h)) = 0)"
    by (simp add: load_with_options_def start_package_def start_state_def load_snapshot_def inspect_loaded_def
        example_attempt_def example_options_def Let_def)
  then show thesis using that by (auto split: sum.splits)
qed

theorem reachable_serving_witness:
  "\<exists>h :: unit handle. reachable ''primary'' (Some ''fallback'') example_options h
     \<and> consecutive_failures (status (hd_state h)) = 1 \<and> pk_served_fallback (current (hd_state h))
     \<and> serving ''primary'' (Some ''fallback'') (hd_state h)"
proof -
  obtain h where h: "load_with_options (example_attempt [''fallback'']) ''primary'' (Some ''fallback'') example_options = Inr h"
    "pk_served_fallback (current (hd_state h))" "hd_open h" "hd_source h = ''primary''"
    "consecutive_failures (status (hd_state h)) = 0"
    by (rule example_start)
  let ?a = "example_attempt [''fallback'']"
  let ?h = "snd (refresh_now ?a h)"
  have "handle_step h ?h" using h(3) by (rule handle_step.manual)
  with reachable.started [OF h(1)] have r: "reachable ''primary'' (Some ''fallback'') example_options ?h"
    by (rule reachable.stepped)
  have "consecutive_failures (status (hd_state ?h)) = 1 \<and> pk_served_fallback (current (hd_state ?h))"
    using h(2,4,5)
    by (simp add: refresh_now_def refresh_once_def refresh_once_inner_def begin_refresh_def load_snapshot_def
        example_attempt_def end_refresh_def saturating_add_def Let_def)
  then show ?thesis using r reachable_serving [OF r] by blast
qed

text \<open>
  A pinned source is never refreshed from again, but only a start on the primary knows: after a
  degraded start the loop goes on when the pinned primary is back.
\<close>

theorem pinned_loop_goes_on:
  "\<exists>h :: unit handle. reachable ''primary'' (Some ''fallback'') example_options h
     \<and> immutable (status (hd_state h)) \<and> \<not> serving_fallback (status (hd_state h))
     \<and> hd_task h = Some Sleeping"
proof -
  obtain h where h: "load_with_options (example_attempt [''fallback'']) ''primary'' (Some ''fallback'') example_options = Inr h"
    "pk_served_fallback (current (hd_state h))" "hd_task h = Some Sleeping" "hd_source h = ''primary''"
    by (rule example_start)
  let ?h = "loop_tick (example_attempt [''primary'']) h"
  have "handle_step h ?h" using h(3) by (rule handle_step.ticked)
  with reachable.started [OF h(1)] have "reachable ''primary'' (Some ''fallback'') example_options ?h"
    by (rule reachable.stepped)
  moreover have "immutable (status (hd_state ?h)) \<and> \<not> serving_fallback (status (hd_state ?h))
      \<and> hd_task ?h = Some Sleeping"
    using h(2,4)
    by (simp add: loop_tick_def refresh_now_def refresh_once_def refresh_once_inner_def begin_refresh_def
        load_snapshot_def inspect_loaded_def accept_package_def example_loaded_def
        example_attempt_def end_refresh_def Let_def)
  ultimately show ?thesis by blast
qed

end
