(* ===== verification/SourceGraph.thy ===== *)
theory SourceGraph
  imports Sources Enforcement
begin

text \<open>
  Loading a source with everything it extends: the dispatch on the kind of source
  (src/src/source/load.rs), local staging and snapshots (src/src/source/local.rs),
  and the recursive loading and projecting of the \<open>extends\<close> graph
  (src/src/source/layer/graph.rs), which lays every base and then the enforced overlay.
  The file system, the download of an archive and the clone of a repository are fields
  of one record. The recursion is on fuel; the depth limit of the code makes 33 enough.
\<close>

section \<open>Loaded packages\<close>

datatype local_stage_mode = Borrow | Snapshot

text \<open>A staged directory: its path, whether it is a temporary one, and what is in it.\<close>

record staged_package =
  st_path :: string
  st_temporary :: bool
  st_tree :: "entries res"

record loaded_source =
  lo_staged :: staged_package
  lo_fingerprint :: "source_fingerprint option"
  lo_immutable :: bool
  lo_layers :: "source_layer list"

text \<open>
  The world: the directory at a path (or the error of inspecting it), the canonical form of a path, the
  path of the temporary directory of a source, the tree of a projection written to disk, and
  fetching an archive or a repository, which stages a temporary directory.
\<close>

record fetched =
  fe_path :: string
  fe_tree :: entries
  fe_fingerprint :: "source_fingerprint option"
  fe_immutable :: bool

record world =
  wd_codec :: codec
  wd_dir :: "string \<Rightarrow> entries res"
  wd_canonical :: "string \<Rightarrow> string res"
  wd_temp :: "string \<Rightarrow> string"
  wd_walk :: "disk \<Rightarrow> entries"
  wd_archive :: "source_uri \<Rightarrow> string \<Rightarrow> fetched res"
  wd_clone :: "source_uri \<Rightarrow> string \<Rightarrow> fetched res"

section \<open>One source\<close>

definition loaded_single_layer ::
  "string \<Rightarrow> staged_package \<Rightarrow> source_fingerprint option \<Rightarrow> bool \<Rightarrow> loaded_source" where
  "loaded_single_layer source st f im =
     \<lparr>lo_staged = st, lo_fingerprint = f, lo_immutable = im,
      lo_layers = [\<lparr>sl_source = source, sl_fingerprint = f, sl_immutable = im\<rparr>]\<rparr>"

definition stage_local_path :: "world \<Rightarrow> string \<Rightarrow> staged_package" where
  "stage_local_path w p = \<lparr>st_path = p, st_temporary = False, st_tree = wd_dir w p\<rparr>"

text \<open>\<open>copy_dir_recursive\<close>: the copy of a directory, refusing what is neither file nor directory.\<close>

fun copy_dir_node :: "string \<Rightarrow> node \<Rightarrow> node res"
  and copy_dir_recursive :: "string \<Rightarrow> entries \<Rightarrow> entries res" where
  "copy_dir_node p (Directory es) = rbind (copy_dir_recursive p es) (\<lambda>es'. Inr (Directory es'))"
| "copy_dir_node p (File t) = Inr (File t)"
| "copy_dir_node p Other = err (''package snapshot contains unsupported entry type: '' @ p)"
| "copy_dir_recursive p [] = Inr []"
| "copy_dir_recursive p ((name, n) # es) =
     rbind (copy_dir_node (p @ ''/'' @ name) n) (\<lambda>n'.
     rbind (copy_dir_recursive p es) (\<lambda>es'. Inr ((name, n') # es')))"

definition snapshot_local_path :: "world \<Rightarrow> string \<Rightarrow> loaded_source res" where
  "snapshot_local_path w p =
     rbind (wd_dir w p) (\<lambda>es.
     rbind (copy_dir_recursive p es) (\<lambda>es'.
       Inr (loaded_single_layer p
         \<lparr>st_path = wd_temp w p, st_temporary = True, st_tree = Inr es'\<rparr> None False)))"

definition fetched_source :: "string \<Rightarrow> fetched \<Rightarrow> loaded_source" where
  "fetched_source source f =
     loaded_single_layer source
       \<lparr>st_path = fe_path f, st_temporary = True, st_tree = Inr (fe_tree f)\<rparr>
       (fe_fingerprint f) (fe_immutable f)"

definition no_fragments :: "source_uri \<Rightarrow> unit res" where
  "no_fragments uri =
     (if uri_ref uri \<noteq> None \<or> uri_subdir uri \<noteq> None
      then err ''file:// package sources do not support fragments'' else Inr ())"

definition load_remote :: "world \<Rightarrow> source_uri \<Rightarrow> string \<Rightarrow> loaded_source res" where
  "load_remote w uri source =
     (if uri_scheme uri = ''https'' then
        rbind (wd_archive w uri source) (\<lambda>f. Inr (fetched_source source (f\<lparr>fe_immutable := False\<rparr>)))
      else if uri_scheme uri = ''http'' then
        err ''http:// package sources are not supported; use https://''
      else if starts_with ''git+'' (uri_scheme uri) then
        rbind (wd_clone w uri source) (\<lambda>f. Inr (fetched_source source f))
      else err (''package source scheme is not supported: '' @ uri_scheme uri))"

definition load_single_package_source :: "world \<Rightarrow> string \<Rightarrow> loaded_source res" where
  "load_single_package_source w source =
     rbind (parse_source_uri source) (\<lambda>parsed.
       case parsed of
         None \<Rightarrow> Inr (loaded_single_layer source (stage_local_path w source) None False)
       | Some uri \<Rightarrow>
           if uri_scheme uri = ''file'' then
             rbind (no_fragments uri) (\<lambda>_.
               Inr (loaded_single_layer source (stage_local_path w (uri_base uri)) None False))
           else load_remote w uri source)"

definition load_single_package_source_snapshot :: "world \<Rightarrow> string \<Rightarrow> loaded_source res" where
  "load_single_package_source_snapshot w source =
     rbind (parse_source_uri source) (\<lambda>parsed.
       case parsed of
         None \<Rightarrow> snapshot_local_path w source
       | Some uri \<Rightarrow>
           if uri_scheme uri = ''file'' then
             rbind (no_fragments uri) (\<lambda>_. snapshot_local_path w (uri_base uri))
           else load_single_package_source w source)"

definition load_single :: "world \<Rightarrow> local_stage_mode \<Rightarrow> string \<Rightarrow> loaded_source res" where
  "load_single w mode source =
     (case mode of
        Borrow \<Rightarrow> load_single_package_source w source
      | Snapshot \<Rightarrow> load_single_package_source_snapshot w source)"

section \<open>One edge of the graph\<close>

record extend_base =
  eb_path :: string
  eb_temporary :: bool

record resolved_extend =
  re_source :: string
  re_inherited_base :: bool

definition resolve_extend_source :: "string \<Rightarrow> extend_base option \<Rightarrow> resolved_extend res" where
  "resolve_extend_source source base =
     rbind (parse_source_uri source) (\<lambda>uri.
       let as_written = Inr \<lparr>re_source = source, re_inherited_base = False\<rparr> in
       case base of
         Some b \<Rightarrow>
           if eb_temporary b then
             (case uri of
                Some u \<Rightarrow>
                  if is_local_filesystem u then
                    err (''package extends source escapes a staged package: '' @ source)
                  else as_written
              | None \<Rightarrow>
                  if is_absolute source \<or> \<not> relative_path_is_safe source then
                    err (''relative package extends source escapes a staged package: '' @ source)
                  else Inr \<lparr>re_source = path_join (eb_path b) source, re_inherited_base = True\<rparr>)
           else if uri \<noteq> None \<or> is_absolute source then as_written
           else Inr \<lparr>re_source = path_join (eb_path b) source, re_inherited_base = False\<rparr>
       | None \<Rightarrow> as_written)"

definition package_source_key :: "world \<Rightarrow> string \<Rightarrow> staged_package \<Rightarrow> string res" where
  "package_source_key w source st =
     rbind (parse_source_uri source) (\<lambda>uri.
       if uri \<noteq> None then Inr source
       else wd_canonical w (if source = [] then st_path st else source))"

definition extend_source_base_path :: "loaded_source \<Rightarrow> string" where
  "extend_source_base_path loaded =
     (case lo_layers loaded of
        [layer] \<Rightarrow>
          if st_temporary (lo_staged loaded) \<and> (case parse_source_uri (sl_source layer) of
               Inr (Some _) \<Rightarrow> False | _ \<Rightarrow> True)
          then sl_source layer else st_path (lo_staged loaded)
      | _ \<Rightarrow> st_path (lo_staged loaded))"

definition combined_layer_fingerprint :: "source_layer list \<Rightarrow> source_fingerprint option" where
  "combined_layer_fingerprint layers =
     (case those (map sl_fingerprint layers) of
        None \<Rightarrow> None
      | Some [] \<Rightarrow> None
      | Some [f] \<Rightarrow> Some f
      | Some fs \<Rightarrow> Some (PackageLayers fs))"

definition last_layer_source :: "loaded_source \<Rightarrow> string" where
  "last_layer_source loaded =
     (if lo_layers loaded = [] then ''package'' else sl_source (last (lo_layers loaded)))"

definition layer_label :: "loaded_source \<Rightarrow> string \<Rightarrow> string" where
  "layer_label loaded written =
     (if trim written \<noteq> [] then written else last_layer_source loaded)"

definition read_package_extends :: "world \<Rightarrow> staged_package \<Rightarrow> string list res" where
  "read_package_extends w st =
     (case st_tree st of
        Inl _ \<Rightarrow> Inr []
      | Inr es \<Rightarrow>
          (case layer_file es [package_manifest] of
             None \<Rightarrow> Inr []
           | Some t \<Rightarrow>
               (case parse_toml (wd_codec w) t of
                  Inl e \<Rightarrow> err (''failed to parse package manifest ''
                             @ path_join (st_path st) package_manifest @ '': '' @ e)
                | Inr manifest \<Rightarrow> package_extends_sources manifest)))"

section \<open>The graph\<close>

definition max_package_extends_depth :: nat where
  "max_package_extends_depth = 32"

text \<open>The next step of a computation on fuel: out of fuel and errors end it.\<close>

definition next_load :: "'a res option \<Rightarrow> ('a \<Rightarrow> 'b res option) \<Rightarrow> 'b res option" where
  "next_load r f =
     (case r of None \<Rightarrow> None | Some (Inl e) \<Rightarrow> Some (Inl e) | Some (Inr x) \<Rightarrow> f x)"

text \<open>What the loop over the bases has gathered.\<close>

record gathered =
  ga_disk :: disk
  ga_layers :: "source_layer list"
  ga_immutable :: bool
  ga_siblings :: "string smap"

definition lay_base :: "world \<Rightarrow> string \<Rightarrow> string \<Rightarrow> loaded_source \<Rightarrow> gathered \<Rightarrow> gathered res" where
  "lay_base w target written parent acc =
     rbind (st_tree (lo_staged parent)) (\<lambda>es.
     rbind (copy_package_layer (wd_codec w)
              (layer_of (wd_codec w) es (st_path (lo_staged parent)) target (layer_label parent written))
              False (Some (ga_siblings acc)) (ga_disk acc)) (\<lambda>(d, siblings).
       Inr \<lparr>ga_disk = d, ga_layers = ga_layers acc @ lo_layers parent,
            ga_immutable = (ga_immutable acc \<and> lo_immutable parent),
            ga_siblings = (case siblings of Some s \<Rightarrow> s | None \<Rightarrow> ga_siblings acc)\<rparr>))"

fun lay_bases ::
  "world \<Rightarrow> string \<Rightarrow> (string \<Rightarrow> loaded_source res option) \<Rightarrow> string list \<Rightarrow> gathered \<Rightarrow> gathered res option"
  where
  "lay_bases w target load [] acc = Some (Inr acc)"
| "lay_bases w target load (written # rest) acc =
     next_load (load written) (\<lambda>parent.
     next_load (Some (lay_base w target written parent acc)) (lay_bases w target load rest))"

definition empty_disk :: disk where
  "empty_disk = \<lparr>files = (\<lambda>_. None), dirs = (\<lambda>_. False)\<rparr>"

definition lay_overlay :: "world \<Rightarrow> string \<Rightarrow> loaded_source \<Rightarrow> gathered \<Rightarrow> loaded_source res" where
  "lay_overlay w target loaded acc =
     rbind (st_tree (lo_staged loaded)) (\<lambda>es.
     let ls = layer_of (wd_codec w) es (st_path (lo_staged loaded)) target (last_layer_source loaded) in
     rbind (enforce_layer_governance (wd_codec w) ls (ga_disk acc)) (\<lambda>_.
     rbind (copy_package_layer (wd_codec w) ls True None (ga_disk acc)) (\<lambda>(d, _).
       let layers = ga_layers acc @ lo_layers loaded in
       Inr \<lparr>lo_staged = \<lparr>st_path = target, st_temporary = True, st_tree = Inr (wd_walk w d)\<rparr>,
            lo_fingerprint = combined_layer_fingerprint layers,
            lo_immutable = (ga_immutable acc \<and> lo_immutable loaded), lo_layers = layers\<rparr>)))"

definition project_package_source_graph ::
  "world \<Rightarrow> (string \<Rightarrow> extend_base option \<Rightarrow> loaded_source res option) \<Rightarrow> loaded_source \<Rightarrow> bool
   \<Rightarrow> loaded_source res option" where
  "project_package_source_graph w load loaded inherited =
     next_load (Some (read_package_extends w (lo_staged loaded))) (\<lambda>extends.
       if extends = [] then Some (Inr loaded)
       else
         (let target = wd_temp w (st_path (lo_staged loaded));
              base_path = extend_source_base_path loaded;
              base = \<lparr>eb_path = base_path,
                eb_temporary = (inherited \<or>
                  st_temporary (lo_staged loaded) \<and> base_path = st_path (lo_staged loaded))\<rparr> in
          next_load (lay_bases w target (\<lambda>s. load s (Some base)) extends
              \<lparr>ga_disk = empty_disk, ga_layers = [], ga_immutable = True, ga_siblings = []\<rparr>)
            (\<lambda>acc. Some (lay_overlay w target loaded acc))))"

fun load_package_source_graph ::
  "nat \<Rightarrow> world \<Rightarrow> local_stage_mode \<Rightarrow> string \<Rightarrow> extend_base option \<Rightarrow> string list \<Rightarrow> loaded_source res option"
  where
  "load_package_source_graph 0 w mode source base stack = None"
| "load_package_source_graph (Suc n) w mode source base stack =
     (if max_package_extends_depth \<le> length stack then
        Some (err (''package extends depth exceeded '' @ show_nat max_package_extends_depth))
      else
        next_load (Some (resolve_extend_source source base)) (\<lambda>resolved.
        next_load (Some (load_single w mode (re_source resolved))) (\<lambda>loaded.
        next_load (Some (package_source_key w (re_source resolved) (lo_staged loaded))) (\<lambda>key.
          if key \<in> set stack then
            Some (err (''package extends cycle detected: ''
              @ join_with '' -> '' (dropWhile (\<lambda>k. k \<noteq> key) stack @ [key])))
          else
            project_package_source_graph w
              (\<lambda>s b. load_package_source_graph n w mode s b (stack @ [key]))
              loaded (re_inherited_base resolved)))))"

definition graph_fuel :: nat where
  "graph_fuel = Suc max_package_extends_depth"

definition load_package_source :: "world \<Rightarrow> string \<Rightarrow> loaded_source res option" where
  "load_package_source w source = load_package_source_graph graph_fuel w Borrow source None []"

definition load_package_source_snapshot :: "world \<Rightarrow> string \<Rightarrow> loaded_source res option" where
  "load_package_source_snapshot w source = load_package_source_graph graph_fuel w Snapshot source None []"

section \<open>The graph is loaded on 33 units of fuel\<close>

lemma next_load_simps [simp]:
  "next_load (Some (Inl e)) f = Some (Inl e)" "next_load (Some (Inr x)) f = f x"
  by (simp_all add: next_load_def)

lemma next_load_Some:
  "next_load r f = Some y \<longleftrightarrow>
     (\<exists>e. r = Some (Inl e) \<and> y = Inl e) \<or> (\<exists>x. r = Some (Inr x) \<and> f x = Some y)"
  by (auto simp: next_load_def split: option.splits sum.splits)

lemma next_load_None: "next_load r f = None \<longleftrightarrow> r = None \<or> (\<exists>x. r = Some (Inr x) \<and> f x = None)"
  by (auto simp: next_load_def split: option.splits sum.splits)

lemma next_load_mono:
  "next_load r f = Some y \<Longrightarrow> (\<And>z. r = Some z \<Longrightarrow> r' = Some z)
   \<Longrightarrow> (\<And>x. f x = Some y \<Longrightarrow> g x = Some y) \<Longrightarrow> next_load r' g = Some y"
  by (cases r) (auto simp: next_load_Some)

lemma if_else_mono:
  "(if P then a else b) = Some y \<Longrightarrow> (b = Some y \<Longrightarrow> c = Some y) \<Longrightarrow> (if P then a else c) = Some y"
  by (cases P) simp_all

lemma lay_bases_None:
  "lay_bases w target load es acc = None \<Longrightarrow> \<exists>s \<in> set es. load s = None"
  by (induction es arbitrary: acc) (auto simp: next_load_None)

lemma lay_bases_mono:
  "lay_bases w target load es acc = Some r \<Longrightarrow> (\<And>s x. load s = Some x \<Longrightarrow> load' s = Some x)
   \<Longrightarrow> lay_bases w target load' es acc = Some r"
  by (induction es arbitrary: acc) (auto simp: next_load_Some)

lemma project_None:
  "project_package_source_graph w load loaded inherited = None \<Longrightarrow> \<exists>s b. load s b = None"
  unfolding project_package_source_graph_def Let_def next_load_None
  by (auto split: if_splits dest!: lay_bases_None simp: next_load_None)

lemma project_mono:
  assumes "project_package_source_graph w load loaded inherited = Some r"
    and "\<And>s b x. load s b = Some x \<Longrightarrow> load' s b = Some x"
  shows "project_package_source_graph w load' loaded inherited = Some r"
  using assms(1) unfolding project_package_source_graph_def Let_def
  by - (erule next_load_mono, assumption, erule if_else_mono,
        erule next_load_mono, erule lay_bases_mono, erule assms(2), assumption)

lemma load_graph_None:
  "load_package_source_graph (Suc n) w mode source base stack = None \<Longrightarrow>
   length stack < max_package_extends_depth \<and>
   (\<exists>s b key. load_package_source_graph n w mode s b (stack @ [key]) = None)"
  by (fastforce dest: project_None simp: next_load_None split: if_splits)

lemma load_graph_not_None:
  "n \<noteq> 0 \<Longrightarrow> graph_fuel \<le> n + length stack
   \<Longrightarrow> load_package_source_graph n w mode source base stack \<noteq> None"
proof (induction n arbitrary: source base stack)
  case (Suc n)
  show ?case
  proof
    assume "load_package_source_graph (Suc n) w mode source base stack = None"
    then obtain s b key where "length stack < max_package_extends_depth"
      and "load_package_source_graph n w mode s b (stack @ [key]) = None"
      by (blast dest: load_graph_None)
    with Suc.IH [of "stack @ [key]" s b] Suc.prems show False
      by (auto simp: graph_fuel_def)
  qed
qed simp

lemma load_graph_mono:
  "load_package_source_graph n w mode source base stack = Some r \<Longrightarrow>
   load_package_source_graph (Suc n) w mode source base stack = Some r"
proof (induction n arbitrary: source base stack r)
  case (Suc n)
  show ?case
    using Suc.prems
    unfolding load_package_source_graph.simps(2) [of n w mode source base stack]
      load_package_source_graph.simps(2) [of "Suc n" w mode source base stack]
    by - (erule if_else_mono, erule next_load_mono, assumption, erule next_load_mono, assumption,
        erule next_load_mono, assumption, erule if_else_mono, erule project_mono, erule Suc.IH)
qed simp

lemma load_graph_more:
  "load_package_source_graph n w mode source base stack = Some r \<Longrightarrow>
   load_package_source_graph (n + k) w mode source base stack = Some r"
  by (induction k) (simp_all add: load_graph_mono del: load_package_source_graph.simps)

text \<open>C24 extends_loading_ends: loading a source always ends, with a package or an error: 33 units of fuel are
  enough for every graph of extends, cyclic ones included, and more fuel changes nothing.
\<close>

theorem extends_loading_ends:
  "\<exists>r. load_package_source_graph graph_fuel w mode source base [] = Some r \<and>
       (\<forall>k. load_package_source_graph (graph_fuel + k) w mode source base [] = Some r)"
proof -
  obtain r where "load_package_source_graph graph_fuel w mode source base [] = Some r"
    using load_graph_not_None [of graph_fuel "[]" w mode source base]
    by (auto simp: graph_fuel_def simp del: load_package_source_graph.simps)
  then show ?thesis using load_graph_more by blast
qed

section \<open>What the layers of a loaded source say\<close>

definition accounted :: "loaded_source \<Rightarrow> bool" where
  "accounted l =
     (lo_layers l \<noteq> [] \<and> lo_immutable l = list_all sl_immutable (lo_layers l) \<and>
      lo_fingerprint l = combined_layer_fingerprint (lo_layers l))"

lemma accounted_single [simp]: "accounted (loaded_single_layer source st f im)"
  by (cases f) (simp_all add: accounted_def loaded_single_layer_def combined_layer_fingerprint_def)

lemma load_single_accounted: "load_single w mode source = Inr l \<Longrightarrow> accounted l"
  by (auto simp: load_single_def load_single_package_source_def load_single_package_source_snapshot_def
        load_remote_def fetched_source_def snapshot_local_path_def no_fragments_def
      elim!: rbind_InrE split: local_stage_mode.splits option.splits if_splits)

lemma lay_base_accounted:
  assumes "lay_base w target written parent acc = Inr acc'" "accounted parent"
    and "ga_immutable acc = list_all sl_immutable (ga_layers acc)"
  shows "ga_immutable acc' = list_all sl_immutable (ga_layers acc')"
  using assms by (auto simp: lay_base_def accounted_def elim!: rbind_InrE)

lemma lay_bases_accounted:
  "lay_bases w target load es acc = Some (Inr acc') \<Longrightarrow> (\<And>s l. load s = Some (Inr l) \<Longrightarrow> accounted l)
   \<Longrightarrow> ga_immutable acc = list_all sl_immutable (ga_layers acc)
   \<Longrightarrow> ga_immutable acc' = list_all sl_immutable (ga_layers acc')"
proof (induction es arbitrary: acc)
  case (Cons e es)
  from Cons.prems(1) obtain parent mid where
    "load e = Some (Inr parent)" "lay_base w target e parent acc = Inr mid"
    and "lay_bases w target load es mid = Some (Inr acc')"
    by (auto simp: next_load_Some)
  with Cons show ?case by (blast dest: lay_base_accounted)
qed simp

lemma lay_overlay_accounted:
  assumes "lay_overlay w target loaded acc = Inr l" "accounted loaded"
    and "ga_immutable acc = list_all sl_immutable (ga_layers acc)"
  shows "accounted l \<and> last (lo_layers l) = last (lo_layers loaded)"
  using assms by (auto simp: lay_overlay_def accounted_def Let_def elim!: rbind_InrE)

lemma project_accounted:
  assumes "project_package_source_graph w load loaded inherited = Some (Inr l)"
    and "\<And>s b l. load s b = Some (Inr l) \<Longrightarrow> accounted l" "accounted loaded"
  shows "accounted l \<and> last (lo_layers l) = last (lo_layers loaded)"
proof (cases "l = loaded")
  case False
  then obtain target es b acc where "lay_bases w target (\<lambda>s. load s b) es
      \<lparr>ga_disk = empty_disk, ga_layers = [], ga_immutable = True, ga_siblings = []\<rparr> = Some (Inr acc)"
    and "lay_overlay w target loaded acc = Inr l"
    using assms(1) unfolding project_package_source_graph_def Let_def
    by (auto simp: next_load_Some split: if_splits)
  then show ?thesis
    using lay_bases_accounted [OF _ assms(2)] lay_overlay_accounted assms(3) by fastforce
qed (use assms in simp)

lemma load_graph_accounted:
  "load_package_source_graph n w mode source base stack = Some (Inr l) \<Longrightarrow> accounted l"
proof (induction n arbitrary: source base stack l)
  case (Suc n)
  then obtain loaded inherited key where "accounted loaded"
    and "project_package_source_graph w (\<lambda>s b. load_package_source_graph n w mode s b (stack @ [key]))
           loaded inherited = Some (Inr l)"
    by (auto simp: next_load_Some split: if_splits dest: load_single_accounted)
  then show ?case using project_accounted Suc.IH by blast
qed simp

section \<open>A remote package stays inside what was fetched\<close>

text \<open>
  The directories a remote package may name: where an archive or a clone was staged, and what
  a safe relative path without a scheme names below such a directory.
\<close>

inductive fetched_path :: "world \<Rightarrow> string \<Rightarrow> bool" for w where
  archive: "wd_archive w u s = Inr f \<Longrightarrow> fetched_path w (fe_path f)"
| clone: "wd_clone w u s = Inr f \<Longrightarrow> fetched_path w (fe_path f)"

inductive staged :: "world \<Rightarrow> string \<Rightarrow> bool" for w where
  fetched: "fetched_path w p \<Longrightarrow> staged w p"
| inside: "staged w p \<Longrightarrow> relative_path_is_safe s \<Longrightarrow> parse_source_uri s = Inr None
    \<Longrightarrow> staged w (path_join p s)"

lemma parse_no_scheme: "parse_source_uri s = Inr None \<longleftrightarrow> \<not> contains_sub ''://'' s"
  by (auto simp: parse_source_uri_def split_once_str_def contains_sub_def invalid_uri_def Let_def
      split: option.splits prod.splits if_splits)

lemma contains_sub_Cons: "contains_sub p (x # xs) \<longleftrightarrow> starts_with p (x # xs) \<or> contains_sub p xs"
  by (simp add: contains_sub_def)

lemma append_no_scheme:
  "\<not> contains_sub ''://'' p \<Longrightarrow> \<not> contains_sub ''://'' s \<Longrightarrow> \<not> starts_with ''/'' s
   \<Longrightarrow> \<not> contains_sub ''://'' (p @ s)"
  by (induction p) (auto simp: contains_sub_Cons starts_with_iff Cons_eq_append_conv append_eq_Cons_conv)

lemma slash_no_scheme:
  "\<not> contains_sub ''://'' p \<Longrightarrow> p \<noteq> [] \<Longrightarrow> last p \<noteq> CHR ''/'' \<Longrightarrow> \<not> contains_sub ''://'' (p @ ''/'')"
  by (induction p)
    (auto simp: contains_sub_Cons starts_with_iff Cons_eq_append_conv append_eq_Cons_conv
       contains_sub_def [of _ "[]"] split: if_splits)

lemma join_no_scheme:
  assumes "\<not> contains_sub ''://'' p" "\<not> contains_sub ''://'' s" "\<not> is_absolute s"
  shows "\<not> contains_sub ''://'' (path_join p s)"
  using assms append_no_scheme [of p s] append_no_scheme [of "p @ ''/''" s] slash_no_scheme [of p]
  by (auto simp: path_join_def is_absolute_def)

lemma staged_no_scheme:
  assumes "staged w p" "\<And>q. fetched_path w q \<Longrightarrow> parse_source_uri q = Inr None"
  shows "parse_source_uri p = Inr None"
  using assms(1)
proof (induction rule: staged.induct)
  case (inside p s)
  then show ?case by (simp add: parse_no_scheme relative_path_is_safe_def join_no_scheme)
qed (rule assms(2))

text \<open>A second world differs in its directories alone.\<close>

definition with_dir :: "world \<Rightarrow> (string \<Rightarrow> entries res) \<Rightarrow> world" where
  "with_dir w d = w\<lparr>wd_dir := d\<rparr>"

lemma with_dir_simps [simp]:
  "wd_codec (with_dir w d) = wd_codec w" "wd_canonical (with_dir w d) = wd_canonical w"
  "wd_temp (with_dir w d) = wd_temp w" "wd_walk (with_dir w d) = wd_walk w"
  "wd_archive (with_dir w d) = wd_archive w" "wd_clone (with_dir w d) = wd_clone w"
  "wd_dir (with_dir w d) = d"
  by (simp_all add: with_dir_def)

lemma lay_bases_with_dir: "lay_bases (with_dir w d) target load es = lay_bases w target load es"
proof (induction es)
  case (Cons e es)
  show ?case by (rule ext) (simp add: Cons lay_base_def)
qed (simp add: fun_eq_iff)

lemma project_with_dir:
  "project_package_source_graph (with_dir w d) load loaded inherited =
   project_package_source_graph w load loaded inherited"
proof -
  have "read_package_extends (with_dir w d) = read_package_extends w"
    "lay_overlay (with_dir w d) = lay_overlay w"
    unfolding fun_eq_iff read_package_extends_def lay_overlay_def with_dir_simps by simp_all
  then show ?thesis
    by (simp only: project_package_source_graph_def Let_def lay_bases_with_dir with_dir_simps)
qed

lemma package_source_key_with_dir:
  "package_source_key (with_dir w d) source st = package_source_key w source st"
  unfolding package_source_key_def with_dir_simps by (rule refl)

text \<open>What \<open>project_package_source_graph\<close> hands to the bases of an anchored package is a staged base.\<close>

definition anchored :: "world \<Rightarrow> loaded_source \<Rightarrow> bool \<Rightarrow> bool" where
  "anchored w loaded inherited =
     (staged w (extend_source_base_path loaded) \<and>
      (inherited \<or> st_temporary (lo_staged loaded) \<and>
         extend_source_base_path loaded = st_path (lo_staged loaded)))"

lemma project_cong:
  assumes "anchored w loaded inherited"
    and "\<And>s b. eb_temporary b \<Longrightarrow> staged w (eb_path b) \<Longrightarrow> load s (Some b) = load' s (Some b)"
  shows "project_package_source_graph w load loaded inherited =
         project_package_source_graph w load' loaded inherited"
proof -
  let ?b = "\<lparr>eb_path = extend_source_base_path loaded, eb_temporary = (inherited \<or>
      st_temporary (lo_staged loaded) \<and> extend_source_base_path loaded = st_path (lo_staged loaded))\<rparr>"
  have "(\<lambda>s. load s (Some ?b)) = (\<lambda>s. load' s (Some ?b))"
    using assms by (auto simp: anchored_def)
  then show ?thesis by (simp only: project_package_source_graph_def Let_def)
qed

lemma remote_anchored:
  assumes "parse_source_uri source = Inr (Some u)" "\<not> is_local_filesystem u"
  shows "load_single (with_dir w d) mode source = load_single w mode source"
    and "load_single w mode source = Inr loaded \<Longrightarrow> anchored w loaded inherited"
proof -
  have remote: "load_single v mode source = load_remote v u source" for v
    using assms by (auto simp: load_single_def load_single_package_source_def is_local_filesystem_def
        load_single_package_source_snapshot_def split: local_stage_mode.splits)
  show "load_single (with_dir w d) mode source = load_single w mode source"
    by (simp add: remote) (simp add: load_remote_def)
  assume "load_single w mode source = Inr loaded"
  then obtain p f im where "fetched_path w p" "lo_staged loaded = \<lparr>st_path = p, st_temporary = True, st_tree = f\<rparr>"
    and "lo_layers loaded = [im]" "sl_source im = source"
    by (auto simp: remote load_remote_def fetched_source_def loaded_single_layer_def
        elim!: rbind_InrE split: if_splits dest: fetched_path.intros)
  then show "anchored w loaded inherited"
    using assms(1) by (auto simp: anchored_def extend_source_base_path_def intro: staged.fetched)
qed

lemma local_anchored:
  assumes "parse_source_uri p = Inr None" "staged w p" "d p = wd_dir w p"
  shows "load_single (with_dir w d) mode p = load_single w mode p"
    and "load_single w mode p = Inr loaded \<Longrightarrow> anchored w loaded True"
  using assms
  by (auto simp: load_single_def load_single_package_source_def load_single_package_source_snapshot_def
      snapshot_local_path_def stage_local_path_def loaded_single_layer_def anchored_def
      extend_source_base_path_def elim!: rbind_InrE split: local_stage_mode.splits)

lemma resolve_staged:
  assumes "resolve_extend_source source (Some b) = Inr r" "eb_temporary b" "staged w (eb_path b)"
  shows "(\<exists>u. parse_source_uri (re_source r) = Inr (Some u) \<and> \<not> is_local_filesystem u) \<or>
         (staged w (re_source r) \<and> re_inherited_base r)"
  using assms
  using staged.inside [OF assms(3), of source]
  by (auto simp: resolve_extend_source_def Let_def elim!: rbind_InrE split: option.splits if_splits)

lemma load_graph_with_dir:
  assumes plain: "\<And>q. fetched_path w q \<Longrightarrow> parse_source_uri q = Inr None"
    and agree: "\<And>q. staged w q \<Longrightarrow> d q = wd_dir w q"
  shows "(case base of
      Some b \<Rightarrow> eb_temporary b \<and> staged w (eb_path b)
    | None \<Rightarrow> \<exists>u. parse_source_uri source = Inr (Some u) \<and> \<not> is_local_filesystem u) \<Longrightarrow>
    load_package_source_graph n (with_dir w d) mode source base stack =
    load_package_source_graph n w mode source base stack"
proof (induction n arbitrary: source base stack)
  case (Suc n)
  have step: "load_single (with_dir w d) mode (re_source r) = load_single w mode (re_source r) \<and>
      (\<forall>loaded. load_single w mode (re_source r) = Inr loaded \<longrightarrow> anchored w loaded (re_inherited_base r))"
    if r: "resolve_extend_source source base = Inr r" for r
  proof -
    have "(\<exists>u. parse_source_uri (re_source r) = Inr (Some u) \<and> \<not> is_local_filesystem u) \<or>
        (staged w (re_source r) \<and> re_inherited_base r)"
      using r Suc.prems resolve_staged [of source _ r w]
      by (cases base) (auto simp: resolve_extend_source_def)
    then show ?thesis
      using remote_anchored local_anchored staged_no_scheme [OF _ plain] agree by fastforce
  qed
  have project: "project_package_source_graph w
        (\<lambda>s b. load_package_source_graph n (with_dir w d) mode s b (stack @ [key])) loaded inherited =
      project_package_source_graph w
        (\<lambda>s b. load_package_source_graph n w mode s b (stack @ [key])) loaded inherited"
    if "anchored w loaded inherited" for key loaded inherited
    using that by (rule project_cong) (simp add: Suc.IH)
  show ?case
    using step project
    by (auto simp: next_load_def package_source_key_with_dir project_with_dir split: sum.splits)
qed simp


definition example_world :: world where
  "example_world = \<lparr>
     wd_codec = \<lparr>
       parse_toml = (\<lambda>t.
         if t = ''E'' then Inr (TTable [(''extends'', TArray [TString ''base'']), (''schema_version'', TInteger 1)])
         else Inr (TTable [(''schema_version'', TInteger 1)])),
       print_toml = (\<lambda>_. Inl ''no''), show_toml = (\<lambda>_. []), parse_sidecar = (\<lambda>_. None),
       print_sidecar = (\<lambda>_. ''S''), read_error = ''unreadable''\<rparr>,
     wd_dir = (\<lambda>p.
       if p = ''/t/base'' then Inr [(''rototo-package.toml'', File ''M''), (''variables'', Directory [])]
       else err ''missing''),
     wd_canonical = Inr, wd_temp = (\<lambda>_. ''/p''), wd_walk = (\<lambda>_. []),
     wd_archive = (\<lambda>_ _. err ''offline''),
     wd_clone = (\<lambda>_ _. Inr \<lparr>fe_path = ''/t'', fe_tree = [(''rototo-package.toml'', File ''E'')],
        fe_fingerprint = Some (GitCommit ''c0ffee''), fe_immutable = True\<rparr>)\<rparr>"

definition example_source :: string where
  "example_source = ''git+https://host/repo''"

lemma example_staged: "staged example_world q \<Longrightarrow> \<exists>r. q = ''/t'' @ r"
  by (induction rule: staged.induct)
    (auto simp: example_world_def path_join_def relative_path_is_safe_def err_def elim: fetched_path.cases)


text \<open>C26 layers_account_for_package: a package that loads lists at least one layer, is immutable exactly when every layer is,
  and its fingerprint is the one its layers combine to.
\<close>

theorem layers_account_for_package:
  assumes "load_package_source_graph n w mode source base stack = Some (Inr l)"
  shows "lo_layers l \<noteq> [] \<and> lo_immutable l = list_all sl_immutable (lo_layers l) \<and>
         lo_fingerprint l = combined_layer_fingerprint (lo_layers l)"
  using load_graph_accounted [OF assms] by (simp add: accounted_def)

theorem layers_account_for_package_witness:
  "\<exists>l. load_package_source_graph 33 example_world Borrow example_source None [] = Some (Inr l) \<and>
       \<not> lo_immutable l \<and> length (lo_layers l) = 2 \<and> lo_fingerprint l = None"
proof -
  have "(case load_package_source_graph 33 example_world Borrow example_source None [] of
      Some (Inr l) \<Rightarrow> map sl_fingerprint (lo_layers l) = [None, Some (GitCommit ''c0ffee'')] \<and>
        map sl_immutable (lo_layers l) = [False, True] | _ \<Rightarrow> False)"
    by code_simp
  then obtain l where l: "load_package_source_graph 33 example_world Borrow example_source None [] = Some (Inr l)"
    "map sl_fingerprint (lo_layers l) = [None, Some (GitCommit ''c0ffee'')]"
    "map sl_immutable (lo_layers l) = [False, True]"
    by (auto split: option.splits sum.splits)
  from layers_account_for_package [OF l(1)] l(2,3) show ?thesis
    using l(1) by (auto simp: combined_layer_fingerprint_def)
qed

end
