(* ===== verification/Tokens.thy ===== *)
theory Tokens
  imports Sources
begin

text \<open>
  Bearer tokens for package archives: the entries of \<open>--package-token\<close>, the longest
  matching prefix and the single origin of a bare token (src/src/source/auth.rs), and what
  a request carries (\<open>apply_archive_auth\<close> and \<open>auth_failure_hint\<close> of src/src/source/archive.rs).
\<close>

section \<open>URLs\<close>

definition without_default_port :: "string \<Rightarrow> string" where
  "without_default_port authority =
     (case strip_suffix '':443'' authority of Some a \<Rightarrow> a | None \<Rightarrow> authority)"

definition normalize_archive_url :: "string \<Rightarrow> string" where
  "normalize_archive_url url =
     (case split_once_str ''://'' url of
        None \<Rightarrow> url
      | Some (scheme, rest) \<Rightarrow>
          let authority = takeWhile (\<lambda>c. c \<noteq> CHR ''/'') rest;
              path = dropWhile (\<lambda>c. c \<noteq> CHR ''/'') rest in
          to_ascii_lower scheme @ ''://'' @ without_default_port (to_ascii_lower authority) @ path)"

definition up_to_path :: "string \<Rightarrow> string" where
  "up_to_path url =
     (case split_once_str ''://'' url of
        None \<Rightarrow> url
      | Some (scheme, after) \<Rightarrow> scheme @ ''://'' @ takeWhile (\<lambda>c. c \<noteq> CHR ''/'') after)"

definition archive_origin :: "string \<Rightarrow> string" where
  "archive_origin url = up_to_path (normalize_archive_url url)"

section \<open>Prefixes\<close>

text \<open>Slicing a string panics when the index is inside a character.\<close>

definition is_char_boundary :: "nat \<Rightarrow> string \<Rightarrow> bool" where
  "is_char_boundary n s =
     (n = 0 \<or> n = length s \<or>
      n < length s \<and> \<not> (128 \<le> (of_char (s ! n) :: nat) \<and> (of_char (s ! n) :: nat) < 192))"

definition slice_to :: "nat \<Rightarrow> string \<Rightarrow> string res" where
  "slice_to n s = (if is_char_boundary n s then Inr (take n s) else Inl Panicked)"

definition https_prefixed :: "nat \<Rightarrow> string \<Rightarrow> bool res" where
  "https_prefixed least s =
     (if least \<le> length s
      then rbind (slice_to 8 s) (\<lambda>p. Inr (to_ascii_lower p = ''https://''))
      else Inr False)"

definition has_whitespace :: "string \<Rightarrow> bool" where
  "has_whitespace s = list_ex (\<lambda>w. contains_sub w s) white_space"

definition trim_end_slashes :: "string \<Rightarrow> string" where
  "trim_end_slashes s = rev (dropWhile (\<lambda>c. c = CHR ''/'') (rev s))"

definition normalize_token_prefix :: "string \<Rightarrow> string res" where
  "normalize_token_prefix prefix =
     (if has_whitespace prefix then err (''package token prefix contains whitespace: '' @ prefix)
      else if CHR ''='' \<in> set prefix then
        err (''package token prefix contains '' @ quoted ''='' @ '': '' @ prefix
             @ ''; prefixes are path prefixes only'')
      else if CHR ''?'' \<in> set prefix \<or> CHR ''#'' \<in> set prefix then
        err (''package token prefix must not carry a query or fragment: '' @ prefix)
      else rbind (https_prefixed 9 prefix) (\<lambda>https.
        if \<not> https then err (''package token prefix must start with https://: '' @ prefix)
        else Inr (trim_end_slashes (normalize_archive_url prefix))))"

type_synonym tokens = "(string \<times> string) list"

definition with_prefix :: "tokens \<Rightarrow> string \<Rightarrow> string \<Rightarrow> tokens res" where
  "with_prefix entries prefix token =
     rbind (normalize_token_prefix prefix) (\<lambda>normalized.
       if normalized \<in> fst ` set entries then err (''duplicate package token prefix: '' @ normalized)
       else if token = [] then err (''package token for prefix '' @ normalized @ '' is empty'')
       else Inr (entries @ [(normalized, token)]))"

definition covers :: "string \<Rightarrow> string \<Rightarrow> bool" where
  "covers prefix normalized =
     (normalized = prefix \<or>
      (case strip_prefix prefix normalized of Some rest \<Rightarrow> starts_with ''/'' rest | None \<Rightarrow> False))"

text \<open>\<open>max_by_key\<close> keeps the last of equal maxima.\<close>

fun longest_prefix :: "tokens \<Rightarrow> (string \<times> string) option" where
  "longest_prefix [] = None"
| "longest_prefix (e # es) =
     (case longest_prefix es of
        None \<Rightarrow> Some e
      | Some m \<Rightarrow> if length (fst m) < length (fst e) then Some e else Some m)"

definition winning_entry :: "tokens \<Rightarrow> string \<Rightarrow> (string \<times> string) option" where
  "winning_entry entries url =
     longest_prefix (filter (\<lambda>e. covers (fst e) (normalize_archive_url url)) entries)"

definition token_for :: "tokens \<Rightarrow> string \<Rightarrow> string option" where
  "token_for entries url = map_option snd (winning_entry entries url)"

definition matching_prefix :: "tokens \<Rightarrow> string \<Rightarrow> string option" where
  "matching_prefix entries url = map_option fst (winning_entry entries url)"

section \<open>The entries of the command line\<close>

datatype source_auth = NoAuth | Bearer string | Scoped tokens

fun token_entries :: "string list \<Rightarrow> string list \<Rightarrow> tokens \<Rightarrow> (string list \<times> tokens) res" where
  "token_entries [] bare scoped = Inr (bare, scoped)"
| "token_entries (e # es) bare scoped =
     (let entry = trim e in
      if entry = [] then token_entries es bare scoped
      else rbind (https_prefixed 8 entry) (\<lambda>https.
        if https then
          (case split_once (CHR ''='') entry of
             None \<Rightarrow> err (''package token entry '' @ quoted entry @ '' looks like a URL prefix but has no ''
                          @ quoted ''=TOKEN'' @ ''; write https://host/prefix=TOKEN'')
           | Some (prefix, token) \<Rightarrow>
               rbind (with_prefix scoped prefix token) (\<lambda>scoped'. token_entries es bare scoped'))
        else token_entries es (bare @ [entry]) scoped))"

definition source_auth_from_package_token_entries :: "string list \<Rightarrow> source_auth res" where
  "source_auth_from_package_token_entries entries =
     rbind (token_entries entries [] []) (\<lambda>(bare, scoped).
       case (bare, scoped) of
         ([], []) \<Rightarrow> Inr NoAuth
       | ([t], []) \<Rightarrow> Inr (Bearer t)
       | ([], _) \<Rightarrow> Inr (Scoped scoped)
       | (_, []) \<Rightarrow> err (''more than one bare package token; ''
                         @ ''scope each one as https://host/prefix=TOKEN'')
       | _ \<Rightarrow> err (''a bare package token cannot be mixed with ''
                   @ ''https://prefix=TOKEN entries; scope every token''))"

section \<open>What a request carries\<close>

text \<open>The state is the origin the bare token is bound to.\<close>

definition bind_origin :: "string \<Rightarrow> string option \<Rightarrow> string option res" where
  "bind_origin url bound =
     (let origin = archive_origin url in
      case bound of
        None \<Rightarrow> Inr (Some origin)
      | Some existing \<Rightarrow>
          if existing = origin then Inr bound
          else err (''a bare package token is bound to a single archive origin, but this load fetches both ''
                    @ existing @ '' and '' @ origin @ ''; scope the tokens as '' @ existing @ ''=TOKEN ''
                    @ origin @ ''=TOKEN''))"

definition apply_archive_auth ::
  "source_auth \<Rightarrow> string \<Rightarrow> string option \<Rightarrow> (string option \<times> string option) res" where
  "apply_archive_auth auth url bound =
     (case auth of
        NoAuth \<Rightarrow> Inr (None, bound)
      | Bearer token \<Rightarrow> rbind (bind_origin url bound) (\<lambda>bound'. Inr (Some token, bound'))
      | Scoped entries \<Rightarrow> Inr (token_for entries url, bound))"

definition auth_failure_hint :: "nat \<Rightarrow> string \<Rightarrow> source_auth \<Rightarrow> string" where
  "auth_failure_hint status url auth =
     (if status \<notin> {401, 403} then []
      else let origin = archive_origin url in
        case auth of
          NoAuth \<Rightarrow> '' (no package token configured; pass --package-token '' @ origin
                    @ ''/...=TOKEN or set ROTOTO_PACKAGE_TOKEN)''
        | Bearer _ \<Rightarrow> '' (sent the bare package token)''
        | Scoped entries \<Rightarrow>
            (case matching_prefix entries url of
               Some prefix \<Rightarrow> '' (sent the token scoped to '' @ prefix @ '')''
             | None \<Rightarrow> '' (no package token entry matched this URL; add '' @ origin @ ''/...=TOKEN)''))"

text \<open>The requests of one load, in order, until one is refused: what each carried.\<close>

fun requests :: "source_auth \<Rightarrow> string option \<Rightarrow> string list \<Rightarrow> (string \<times> string option) list" where
  "requests auth bound [] = []"
| "requests auth bound (url # urls) =
     (case apply_archive_auth auth url bound of
        Inl e \<Rightarrow> []
      | Inr (carried, bound') \<Rightarrow> (url, carried) # requests auth bound' urls)"

section \<open>Every prefix is an https one\<close>

abbreviation low :: "char \<Rightarrow> char" where
  "low c \<equiv> hd (to_ascii_lower [c])"

lemma low_colon_slash: "low c = d \<Longrightarrow> d = CHR '':'' \<or> d = CHR ''/'' \<Longrightarrow> c = d"
  by (auto simp: to_ascii_lower_def split: if_splits dest!: arg_cong [where f = "of_char :: char \<Rightarrow> nat"])

lemma low_colon: "low (CHR '':'') = CHR '':''"
  by (simp add: to_ascii_lower_def)

lemma to_ascii_lower_simps [simp]:
  "to_ascii_lower [] = []" "to_ascii_lower s = [] \<longleftrightarrow> s = []"
  by (simp_all add: to_ascii_lower_def)

lemma lower_shape: "to_ascii_lower s = d # t \<longleftrightarrow> (\<exists>c r. s = c # r \<and> low c = d \<and> to_ascii_lower r = t)"
  by (cases s) (auto simp: to_ascii_lower_def)

lemma split_https:
  assumes "to_ascii_lower (take 8 s) = ''https://''"
  shows "split_once_str ''://'' s = Some (take 5 s, drop 8 s)" "to_ascii_lower (take 5 s) = ''https''"
proof -
  obtain a b c d e f g h where t: "take 8 s = [a, b, c, d, e, f, g, h]"
    and lower: "low a = CHR ''h''" "low b = CHR ''t''" "low c = CHR ''t''" "low d = CHR ''p''" "low e = CHR ''s''"
    and rest: "low f = CHR '':''" "low g = CHR ''/''" "low h = CHR ''/''"
    using assms unfolding lower_shape by auto
  have fgh: "f = CHR '':''" "g = CHR ''/''" "h = CHR ''/''"
    using rest by (auto dest: low_colon_slash)
  have s: "s = a # b # c # d # e # CHR '':'' # CHR ''/'' # CHR ''/'' # drop 8 s"
    using append_take_drop_id [of 8 s] unfolding t fgh by simp
  have no: "a \<noteq> CHR '':''" "b \<noteq> CHR '':''" "c \<noteq> CHR '':''" "d \<noteq> CHR '':''" "e \<noteq> CHR '':''"
    using lower by (auto simp: low_colon)
  obtain r where r: "s = a # b # c # d # e # CHR '':'' # CHR ''/'' # CHR ''/'' # r" "drop 8 s = r"
    using s by blast
  have "find_sub ''://'' s = Some 5"
    using no by (simp add: r(1) starts_with_def)
  then show "split_once_str ''://'' s = Some (take 5 s, drop 8 s)"
    by (simp add: split_once_str_def)
  show "to_ascii_lower (take 5 s) = ''https''"
    using lower by (simp add: r(1) lower_shape)
qed

lemma https_prefixed_True:
  "https_prefixed least s = Inr True \<Longrightarrow> to_ascii_lower (take 8 s) = ''https://''"
  by (auto simp: https_prefixed_def slice_to_def rbind_eq_Inr split: if_splits)

text \<open>A normalized prefix is an https URL, or what is left of one without a host.\<close>

definition https_form :: "string \<Rightarrow> bool" where
  "https_form p = (p = ''https:'' \<or> starts_with ''https://'' p)"

lemma trim_https: "https_form (trim_end_slashes (''https://'' @ x))"
proof (cases "list_all (\<lambda>c. c = CHR ''/'') x")
  case True
  then show ?thesis by (simp add: trim_end_slashes_def list_all_iff dropWhile_append https_form_def)
next
  case False
  then have "trim_end_slashes (''https://'' @ x) = ''https://'' @ trim_end_slashes x"
    by (auto simp: trim_end_slashes_def list_all_iff dropWhile_append)
  then show ?thesis by (simp add: https_form_def starts_with_iff)
qed

lemma normalized_prefix_form:
  assumes "normalize_token_prefix prefix = Inr p"
  shows "https_form p"
proof -
  have "https_prefixed 9 prefix = Inr True" "p = trim_end_slashes (normalize_archive_url prefix)"
    using assms by (auto simp: normalize_token_prefix_def rbind_eq_Inr split: if_splits)
  note split = split_https [OF https_prefixed_True [OF this(1)]] and p = this(2)
  show ?thesis
    using trim_https unfolding p normalize_archive_url_def split(1) Let_def by (simp add: split(2))
qed

lemma with_prefix_Inr:
  "with_prefix entries prefix token = Inr entries' \<longleftrightarrow>
   (\<exists>p. normalize_token_prefix prefix = Inr p \<and> p \<notin> fst ` set entries \<and> token \<noteq> [] \<and>
        entries' = entries @ [(p, token)])"
  by (auto simp: with_prefix_def rbind_eq_Inr)

definition tokens_wf :: "tokens \<Rightarrow> bool" where
  "tokens_wf entries =
     (distinct (map fst entries) \<and>
      (\<forall>p \<in> fst ` set entries. https_form p))"

lemma with_prefix_wf: "with_prefix entries prefix token = Inr entries' \<Longrightarrow> tokens_wf entries \<Longrightarrow> tokens_wf entries'"
  by (auto simp: with_prefix_Inr tokens_wf_def dest!: normalized_prefix_form)

lemma token_entries_wf:
  "token_entries es bare scoped = Inr (bare', scoped') \<Longrightarrow> tokens_wf scoped \<Longrightarrow> tokens_wf scoped'"
  by (induction es bare scoped rule: token_entries.induct)
    (auto simp: rbind_eq_Inr Let_def split: if_splits option.splits prod.splits dest: with_prefix_wf)

lemma scoped_wf:
  assumes "source_auth_from_package_token_entries entries = Inr (Scoped toks)"
  shows "tokens_wf toks"
proof -
  have "\<exists>bare. token_entries entries [] [] = Inr (bare, toks)"
    using assms
    by (cases "token_entries entries [] []")
      (auto simp: source_auth_from_package_token_entries_def split: list.splits)
  then show ?thesis using token_entries_wf by (fastforce simp: tokens_wf_def)
qed

section \<open>The longest prefix\<close>

lemma longest_prefix_Some:
  "longest_prefix es = Some m \<Longrightarrow> m \<in> set es \<and> (\<forall>e \<in> set es. length (fst e) \<le> length (fst m))"
proof (induction es arbitrary: m)
  case (Cons e es)
  show ?case
  proof (cases "longest_prefix es")
    case None
    with Cons.prems show ?thesis by (cases es) (auto split: option.splits if_splits)
  next
    case (Some k)
    with Cons.prems Cons.IH [OF Some] show ?thesis by (auto split: if_splits dest: order_trans less_imp_le)
  qed
qed simp

lemma longest_prefix_None: "longest_prefix es = None \<longleftrightarrow> es = []"
  by (cases es) (auto split: option.splits)

lemma covers_append: "covers p n \<longleftrightarrow> (\<exists>rest. n = p @ rest \<and> (rest = [] \<or> starts_with ''/'' rest))"
  by (auto simp: covers_def strip_prefix_Some_iff split: option.splits)

lemma covers_same_length: "covers p n \<Longrightarrow> covers q n \<Longrightarrow> length p = length q \<Longrightarrow> p = q"
  by (auto simp: covers_append)

lemma up_to_path_https: "up_to_path (''https://'' @ r) = ''https://'' @ takeWhile (\<lambda>c. c \<noteq> CHR ''/'') r"
  by (simp add: up_to_path_def split_once_str_def starts_with_def)

lemma covers_same_origin:
  assumes "covers (''https://'' @ r) (normalize_archive_url url)"
  shows "up_to_path (''https://'' @ r) = archive_origin url"
proof -
  obtain rest where rest: "normalize_archive_url url = ''https://'' @ r @ rest" "rest = [] \<or> starts_with ''/'' rest"
    using assms by (auto simp: covers_append)
  then show ?thesis
    unfolding archive_origin_def rest(1) up_to_path_https
    by (auto simp: starts_with_iff takeWhile_tail)
qed

lemma bind_origin_Inr:
  "bind_origin url bound = Inr bound' \<longleftrightarrow>
   bound' = Some (archive_origin url) \<and> (bound = None \<or> bound = bound')"
  by (cases bound) (auto simp: bind_origin_def Let_def)

lemma apply_bearer:
  "Inr (c, bound') = apply_archive_auth (Bearer token) url bound \<longleftrightarrow>
   c = Some token \<and> bind_origin url bound = Inr bound'"
  by (cases "bind_origin url bound") (auto simp: apply_archive_auth_def)

lemma requests_bound:
  "(url, c) \<in> set (requests (Bearer token) (Some origin) urls) \<Longrightarrow>
   c = Some token \<and> archive_origin url = origin"
  by (induction urls) (auto split: sum.splits prod.splits simp: apply_bearer bind_origin_Inr)

lemma requests_bearer:
  "(url, c) \<in> set (requests (Bearer token) None urls) \<Longrightarrow>
   c = Some token \<and> archive_origin url = archive_origin (hd urls)"
  by (cases urls)
    (auto split: sum.splits prod.splits simp: apply_bearer bind_origin_Inr dest: requests_bound)

lemma requests_scoped: "(url, c) \<in> set (requests (Scoped toks) bound urls) \<Longrightarrow> c = token_for toks url"
  by (induction urls arbitrary: bound) (auto simp: apply_archive_auth_def split: sum.splits)

lemma requests_anonymous: "(url, c) \<in> set (requests NoAuth bound urls) \<Longrightarrow> c = None"
  by (induction urls arbitrary: bound) (auto simp: apply_archive_auth_def)

lemma token_for_Some:
  assumes "token_for toks url = Some t" "tokens_wf toks"
  obtains p where "(p, t) \<in> set toks" "covers p (normalize_archive_url url)"
    "\<forall>q u. (q, u) \<in> set toks \<and> covers q (normalize_archive_url url) \<longrightarrow> length q \<le> length p"
    "p = ''https:'' \<or> up_to_path p = archive_origin url"
proof -
  from assms(1) obtain p where "winning_entry toks url = Some (p, t)"
    by (auto simp: token_for_def)
  note longest_prefix_Some [OF this [unfolded winning_entry_def]]
  then have won: "(p, t) \<in> set toks" "covers p (normalize_archive_url url)"
    "\<forall>q u. (q, u) \<in> set toks \<and> covers q (normalize_archive_url url) \<longrightarrow> length q \<le> length p"
    by auto
  then have "https_form p" using assms(2) by (force simp: tokens_wf_def)
  then have "p = ''https:'' \<or> up_to_path p = archive_origin url"
    using covers_same_origin won(2) by (auto simp: https_form_def starts_with_iff)
  with won show ?thesis by (rule that)
qed

text \<open>C27 token_goes_where_entitled: of the requests of one load, the bare token is carried only by
  those to the origin of the first, and a scoped token only by those its prefix covers on whole path segments, with no
  longer prefix covering them; unless the prefix is the bare scheme, their origin is the one of the prefix.\<close>

theorem token_goes_where_entitled:
  assumes "source_auth_from_package_token_entries entries = Inr auth"
    and "(url, Some t) \<in> set (requests auth None urls)"
  shows "case auth of
      NoAuth \<Rightarrow> False
    | Bearer token \<Rightarrow> t = token \<and> archive_origin url = archive_origin (hd urls)
    | Scoped toks \<Rightarrow> \<exists>p. (p, t) \<in> set toks \<and> covers p (normalize_archive_url url) \<and>
        (\<forall>q u. (q, u) \<in> set toks \<and> covers q (normalize_archive_url url) \<longrightarrow> length q \<le> length p) \<and>
        (p = ''https:'' \<or> up_to_path p = archive_origin url)"
proof (cases auth)
  case NoAuth
  with assms(2) show ?thesis by (auto dest: requests_anonymous)
next
  case (Bearer token)
  with assms(2) show ?thesis by (auto dest: requests_bearer)
next
  case (Scoped toks)
  from assms(1) have "tokens_wf toks" unfolding Scoped by (rule scoped_wf)
  moreover have "token_for toks url = Some t"
    using requests_scoped assms(2) unfolding Scoped by fastforce
  ultimately obtain p where "(p, t) \<in> set toks" "covers p (normalize_archive_url url)"
    "\<forall>q u. (q, u) \<in> set toks \<and> covers q (normalize_archive_url url) \<longrightarrow> length q \<le> length p"
    "p = ''https:'' \<or> up_to_path p = archive_origin url"
    using token_for_Some by blast
  then show ?thesis unfolding Scoped source_auth.case by (intro exI conjI)
qed

theorem token_goes_where_entitled_witness:
  "\<exists>p. (p, ''key'') \<in> set [(''https://a.co'', ''wide''), (''https://a.co/x'', ''key'')] \<and>
       covers p (normalize_archive_url ''HTTPS://A.co:443/x/p.tgz'') \<and>
       up_to_path p = archive_origin ''HTTPS://A.co:443/x/p.tgz''"
proof -
  have "source_auth_from_package_token_entries [''https://a.co=wide'', '' https://A.co/x/=key''] =
      Inr (Scoped [(''https://a.co'', ''wide''), (''https://a.co/x'', ''key'')])" by code_simp
  moreover have "(''HTTPS://A.co:443/x/p.tgz'', Some ''key'') \<in> set (requests
      (Scoped [(''https://a.co'', ''wide''), (''https://a.co/x'', ''key'')]) None
      [''https://b.org/p.tgz'', ''HTTPS://A.co:443/x/p.tgz''])" by code_simp
  ultimately show ?thesis
    using token_goes_where_entitled by fastforce
qed

text \<open>The exception is real: a prefix without a host normalizes to the bare scheme, which covers every
  https URL, so its token goes to every host.\<close>

theorem hostless_prefix_covers_all:
  "source_auth_from_package_token_entries [''https:///=key''] = Inr (Scoped [(''https:'', ''key'')])"
  "token_for [(''https:'', ''key'')] (''https://'' @ rest) = Some ''key''"
proof -
  show "source_auth_from_package_token_entries [''https:///=key''] = Inr (Scoped [(''https:'', ''key'')])"
    by code_simp
  have "split_once_str ''://'' (''https://'' @ rest) = Some (''https'', rest)"
    using split_https [of "''https://'' @ rest"] by (simp add: to_ascii_lower_def)
  then show "token_for [(''https:'', ''key'')] (''https://'' @ rest) = Some ''key''"
    by (simp add: token_for_def winning_entry_def normalize_archive_url_def covers_def starts_with_def
        to_ascii_lower_def)
qed

text \<open>A bare token is cut at its eighth byte to look for the scheme, inside a character here.\<close>

theorem accented_token_panics:
  "source_auth_from_package_token_entries [[CHR ''s'', CHR ''e'', CHR ''c'', CHR ''r'', CHR ''e'', CHR ''t'',
     CHR ''-'', CHR 0xC3, CHR 0xA9]] = Inl Panicked"
  by code_simp

end
