(* ===== verification/Fetch.thy ===== *)
theory Fetch
  imports SourceGraph Tokens
begin

text \<open>
  Fetching a remote package: download, limits and extraction of an archive and the choice
  of the package root in it (src/src/source/archive.rs, \<open>select_subdir\<close> of
  src/src/source/path.rs), the clone of a repository and the probes for changes
  (src/src/source/git.rs), and the eviction of the store of pinned trees
  (src/src/source/pin.rs). HTTP, the tar and gzip decoders, SHA-256, the git
  command and the canonical form of a path are the fields of one record.
\<close>

section \<open>Options and responses\<close>

record source_options =
  so_auth :: source_auth
  max_archive_bytes :: "64 word"
  max_decompressed_archive_bytes :: "64 word"
  max_archive_entries :: "64 word"

definition default_source_options :: source_options where
  "default_source_options =
     \<lparr>so_auth = NoAuth, max_archive_bytes = 50 * 1024 * 1024,
      max_decompressed_archive_bytes = 200 * 1024 * 1024, max_archive_entries = 10000\<rparr>"

text \<open>A response; \<open>preview\<close> is what \<open>response_preview\<close> reads of an error's body.\<close>

record http_response =
  rs_status :: nat
  rs_etag :: "string option"
  rs_last_modified :: "string option"
  rs_length :: "64 word option"
  rs_preview :: "string res"
  rs_chunks :: "string res list"

datatype entry_kind = RegularFile | DirectoryEntry | ExtensionHeader | LinkEntry | OtherEntry

record archive_entry =
  ae_kind :: entry_kind
  ae_path :: "string res"
  ae_size :: "64 word res"

text \<open>How a git command ended: in time or not, found or not, with which status and output.\<close>

datatype git_outcome =
    GitTimeout
  | GitNotFound string
  | GitUnrunnable string
  | GitExit bool string string

record net =
  nt_send :: "string \<Rightarrow> string \<Rightarrow> string option \<Rightarrow> http_response res"
  nt_sha256 :: "string \<Rightarrow> string"
  nt_tar :: "string \<Rightarrow> archive_entry res list"
  nt_unpack :: "archive_entry \<Rightarrow> unit res"
  nt_tree :: "archive_entry list \<Rightarrow> entries"
  nt_git :: "string list \<Rightarrow> git_outcome"
  nt_checkout_tree :: "string list \<Rightarrow> entries"
  nt_canonical :: "string \<Rightarrow> string res"
  nt_tempdir :: string

section \<open>Downloading\<close>

definition is_success :: "nat \<Rightarrow> bool" where
  "is_success status = (200 \<le> status \<and> status < 300)"

definition http_validator_fingerprint :: "http_response \<Rightarrow> source_fingerprint option" where
  "http_validator_fingerprint r =
     (case rs_etag r of
        Some etag \<Rightarrow> Some (HttpValidator (''etag:'' @ etag))
      | None \<Rightarrow> map_option (\<lambda>m. HttpValidator (''last-modified:'' @ m)) (rs_last_modified r))"

definition checked_add :: "'a::len word \<Rightarrow> 'a word \<Rightarrow> 'a word option" where
  "checked_add x y = (if unat x + unat y < 2 ^ LENGTH('a) then Some (x + y) else None)"

text \<open>The bytes in the file, and whether the loop over the chunks ended well.\<close>

fun write_response_to_file :: "64 word \<Rightarrow> 64 word \<Rightarrow> string res list \<Rightarrow> string \<Rightarrow> string \<times> unit res" where
  "write_response_to_file max_bytes sofar [] written = (written, Inr ())"
| "write_response_to_file max_bytes sofar (chunk # chunks) written =
     (case chunk of
        Inl e \<Rightarrow> (written, Inl e)
      | Inr bytes \<Rightarrow>
          (case checked_add sofar (of_nat (length bytes)) of
             None \<Rightarrow> (written, err ''package archive is too large'')
           | Some sofar' \<Rightarrow>
               if max_bytes < sofar' then
                 (written, err (''package archive is too large: exceeded limit of ''
                                @ show_nat (unat max_bytes) @ '' bytes''))
               else write_response_to_file max_bytes sofar' chunks (written @ bytes)))"

section \<open>Extracting\<close>

definition archive_skipped_entry :: "entry_kind \<Rightarrow> bool" where
  "archive_skipped_entry k = (k \<in> {ExtensionHeader, LinkEntry})"

definition archive_path_is_safe :: "string \<Rightarrow> bool" where
  "archive_path_is_safe p = relative_path_is_safe p"

text \<open>The limits an entry meets: the bytes after it.\<close>

definition admit_bytes :: "64 word \<Rightarrow> archive_entry \<Rightarrow> 64 word \<Rightarrow> 64 word res" where
  "admit_bytes max_bytes e bytes =
     (if ae_kind e = RegularFile then
        rbind (ae_size e) (\<lambda>size.
          case checked_add bytes size of
            None \<Rightarrow> err ''package archive is too large''
          | Some bytes' \<Rightarrow>
              if max_bytes < bytes' then
                err (''package archive decompressed content is too large: exceeded limit of ''
                     @ show_nat (unat max_bytes) @ '' bytes'')
              else Inr bytes')
      else Inr bytes)"

definition admit_entry :: "64 word \<Rightarrow> archive_entry \<Rightarrow> 64 word \<Rightarrow> 64 word res" where
  "admit_entry max_bytes e bytes =
     rbind (ae_path e) (\<lambda>p.
       if \<not> archive_path_is_safe p then err (''package archive contains unsafe path: '' @ p)
       else if ae_kind e \<notin> {RegularFile, DirectoryEntry} then
         err (''package archive contains unsupported entry type at: '' @ p)
       else admit_bytes max_bytes e bytes)"

text \<open>What has been unpacked, and whether the loop over the entries ended well.\<close>

fun extract_archive ::
  "(archive_entry \<Rightarrow> unit res) \<Rightarrow> 64 word \<Rightarrow> 64 word \<Rightarrow> archive_entry res list \<Rightarrow> 64 word \<Rightarrow> 64 word
   \<Rightarrow> archive_entry list \<Rightarrow> archive_entry list \<times> unit res" where
  "extract_archive unpack max_bytes max_entries [] seen bytes unpacked = (unpacked, Inr ())"
| "extract_archive unpack max_bytes max_entries (r # rs) seen bytes unpacked =
     (case r of
        Inl e \<Rightarrow> (unpacked, Inl e)
      | Inr entry \<Rightarrow>
          (case checked_add seen 1 of
             None \<Rightarrow> (unpacked, err ''package archive contains too many entries'')
           | Some seen' \<Rightarrow>
               if max_entries < seen' then
                 (unpacked, err (''package archive contains too many entries: exceeded limit of ''
                              @ show_nat (unat max_entries)))
               else if archive_skipped_entry (ae_kind entry) then
                 extract_archive unpack max_bytes max_entries rs seen' bytes unpacked
               else
                 (case admit_entry max_bytes entry bytes of
                    Inl e \<Rightarrow> (unpacked, Inl e)
                  | Inr bytes' \<Rightarrow>
                      (case unpack entry of
                         Inl e \<Rightarrow> (unpacked, Inl e)
                       | Inr _ \<Rightarrow>
                           extract_archive unpack max_bytes max_entries rs seen' bytes' (unpacked @ [entry])))))"

section \<open>The package root\<close>

definition path_starts_with :: "string \<Rightarrow> string \<Rightarrow> bool" where
  "path_starts_with p b = (take (length (components b)) (components p) = components b)"

definition names_of :: "string \<Rightarrow> path" where
  "names_of p = concat (map (\<lambda>c. case c of Normal n \<Rightarrow> [n] | _ \<Rightarrow> []) (components p))"

definition select_subdir ::
  "net \<Rightarrow> string \<Rightarrow> entries \<Rightarrow> string option \<Rightarrow> string \<Rightarrow> (string \<times> entries) res" where
  "select_subdir nt base es subdir original =
     rbind (nt_canonical nt base) (\<lambda>canonical_root.
       case subdir of
         None \<Rightarrow> Inr (canonical_root, es)
       | Some s \<Rightarrow>
           if \<not> relative_path_is_safe s then err (''package source subdir is unsafe: '' @ s)
           else
             (case node_at (Directory es) (names_of s) of
                None \<Rightarrow> err (''package source subdir '' @ quoted s @ '' was not found in '' @ quoted original)
              | Some (Directory sub) \<Rightarrow>
                  rbind (nt_canonical nt (path_join base s)) (\<lambda>target.
                    if path_starts_with target canonical_root then Inr (target, sub)
                    else err (''package source subdir '' @ quoted s @ '' escapes staged package''))
              | Some _ \<Rightarrow> err (''package source subdir '' @ quoted s @ '' is not a directory'')))"

definition subdirectories :: "entries \<Rightarrow> (string \<times> entries) list" where
  "subdirectories es = concat (map (\<lambda>(name, n). case n of Directory sub \<Rightarrow> [(name, sub)] | _ \<Rightarrow> []) es)"

definition infer_archive_package_root :: "string \<Rightarrow> entries \<Rightarrow> string \<Rightarrow> (string \<times> entries) res" where
  "infer_archive_package_root base es original =
     (if layer_file es [package_manifest] \<noteq> None then Inr (base, es)
      else
        (case subdirectories es of
           [(name, sub)] \<Rightarrow>
             if layer_file sub [package_manifest] \<noteq> None then Inr (path_join base name, sub)
             else err (''package archive from '' @ quoted original
                       @ '' does not contain a clear package root; use #:subdir'')
         | _ \<Rightarrow> err (''package archive from '' @ quoted original
                    @ '' does not contain a clear package root; use #:subdir'')))"

definition select_archive_subdir ::
  "net \<Rightarrow> string \<Rightarrow> entries \<Rightarrow> string \<Rightarrow> string \<Rightarrow> (string \<times> entries) res" where
  "select_archive_subdir nt base es subdir original =
     (if \<not> relative_path_is_safe subdir then err (''package source subdir is unsafe: '' @ subdir)
      else
        (case select_subdir nt base es (Some subdir) original of
           Inr r \<Rightarrow> Inr r
         | Inl e \<Rightarrow>
             (case subdirectories es of
                [(name, sub)] \<Rightarrow>
                  (case select_subdir nt (path_join base name) sub (Some subdir) original of
                     Inr r \<Rightarrow> Inr r | Inl _ \<Rightarrow> Inl e)
              | _ \<Rightarrow> Inl e)))"

section \<open>An archive\<close>

definition archive_url :: "source_uri \<Rightarrow> string" where
  "archive_url uri = uri_scheme uri @ ''://'' @ uri_base uri"

definition no_ref :: "source_uri \<Rightarrow> unit res" where
  "no_ref uri =
     (if uri_ref uri \<noteq> None then err ''https package sources only support #:subdir fragments'' else Inr ())"

text \<open>The request goes out with what the options entitle its URL to.\<close>

definition send_request ::
  "net \<Rightarrow> source_options \<Rightarrow> string \<Rightarrow> string \<Rightarrow> string option \<Rightarrow> (http_response \<times> string option) res" where
  "send_request nt o1 verb url bound =
     rbind (apply_archive_auth (so_auth o1) url bound) (\<lambda>(token, bound').
     rbind (nt_send nt verb url token) (\<lambda>r. Inr (r, bound')))"

definition failed_status :: "string \<Rightarrow> string \<Rightarrow> source_options \<Rightarrow> http_response \<Rightarrow> string \<Rightarrow> 'a res" where
  "failed_status what url o1 r detail =
     err (what @ show_nat (rs_status r) @ detail @ auth_failure_hint (rs_status r) url (so_auth o1))"

definition download ::
  "net \<Rightarrow> source_options \<Rightarrow> string \<Rightarrow> string option
   \<Rightarrow> ((string \<times> source_fingerprint) \<times> string option) res" where
  "download nt o1 url bound =
     rbind (send_request nt o1 ''GET'' url bound) (\<lambda>(r, bound').
       if \<not> is_success (rs_status r) then
         rbind (rs_preview r) (\<lambda>preview.
           failed_status ''failed to fetch package archive: HTTP '' url o1 r
             (if preview = [] then [] else '': '' @ preview))
       else if (case rs_length r of Some n \<Rightarrow> max_archive_bytes o1 < n | None \<Rightarrow> False) then
         err (''package archive is too large: ''
              @ show_nat (case rs_length r of Some n \<Rightarrow> unat n | None \<Rightarrow> 0) @ '' bytes exceeds limit of ''
              @ show_nat (unat (max_archive_bytes o1)) @ '' bytes'')
       else
         (case write_response_to_file (max_archive_bytes o1) 0 (rs_chunks r) [] of
            (_, Inl e) \<Rightarrow> Inl e
          | (bytes, Inr _) \<Rightarrow>
              Inr ((bytes, case http_validator_fingerprint r of
                      Some f \<Rightarrow> f | None \<Rightarrow> ContentHash (''sha256:'' @ nt_sha256 nt bytes)), bound')))"

definition extract_https_archive ::
  "net \<Rightarrow> source_options \<Rightarrow> string \<Rightarrow> string option
   \<Rightarrow> ((entries \<times> source_fingerprint) \<times> string option) res" where
  "extract_https_archive nt o1 url bound =
     rbind (download nt o1 url bound) (\<lambda>((bytes, f), bound').
       case extract_archive (nt_unpack nt) (max_decompressed_archive_bytes o1) (max_archive_entries o1)
              (nt_tar nt bytes) 0 0 [] of
         (_, Inl e) \<Rightarrow> Inl e
       | (unpacked, Inr _) \<Rightarrow> Inr ((nt_tree nt unpacked, f), bound'))"

definition stage_https_archive ::
  "net \<Rightarrow> source_options \<Rightarrow> source_uri \<Rightarrow> string \<Rightarrow> string option \<Rightarrow> (loaded_source \<times> string option) res" where
  "stage_https_archive nt o1 uri original bound =
     rbind (no_ref uri) (\<lambda>_.
     rbind (extract_https_archive nt o1 (archive_url uri) bound) (\<lambda>((es, f), bound').
     rbind (case uri_subdir uri of
              Some s \<Rightarrow> select_archive_subdir nt (nt_tempdir nt @ ''/extract'') es s original
            | None \<Rightarrow> infer_archive_package_root (nt_tempdir nt @ ''/extract'') es original) (\<lambda>(p, t).
       Inr (loaded_single_layer original \<lparr>st_path = p, st_temporary = True, st_tree = Inr t\<rparr> (Some f) False,
            bound'))))"

definition probe_of :: "source_fingerprint option \<Rightarrow> source_fingerprint \<Rightarrow> source_probe" where
  "probe_of previous f = (if previous = Some f then ProbeUnchanged else ProbeChanged (Some f))"

definition probe_https_archive ::
  "net \<Rightarrow> source_options \<Rightarrow> source_uri \<Rightarrow> source_fingerprint option \<Rightarrow> string option
   \<Rightarrow> (source_probe \<times> string option) res" where
  "probe_https_archive nt o1 uri previous bound =
     rbind (no_ref uri) (\<lambda>_.
     rbind (send_request nt o1 ''HEAD'' (archive_url uri) bound) (\<lambda>(r, bound').
       if \<not> is_success (rs_status r) then
         failed_status ''failed to check package archive: HTTP '' (archive_url uri) o1 r []
       else
         (case http_validator_fingerprint r of
            None \<Rightarrow> Inr (ProbeUnknown, bound')
          | Some f \<Rightarrow> Inr (probe_of previous f, bound'))))"

section \<open>A repository\<close>

definition is_hexdigit :: "char \<Rightarrow> bool" where
  "is_hexdigit c =
     (is_digit c \<or> (65 \<le> (of_char c :: nat) \<and> (of_char c :: nat) \<le> 70)
      \<or> (97 \<le> (of_char c :: nat) \<and> (of_char c :: nat) \<le> 102))"

definition is_full_git_commit :: "string \<Rightarrow> bool" where
  "is_full_git_commit r = (length r = 40 \<and> list_all is_hexdigit r)"

definition validate_git_ref :: "string \<Rightarrow> unit res" where
  "validate_git_ref r =
     (if starts_with ''-'' r then err (''git package ref must not begin with '' @ [CHR 0x27] @ ''-''
                                       @ [CHR 0x27] @ '': '' @ r)
      else Inr ())"

definition inner_scheme :: "source_uri \<Rightarrow> string res" where
  "inner_scheme uri =
     (case strip_prefix ''git+'' (uri_scheme uri) of
        Some s \<Rightarrow> Inr s | None \<Rightarrow> err ''invalid git package source'')"

definition pinned_commit :: "source_uri \<Rightarrow> bool" where
  "pinned_commit uri = (case uri_ref uri of Some r \<Rightarrow> is_full_git_commit r | None \<Rightarrow> False)"

definition clone_command :: "string \<Rightarrow> source_uri \<Rightarrow> string \<Rightarrow> string list" where
  "clone_command scheme uri dir =
     [''clone'', ''--quiet''] @ (if pinned_commit uri then [] else [''--depth=1''])
     @ (case uri_ref uri of
          Some r \<Rightarrow> if pinned_commit uri then [] else [''--branch'', r]
        | None \<Rightarrow> [])
     @ [scheme @ ''://'' @ uri_base uri, dir]"

text \<open>The standard output of a command, with the errors its caller words for the other endings.\<close>

definition run_git :: "net \<Rightarrow> string list \<Rightarrow> string \<Rightarrow> string \<Rightarrow> bool \<Rightarrow> string res" where
  "run_git nt args timed_out failed names_tool =
     (case nt_git nt args of
        GitTimeout \<Rightarrow> err timed_out
      | GitNotFound e \<Rightarrow>
          err (if names_tool then ''required tool '' @ quoted ''git'' @ '' was not found on PATH''
               else ''failed to run git: '' @ e)
      | GitUnrunnable e \<Rightarrow> err (''failed to run git: '' @ e)
      | GitExit success out problem \<Rightarrow>
          if success then Inr out else err (failed @ trim problem))"

definition git_checkout :: "net \<Rightarrow> string \<Rightarrow> unit res" where
  "git_checkout nt r =
     rbind (validate_git_ref r) (\<lambda>_.
     rbind (run_git nt [''checkout'', ''--quiet'', r] ''git checkout timed out for package source''
              ''git checkout failed for package source: '' False) (\<lambda>_. Inr ()))"

definition git_rev_parse_head :: "net \<Rightarrow> string res" where
  "git_rev_parse_head nt =
     rbind (run_git nt [''rev-parse'', ''HEAD''] ''git rev-parse timed out for package source''
              ''git rev-parse failed for package source: '' False) (\<lambda>out. Inr (trim out))"

definition stage_git_repo :: "net \<Rightarrow> source_uri \<Rightarrow> string \<Rightarrow> loaded_source res" where
  "stage_git_repo nt uri original =
     rbind (inner_scheme uri) (\<lambda>scheme.
       if scheme \<notin> {''file'', ''https'', ''ssh''} then
         err (''git package source scheme is not supported: git+'' @ scheme)
       else
         rbind (case uri_ref uri of Some r \<Rightarrow> validate_git_ref r | None \<Rightarrow> Inr ()) (\<lambda>_.
         let dir = nt_tempdir nt @ ''/clone'';
             args = clone_command scheme uri dir in
         rbind (run_git nt args (''git fetch timed out for package source: '' @ original)
                  ''git fetch failed for package source: '' True) (\<lambda>_.
         rbind (case uri_ref uri of
                  Some r \<Rightarrow> if pinned_commit uri then git_checkout nt r else Inr ()
                | None \<Rightarrow> Inr ()) (\<lambda>_.
         rbind (git_rev_parse_head nt) (\<lambda>commit.
         rbind (select_subdir nt dir (nt_checkout_tree nt args) (uri_subdir uri) original) (\<lambda>(p, t).
           Inr (loaded_single_layer original \<lparr>st_path = p, st_temporary = True, st_tree = Inr t\<rparr>
                  (Some (GitCommit commit)) (pinned_commit uri))))))))"

text \<open>\<open>lines\<close> and \<open>split_whitespace\<close> on what git prints: ASCII lines and blanks.\<close>

definition first_word :: "string \<Rightarrow> string option" where
  "first_word line =
     (let w = takeWhile (\<lambda>c. c \<notin> {CHR '' '', CHR 0x09, CHR 0x0D})
                (dropWhile (\<lambda>c. c \<in> {CHR '' '', CHR 0x09, CHR 0x0D}) line) in
      if w = [] then None else Some w)"

fun first_word_of :: "string list \<Rightarrow> string option" where
  "first_word_of [] = None"
| "first_word_of (l # ls) = (case first_word l of Some w \<Rightarrow> Some w | None \<Rightarrow> first_word_of ls)"

definition git_ls_remote :: "net \<Rightarrow> source_uri \<Rightarrow> string \<Rightarrow> string res" where
  "git_ls_remote nt uri original =
     rbind (inner_scheme uri) (\<lambda>scheme.
       case uri_ref uri of
         None \<Rightarrow> err ''git package source has no ref''
       | Some r \<Rightarrow>
           rbind (validate_git_ref r) (\<lambda>_.
           rbind (run_git nt [''ls-remote'', scheme @ ''://'' @ uri_base uri, ''--'', r]
                    (''git check timed out for package source: '' @ original)
                    ''git check failed for package source: '' True) (\<lambda>out.
             case first_word_of (split_on (CHR 0x0A) out) of
               Some commit \<Rightarrow> Inr commit
             | None \<Rightarrow> err (''git ref '' @ quoted r @ '' was not found in '' @ quoted original))))"

definition probe_git_repo ::
  "net \<Rightarrow> source_uri \<Rightarrow> string \<Rightarrow> source_fingerprint option \<Rightarrow> source_probe res" where
  "probe_git_repo nt uri original previous =
     (case uri_ref uri of
        None \<Rightarrow> Inr ProbeUnknown
      | Some r \<Rightarrow>
          if is_full_git_commit r then Inr (ProbeImmutablePinned (GitCommit r))
          else rbind (git_ls_remote nt uri original) (\<lambda>commit. Inr (probe_of previous (GitCommit commit))))"

definition probe_package_source ::
  "net \<Rightarrow> source_options \<Rightarrow> string \<Rightarrow> source_fingerprint option \<Rightarrow> string option
   \<Rightarrow> (source_probe \<times> string option) res" where
  "probe_package_source nt o1 source previous bound =
     rbind (parse_source_uri source) (\<lambda>parsed.
       case parsed of
         None \<Rightarrow> Inr (ProbeUnknown, bound)
       | Some uri \<Rightarrow>
           if uri_scheme uri = ''file'' then Inr (ProbeUnknown, bound)
           else if uri_scheme uri = ''https'' then probe_https_archive nt o1 uri previous bound
           else if uri_scheme uri = ''http'' then
             err ''http:// package sources are not supported; use https://''
           else if starts_with ''git+'' (uri_scheme uri) then
             rbind (probe_git_repo nt uri source previous) (\<lambda>p. Inr (p, bound))
           else err (''package source scheme is not supported: '' @ uri_scheme uri))"

section \<open>The store of pinned trees\<close>

record pin_entry =
  pe_name :: string
  pe_size :: nat
  pe_used :: nat

definition eviction_grace :: nat where
  "eviction_grace = 60 * 10 ^ 9"

text \<open>
  The loop over the entries from the least recently used: what is left of the total and the names
  removed. \<open>removable\<close> says whether removing the directory succeeds. A last use in the future
  protects an entry.
\<close>

fun evict ::
  "nat \<Rightarrow> nat \<Rightarrow> string \<Rightarrow> (string \<Rightarrow> bool) \<Rightarrow> pin_entry list \<Rightarrow> nat \<Rightarrow> string list \<Rightarrow> nat \<times> string list" where
  "evict max_bytes now keep removable [] left removed = (left, removed)"
| "evict max_bytes now keep removable (e # es) left removed =
     (if left \<le> max_bytes then (left, removed)
      else if pe_name e = keep \<or> now < pe_used e \<or> now - pe_used e < eviction_grace then
        evict max_bytes now keep removable es left removed
      else if removable (pe_name e) then
        evict max_bytes now keep removable es (left - pe_size e) (removed @ [pe_name e])
      else evict max_bytes now keep removable es left removed)"

definition evict_to_budget ::
  "nat \<Rightarrow> nat \<Rightarrow> string \<Rightarrow> (string \<Rightarrow> bool) \<Rightarrow> pin_entry list \<Rightarrow> nat \<times> string list" where
  "evict_to_budget max_bytes now keep removable es =
     (let whole = sum_list (map pe_size es) in
      if whole \<le> max_bytes then (whole, [])
      else evict max_bytes now keep removable (sort_by (\<lambda>a b. pe_used a \<le> pe_used b) es) whole [])"

section \<open>The limits hold\<close>

lemma checked_add_Some: "checked_add x y = Some z \<longleftrightarrow> unat x + unat y < 2 ^ LENGTH('a) \<and> z = x + y"
  for x y :: "'a::len word"
  by (auto simp: checked_add_def)

lemma checked_add_unat: "checked_add x y = Some z \<Longrightarrow> unat z = unat x + unat y"
  for x y :: "'a::len word"
  by (auto simp: checked_add_Some unat_word_ariths)

lemma write_response_bounded:
  "length written \<le> unat max_bytes \<Longrightarrow> unat sofar = length written \<Longrightarrow>
   \<forall>b. Inr b \<in> set chunks \<longrightarrow> length b < 2 ^ 64 \<Longrightarrow>
   length (fst (write_response_to_file max_bytes sofar chunks written)) \<le> unat max_bytes"
proof (induction max_bytes sofar chunks written rule: write_response_to_file.induct)
  case (2 max_bytes sofar chunk chunks written)
  show ?case
  proof (cases chunk)
    case (Inr b)
    show ?thesis
    proof (cases "checked_add sofar (of_nat (length b))")
      case (Some s')
      have "unat s' = length (written @ b)"
        using checked_add_unat [OF Some] 2(3,4) Inr by (simp add: unat_of_nat)
      with 2(1) [OF Inr Some] 2(2,4) Inr Some show ?thesis
        by (auto simp: word_less_nat_alt not_less)
    qed (use 2(2) Inr in simp)
  qed (use 2(2) in simp)
qed simp

definition entry_bytes :: "archive_entry \<Rightarrow> nat" where
  "entry_bytes e =
     (if ae_kind e = RegularFile then (case ae_size e of Inr s \<Rightarrow> unat s | Inl _ \<Rightarrow> 0) else 0)"

definition entry_fit :: "archive_entry \<Rightarrow> bool" where
  "entry_fit e =
     (ae_kind e \<in> {RegularFile, DirectoryEntry} \<and>
      (case ae_path e of Inr p \<Rightarrow> relative_path_is_safe p | Inl _ \<Rightarrow> False))"

lemma admit_entry_Inr:
  "admit_entry max_bytes e bytes = Inr bytes' \<Longrightarrow> unat bytes \<le> unat max_bytes \<Longrightarrow>
   entry_fit e \<and> unat bytes' = unat bytes + entry_bytes e \<and> unat bytes' \<le> unat max_bytes"
  by (auto simp: admit_entry_def admit_bytes_def entry_fit_def entry_bytes_def archive_path_is_safe_def
        word_less_nat_alt not_less
      elim!: rbind_InrE split: if_splits option.splits dest!: checked_add_unat)

lemma extract_archive_bounded:
  "length acc \<le> unat seen \<Longrightarrow> unat seen \<le> unat max_entries \<Longrightarrow>
   sum_list (map entry_bytes acc) = unat bytes \<Longrightarrow> unat bytes \<le> unat max_bytes \<Longrightarrow> list_all entry_fit acc \<Longrightarrow>
   let out = fst (extract_archive unpack max_bytes max_entries rs seen bytes acc) in
   length out \<le> unat max_entries \<and> sum_list (map entry_bytes out) \<le> unat max_bytes \<and> list_all entry_fit out"
proof (induction unpack max_bytes max_entries rs seen bytes acc rule: extract_archive.induct)
  case (2 unpack max_bytes max_entries r rs seen bytes acc)
  show ?case
  proof (cases "\<exists>e s'. r = Inr e \<and> checked_add seen 1 = Some s' \<and> s' \<le> max_entries")
    case True
    then obtain e s' where r: "r = Inr e" and s': "checked_add seen 1 = Some s'" "\<not> max_entries < s'" by auto
    then have seen: "unat s' = Suc (unat seen)" "unat s' \<le> unat max_entries"
      using checked_add_unat [OF s'(1)] by (auto simp: word_less_nat_alt)
    show ?thesis
    proof (cases "archive_skipped_entry (ae_kind e)")
      case True
      with 2(1) [OF r s' True] 2(3-) seen r s' show ?thesis by simp
    next
      case False
      note step = this
      show ?thesis
      proof (cases "\<exists>b u. admit_entry max_bytes e bytes = Inr b \<and> unpack e = Inr u")
        case True
        then obtain b u where adm: "admit_entry max_bytes e bytes = Inr b" "unpack e = Inr u" by auto
        with 2(2) [OF r s' step adm] 2(3-) seen r s' step admit_entry_Inr [OF adm(1)] show ?thesis by simp
      next
        case False
        with 2(3-) r s' step show ?thesis by (auto simp: Let_def split: sum.splits)
      qed
    qed
  next
    case False
    with 2(3-) show ?thesis by (auto simp: Let_def not_le split: sum.splits option.splits)
  qed
qed (simp add: Let_def)


section \<open>Pinned repositories\<close>

lemma stage_git_repo_Inr:
  assumes "stage_git_repo nt uri original = Inr l"
  shows "lo_immutable l = pinned_commit uri \<and> map sl_immutable (lo_layers l) = [pinned_commit uri] \<and>
    map sl_source (lo_layers l) = [original] \<and> (\<forall>r. uri_ref uri = Some r \<longrightarrow> \<not> starts_with ''-'' r)"
proof -
  note validate_git_ref_def [simp]
  have "\<not> starts_with ''-'' r" if "uri_ref uri = Some r" for r
    using assms that by (auto simp: stage_git_repo_def elim!: rbind_InrE split: if_splits)
  then show ?thesis
    using assms
    by (auto simp: stage_git_repo_def loaded_single_layer_def Let_def elim!: rbind_InrE split: if_splits prod.splits)
qed

text \<open>A repository that was staged counts as immutable exactly when the probe of the
  same source says it is pinned, whatever the probe sees of the world; and a probe of one that is not asks the
  remote.\<close>

theorem pinned_means_immutable:
  assumes "stage_git_repo nt uri original = Inr l"
  shows "lo_immutable l \<longleftrightarrow> (\<exists>f. probe_git_repo nt' uri original previous = Inr (ProbeImmutablePinned f))"
  using stage_git_repo_Inr [OF assms]
  by (auto simp: probe_git_repo_def pinned_commit_def probe_of_def elim!: rbind_InrE split: option.splits if_splits)

definition example_net :: net where
  "example_net = \<lparr>
     nt_send = (\<lambda>_ _ _. err ''offline''), nt_sha256 = (\<lambda>_. []), nt_tar = (\<lambda>_. []), nt_unpack = (\<lambda>_. Inr ()),
     nt_tree = (\<lambda>_. []),
     nt_git = (\<lambda>args. if args = [''rev-parse'', ''HEAD''] then GitExit True ''bbb'' []
       else if hd args = ''ls-remote''
       then GitExit True (''aaa'' @ [CHR 0x09] @ ''refs/heads/feature/main'' @ [CHR 0x0A] @
              ''bbb'' @ [CHR 0x09] @ ''refs/heads/main'' @ [CHR 0x0A]) []
       else GitExit True [] []),
     nt_checkout_tree = (\<lambda>_. []), nt_canonical = Inr, nt_tempdir = ''/t''\<rparr>"

definition example_uri :: "string \<Rightarrow> source_uri" where
  "example_uri r = \<lparr>uri_scheme = ''git+https'', uri_base = ''h/r'', uri_ref = Some r, uri_subdir = None\<rparr>"

theorem pinned_means_immutable_witness:
  "\<exists>l. stage_git_repo example_net (example_uri (replicate 40 (CHR ''a''))) ''s'' = Inr l \<and> lo_immutable l"
proof -
  let ?uri = "example_uri (replicate 40 (CHR ''a''))"
  have "is_ok (stage_git_repo example_net ?uri ''s'')" by code_simp
  then obtain l where l: "stage_git_repo example_net ?uri ''s'' = Inr l" by (auto simp: is_ok_ex)
  have "probe_git_repo example_net ?uri ''s'' None =
      Inr (ProbeImmutablePinned (GitCommit (replicate 40 (CHR ''a''))))" by code_simp
  with pinned_means_immutable [OF l, of example_net None] l show ?thesis by auto
qed

text \<open>
  \<open>git ls-remote\<close> lists every ref whose last parts are the asked one, and the probe takes the first line: the
  branch \<open>feature/main\<close> hides \<open>main\<close>, so an unchanged repository looks changed at every probe.
\<close>

theorem probe_takes_first_ref:
  "map_sum id lo_fingerprint (stage_git_repo example_net (example_uri ''main'') ''s'') =
     Inr (Some (GitCommit ''bbb''))"
  "probe_git_repo example_net (example_uri ''main'') ''s'' (Some (GitCommit ''bbb'')) =
     Inr (ProbeChanged (Some (GitCommit ''aaa'')))"
  by code_simp+

section \<open>Eviction\<close>

definition evictable :: "nat \<Rightarrow> string \<Rightarrow> pin_entry \<Rightarrow> bool" where
  "evictable now keep e = (pe_name e \<noteq> keep \<and> pe_used e + eviction_grace \<le> now)"

lemma evict_Cons:
  "evict max_bytes now keep removable (e # es) left removed =
     (if left \<le> max_bytes then (left, removed)
      else if evictable now keep e \<and> removable (pe_name e)
      then evict max_bytes now keep removable es (left - pe_size e) (removed @ [pe_name e])
      else evict max_bytes now keep removable es left removed)"
  by (auto simp: evictable_def)

lemma evict_result:
  "\<exists>k. snd (evict max_bytes now keep removable es left removed) =
         removed @ map pe_name (filter (\<lambda>e. evictable now keep e \<and> removable (pe_name e)) (take k es)) \<and>
       (k = length es \<or> fst (evict max_bytes now keep removable es left removed) \<le> max_bytes)"
proof (induction es arbitrary: left removed)
  case (Cons e es)
  let ?ok = "\<lambda>e. evictable now keep e \<and> removable (pe_name e)"
  let ?l = "if ?ok e then left - pe_size e else left" and ?r = "removed @ map pe_name (filter ?ok [e])"
  show ?case
  proof (cases "left \<le> max_bytes")
    case True
    then show ?thesis by (intro exI [of _ 0]) simp
  next
    case False
    then have step: "evict max_bytes now keep removable (e # es) left removed =
        evict max_bytes now keep removable es ?l ?r"
      by (simp add: evict_Cons del: evict.simps)
    obtain k where "snd (evict max_bytes now keep removable es ?l ?r) =
         ?r @ map pe_name (filter ?ok (take k es)) \<and>
       (k = length es \<or> fst (evict max_bytes now keep removable es ?l ?r) \<le> max_bytes)"
      using Cons.IH by blast
    then show ?thesis unfolding step by (intro exI [of _ "Suc k"]) simp
  qed
qed simp

interpretation pin_order: comparator "\<lambda>_. True" "\<lambda>a b. pe_used a \<le> (pe_used b :: nat)"
  by unfold_locales auto

text \<open>Eviction removes a tree only when it is not the one just staged and was
  last used at least the grace period ago, an evictable tree it keeps was used no earlier than one it
  removes, and when the budget is still exceeded nothing evictable is left.\<close>

theorem pins_evicted_oldest_first:
  assumes "evict_to_budget max_bytes now keep removable es = (left, removed)"
    and "distinct (map pe_name es)" "e \<in> set es"
  shows "(pe_name e \<in> set removed \<longrightarrow> evictable now keep e \<and>
      (\<forall>e' \<in> set es. evictable now keep e' \<and> removable (pe_name e') \<and> pe_name e' \<notin> set removed
         \<longrightarrow> pe_used e \<le> pe_used e')) \<and>
    (max_bytes < left \<and> evictable now keep e \<and> removable (pe_name e) \<longrightarrow> pe_name e \<in> set removed)"
proof (cases "sum_list (map pe_size es) \<le> max_bytes")
  case True
  with assms(1) show ?thesis by (auto simp: evict_to_budget_def)
next
  case False
  let ?s = "sort_by (\<lambda>a b. pe_used a \<le> pe_used b) es"
  let ?ok = "\<lambda>e. evictable now keep e \<and> removable (pe_name e)"
  from False assms(1) obtain k where k: "removed = map pe_name (filter ?ok (take k ?s))"
    "k = length ?s \<or> left \<le> max_bytes"
    using evict_result [of max_bytes now keep removable ?s "sum_list (map pe_size es)" "[]"]
    by (auto simp: evict_to_budget_def)
  have same: "e1 = e2" if "e1 \<in> set es" "e2 \<in> set es" "pe_name e1 = pe_name e2" for e1 e2
    using that assms(2) by (metis distinct_map inj_onD)
  have removed: "pe_name x \<in> set removed \<longleftrightarrow> x \<in> set (take k ?s) \<and> ?ok x" if "x \<in> set es" for x
  proof -
    have "y = x" if "y \<in> set (take k ?s)" "pe_name y = pe_name x" for y
      using same [OF _ \<open>x \<in> set es\<close>] that in_set_takeD [of y k ?s] by simp
    then show ?thesis unfolding k(1) by auto
  qed
  have sorted: "sorted_wrt (\<lambda>a b. pe_used a \<le> pe_used b) (take k ?s @ drop k ?s)"
    using pin_order.sort_by_sorted [of es] by simp
  have older: "pe_used e \<le> pe_used e'" if "e \<in> set (take k ?s)" "e' \<in> set es" "e' \<notin> set (take k ?s)" for e'
  proof -
    have "set (take k ?s) \<union> set (drop k ?s) = set es"
      unfolding set_append [symmetric] by simp
    with that(2,3) have "e' \<in> set (drop k ?s)" by blast
    with that(1) sorted show ?thesis unfolding sorted_wrt_append by blast
  qed
  have "e \<in> set (take k ?s)" if "max_bytes < left"
    using that k(2) assms(3) by simp
  with older show ?thesis unfolding removed [OF assms(3)] using removed by blast
qed

theorem pins_evicted_oldest_first_witness:
  "evict_to_budget 10 (10 ^ 12) ''c'' (\<lambda>_. True)
      [\<lparr>pe_name = ''a'', pe_size = 6, pe_used = 5\<rparr>, \<lparr>pe_name = ''b'', pe_size = 6, pe_used = 3\<rparr>] = (6, [''b'']) \<and>
   evictable (10 ^ 12) ''c'' \<lparr>pe_name = ''b'', pe_size = 6, pe_used = 3\<rparr>"
proof -
  have "evict_to_budget 10 (10 ^ 12) ''c'' (\<lambda>_. True)
      [\<lparr>pe_name = ''a'', pe_size = 6, pe_used = 5\<rparr>, \<lparr>pe_name = ''b'', pe_size = 6, pe_used = 3\<rparr>] = (6, [''b''])"
    by (simp add: evict_to_budget_def eviction_grace_def)
  from this pins_evicted_oldest_first [OF this, of "\<lparr>pe_name = ''b'', pe_size = 6, pe_used = 3\<rparr>"]
  show ?thesis by simp
qed

end
