(* ===== verification/LayerLint.thy ===== *)
theory LayerLint
  imports Select
begin

text \<open>
  The lint of layers (src/src/lint/builtins/layers.rs): shapes, expression roots and
  the check that no two arms of a layer claim the same bucket. A diagnostic is its
  rule and its message; the source locations are left out. The nodes carry
  what lint reads beyond the nodes the compiler reads; \<open>layer_node_of\<close> forgets it.
\<close>

section \<open>Nodes and diagnostics\<close>

record lint_arm =
  xa_index :: nat
  xa_name :: "string project_field"
  xa_buckets :: "string project_field"
  xa_invalid_shape :: bool

record lint_allocation =
  xl_index :: nat
  xl_id :: "string project_field"
  xl_status :: "string project_field option"
  xl_eligibility :: "expression project_field option"
  xl_arms_invalid :: bool
  xl_arms :: "lint_arm list"
  xl_invalid_shape :: bool

record lint_layer =
  xy_id :: string
  xy_schema_version :: "int project_field"
  xy_unit :: "expression project_field"
  xy_buckets :: "int project_field"
  xy_allocations_invalid :: bool
  xy_allocations :: "lint_allocation list"

definition arm_node_of :: "lint_arm \<Rightarrow> arm_node" where
  "arm_node_of a = \<lparr>am_name = xa_name a, am_buckets = xa_buckets a\<rparr>"

definition allocation_node_of :: "lint_allocation \<Rightarrow> allocation_node" where
  "allocation_node_of al =
     \<lparr>al_id = xl_id al, al_status = xl_status al, al_eligibility = xl_eligibility al,
      al_arms = map arm_node_of (xl_arms al)\<rparr>"

definition layer_node_of :: "lint_layer \<Rightarrow> layer_node" where
  "layer_node_of ly =
     \<lparr>ly_id = xy_id ly, ly_unit = xy_unit ly, ly_buckets = xy_buckets ly,
      ly_allocations = map allocation_node_of (xy_allocations ly)\<rparr>"

datatype layer_rule = LayerSchemaVersion | LayerShape | LayerBucketOverlap

type_synonym layer_diagnostic = "layer_rule \<times> string"

definition shape_diagnostic :: "string \<Rightarrow> layer_diagnostic" where
  "shape_diagnostic m = (LayerShape, m)"

section \<open>Expressions\<close>

definition lint_layer_expression :: "'l smap \<Rightarrow> string \<Rightarrow> expression \<Rightarrow> layer_diagnostic list" where
  "lint_layer_expression known_lists what e =
     (let r = refs e in
      map (\<lambda>i. shape_diagnostic (describe_issue i)) (invalid_roots r)
      @ map (\<lambda>l. shape_diagnostic (''expression references unknown list: '' @ l))
          (filter (\<lambda>l. map_of known_lists l = None) (ref_lists r))
      @ (if entry_paths r \<noteq> []
         then [shape_diagnostic (''layer '' @ what @ '' cannot read entry; there is no catalog entry in play'')]
         else [])
      @ (if uses_resolving r
         then [shape_diagnostic ''env.resolving is only available in [[trace]] policies''] else []))"

definition lint_unit :: "'l smap \<Rightarrow> expression project_field \<Rightarrow> layer_diagnostic list" where
  "lint_unit known_lists u =
     (case u of
        Present e \<Rightarrow>
          lint_layer_expression known_lists ''unit'' e
          @ (if ref_variables (refs e) \<noteq> []
             then [shape_diagnostic (''layer unit must read context only; variables are not available ''
                     @ ''in the diversion'')] else [])
      | _ \<Rightarrow> [shape_diagnostic ''layer must declare unit as a CEL expression string''])"

definition lint_eligibility :: "'l smap \<Rightarrow> expression project_field option \<Rightarrow> layer_diagnostic list" where
  "lint_eligibility known_lists e =
     (case e of
        None \<Rightarrow> []
      | Some (Present x) \<Rightarrow> lint_layer_expression known_lists ''eligibility'' x
      | Some _ \<Rightarrow> [shape_diagnostic ''allocation eligibility must be a CEL expression string''])"

section \<open>Arms\<close>

text \<open>
  What a layer's arms claim: first and last bucket and the label \<open>allocation/arm\<close>. The
  number of buckets is cut to 32 bits; the subtraction in the message wraps when that gives 0.
\<close>

type_synonym claim = "nat \<times> nat \<times> string"

definition lint_arm_name :: "string list \<Rightarrow> lint_arm \<Rightarrow> layer_diagnostic list \<times> string list \<times> string" where
  "lint_arm_name names a =
     (case xa_name a of
        Present n \<Rightarrow>
          (if n \<in> set names
           then [shape_diagnostic (''arm name is duplicated in the allocation: '' @ n)] else [],
           names @ [n], n)
      | _ \<Rightarrow> ([shape_diagnostic ''arm must declare name''], names, ''arm['' @ show_nat (xa_index a) @ '']''))"

definition lint_arm_buckets ::
  "32 word option \<Rightarrow> string \<Rightarrow> string \<Rightarrow> lint_arm \<Rightarrow> layer_diagnostic list \<times> claim list" where
  "lint_arm_buckets bucket_count allocation_label arm_label a =
     (case xa_buckets a of
        Present text \<Rightarrow>
          (case parse_arm_buckets text of
             Some (start, stop) \<Rightarrow>
               (case bucket_count of
                  Some n \<Rightarrow>
                    if unat n \<le> stop
                    then [shape_diagnostic (''arm buckets '' @ show_nat start @ ''-'' @ show_nat stop
                            @ '' fall outside the layer's '' @ show_nat (unat n) @ '' buckets (0-''
                            @ show_nat (unat (n - 1)) @ '')'')]
                    else []
                | None \<Rightarrow> [],
                [(start, stop, allocation_label @ ''/'' @ arm_label)])
           | None \<Rightarrow>
               ([shape_diagnostic (''arm buckets must be '' @ quote @ ''<start>-<end>'' @ quote @ '' or '' @ quote
                   @ ''<bucket>'' @ quote @ '': '' @ text)], []))
      | _ \<Rightarrow> ([shape_diagnostic ''arm must declare buckets''], []))"

fun lint_arms ::
  "32 word option \<Rightarrow> string \<Rightarrow> string list \<Rightarrow> lint_arm list \<Rightarrow> layer_diagnostic list \<times> claim list" where
  "lint_arms bucket_count allocation_label names [] = ([], [])"
| "lint_arms bucket_count allocation_label names (a # rest) =
     (if xa_invalid_shape a then
        (let (ds, cs) = lint_arms bucket_count allocation_label names rest in
         (shape_diagnostic ''arm must be a table'' # ds, cs))
      else
        (let (d1, names', arm_label) = lint_arm_name names a;
             (d2, c) = lint_arm_buckets bucket_count allocation_label arm_label a;
             (ds, cs) = lint_arms bucket_count allocation_label names' rest in
         (d1 @ d2 @ ds, c @ cs)))"

section \<open>Allocations\<close>

text \<open>Allocation ids are unique in the package: \<open>owners\<close> maps each to the layer seen last with it.\<close>

definition lint_allocation_id ::
  "string \<Rightarrow> lint_allocation \<Rightarrow> string smap \<Rightarrow> layer_diagnostic list \<times> string smap \<times> string" where
  "lint_allocation_id layer al owners =
     (case xl_id al of
        Present i \<Rightarrow>
          (case map_of owners i of
             Some owner \<Rightarrow>
               [shape_diagnostic (''allocation id is already declared in layer '' @ owner @ '': '' @ i)]
           | None \<Rightarrow> [],
           bm_insert i layer owners, i)
      | _ \<Rightarrow> ([shape_diagnostic ''allocation must declare id''], owners,
              ''allocation['' @ show_nat (xl_index al) @ '']''))"

definition lint_status :: "string project_field option \<Rightarrow> layer_diagnostic list" where
  "lint_status status =
     (case status of
        None \<Rightarrow> []
      | Some (Present s) \<Rightarrow>
          if s \<in> {''draft'', ''running'', ''concluded''} then []
          else [shape_diagnostic ''allocation status must be draft, running, or concluded'']
      | Some _ \<Rightarrow> [shape_diagnostic ''allocation status must be draft, running, or concluded''])"

fun lint_allocations ::
  "'l smap \<Rightarrow> string \<Rightarrow> 32 word option \<Rightarrow> lint_allocation list \<Rightarrow> string smap
   \<Rightarrow> layer_diagnostic list \<times> claim list \<times> string smap" where
  "lint_allocations known_lists layer bucket_count [] owners = ([], [], owners)"
| "lint_allocations known_lists layer bucket_count (al # rest) owners =
     (if xl_invalid_shape al then
        (let (ds, cs, owners') = lint_allocations known_lists layer bucket_count rest owners in
         (shape_diagnostic ''allocation must be a table'' # ds, cs, owners'))
      else
        (let (d1, owners1, allocation_label) = lint_allocation_id layer al owners;
             d2 = lint_status (xl_status al) @ lint_eligibility known_lists (xl_eligibility al)
               @ (if xl_arms_invalid al
                  then [shape_diagnostic ''arm must use [[allocation.arm]] tables''] else [])
               @ (if xl_arms al = [] \<and> \<not> xl_arms_invalid al
                  then [shape_diagnostic ''allocation must declare at least one [[allocation.arm]]''] else []);
             (d3, c) = lint_arms bucket_count allocation_label [] (xl_arms al);
             (ds, cs, owners') = lint_allocations known_lists layer bucket_count rest owners1 in
         (d1 @ d2 @ d3 @ ds, c @ cs, owners')))"

section \<open>Overlaps\<close>

definition claim_le :: "claim \<Rightarrow> claim \<Rightarrow> bool" where
  "claim_le a b =
     (fst a < fst b \<or> fst a = fst b \<and>
       (fst (snd a) < fst (snd b) \<or> fst (snd a) = fst (snd b) \<and> snd (snd a) \<le> snd (snd b)))"

fun overlaps :: "claim list \<Rightarrow> layer_diagnostic list" where
  "overlaps ((s1, e1, l1) # (s2, e2, l2) # rest) =
     (if s2 \<le> e1
      then [(LayerBucketOverlap, ''arms claim overlapping buckets: '' @ l1 @ '' and '' @ l2
               @ '' both claim bucket '' @ show_nat s2)]
      else [])
     @ overlaps ((s2, e2, l2) # rest)"
| "overlaps _ = []"

definition lint_bucket_count :: "int project_field \<Rightarrow> layer_diagnostic list \<times> 32 word option" where
  "lint_bucket_count field =
     (case field of
        Present n \<Rightarrow>
          if 1 \<le> n then ([], Some (of_int n))
          else ([shape_diagnostic ''layer must declare buckets as a positive integer''], None)
      | _ \<Rightarrow> ([shape_diagnostic ''layer must declare buckets as a positive integer''], None))"

definition lint_one_layer ::
  "'l smap \<Rightarrow> lint_layer \<Rightarrow> string smap \<Rightarrow> layer_diagnostic list \<times> string smap" where
  "lint_one_layer known_lists ly owners =
     (let (d1, bucket_count) = lint_bucket_count (xy_buckets ly);
          (d2, claims, owners') = lint_allocations known_lists (xy_id ly) bucket_count (xy_allocations ly) owners in
      ((if integer_field_is (xy_schema_version ly) 1 then []
        else [(LayerSchemaVersion, ''layer must declare schema_version = 1'')])
       @ lint_unit known_lists (xy_unit ly) @ d1
       @ (if xy_allocations_invalid ly
          then [shape_diagnostic ''allocation must use [[allocation]] tables''] else [])
       @ d2 @ overlaps (sort_by claim_le claims), owners'))"

fun lint_layer_shapes :: "'l smap \<Rightarrow> lint_layer list \<Rightarrow> string smap \<Rightarrow> layer_diagnostic list" where
  "lint_layer_shapes known_lists [] owners = []"
| "lint_layer_shapes known_lists (ly # rest) owners =
     (let (ds, owners') = lint_one_layer known_lists ly owners in ds @ lint_layer_shapes known_lists rest owners')"

section \<open>The overlap check is exact\<close>

definition claims_bucket :: "nat \<Rightarrow> claim \<Rightarrow> bool" where
  "claims_bucket b c = (fst c \<le> b \<and> b \<le> fst (snd c))"

definition proper_claim :: "claim \<Rightarrow> bool" where
  "proper_claim c = (fst c \<le> fst (snd c))"

interpretation claim_order: comparator "\<lambda>_. True" claim_le
  by unfold_locales (auto simp: claim_le_def)

lemma overlaps_Nil:
  assumes "\<forall>c \<in> set cs. proper_claim c" "overlaps cs = []"
  shows "sorted_wrt (\<lambda>a b. fst (snd a) < fst b) cs"
  using assms by (induction cs rule: overlaps.induct) (auto simp: proper_claim_def split: if_splits)

lemma disjoint_claims:
  assumes "\<forall>c \<in> set cs. proper_claim c" "sorted_wrt (\<lambda>a b. fst (snd a) < fst b) cs"
  shows "length (filter (claims_bucket b) cs) \<le> 1"
  using assms
proof (induction cs)
  case (Cons c cs)
  have "filter (claims_bucket b) cs = []" if "claims_bucket b c"
    using that Cons.prems by (auto simp: claims_bucket_def filter_empty_conv)
  with Cons show ?case by auto
qed simp

lemma overlaps_shared:
  assumes "sorted_wrt claim_le cs" "\<forall>c \<in> set cs. proper_claim c" "overlaps cs \<noteq> []"
  shows "\<exists>b. 2 \<le> length (filter (claims_bucket b) cs)"
  using assms
proof (induction cs rule: overlaps.induct)
  case (1 s1 e1 l1 s2 e2 l2 rest)
  show ?case
  proof (cases "s2 \<le> e1")
    case True
    with 1(2,3) have "claims_bucket s2 (s1, e1, l1)" "claims_bucket s2 (s2, e2, l2)"
      by (auto simp: claims_bucket_def proper_claim_def claim_le_def)
    then show ?thesis by (intro exI [of _ s2]) simp
  next
    case False
    with 1 obtain b where "2 \<le> length (filter (claims_bucket b) ((s2, e2, l2) # rest))" by auto
    then show ?thesis by (intro exI [of _ b]) simp
  qed
qed simp_all

lemma length_filter_sort_by: "length (filter p (sort_by le xs)) = length (filter p xs)"
  by (metis mset_filter mset_sort_by size_mset)

lemma overlaps_exact:
  assumes "\<forall>c \<in> set cs. proper_claim c"
  shows "overlaps (sort_by claim_le cs) = [] \<longleftrightarrow> (\<forall>b. length (filter (claims_bucket b) cs) \<le> 1)"
proof -
  let ?s = "sort_by claim_le cs"
  have proper: "\<forall>c \<in> set ?s. proper_claim c" and sorted: "sorted_wrt claim_le ?s"
    using assms claim_order.sort_by_sorted [of cs] by simp_all
  have "overlaps ?s = [] \<longleftrightarrow> (\<forall>b. length (filter (claims_bucket b) ?s) \<le> 1)"
    using disjoint_claims [OF proper overlaps_Nil [OF proper]] overlaps_shared [OF sorted proper]
    by (metis One_nat_def Suc_1 not_less_eq_eq)
  then show ?thesis by (simp only: length_filter_sort_by)
qed

section \<open>What a layer without diagnostics claims\<close>

definition claimed_by :: "32 word option \<Rightarrow> lint_arm \<Rightarrow> claim \<Rightarrow> bool" where
  "claimed_by bucket_count a c =
     ((\<exists>t. xa_buckets a = Present t \<and> parse_arm_buckets t = Some (fst c, fst (snd c))) \<and>
      (\<forall>n. bucket_count = Some n \<longrightarrow> fst (snd c) < unat n))"

lemma lint_arms_clean:
  "lint_arms bucket_count al names arms = ([], cs) \<Longrightarrow> list_all2 (claimed_by bucket_count) arms cs"
proof (induction arms arbitrary: names cs)
  case (Cons a arms)
  then show ?case
    by (auto simp: lint_arm_buckets_def claimed_by_def Let_def list_all2_Cons1
        split: if_splits prod.splits project_field.splits option.splits)
qed simp

lemma lint_allocations_clean:
  "lint_allocations known_lists layer bucket_count als owners = ([], cs, owners') \<Longrightarrow>
   list_all2 (claimed_by bucket_count) (concat (map xl_arms als)) cs"
proof (induction als arbitrary: owners cs)
  case (Cons al als)
  then show ?case
    by (auto simp: Let_def split: if_splits prod.splits dest!: lint_arms_clean intro!: list_all2_appendI)
qed simp

lemma lint_layer_shapes_clean:
  "lint_layer_shapes known_lists layers owners = [] \<Longrightarrow> ly \<in> set layers \<Longrightarrow>
   \<exists>owners'. fst (lint_one_layer known_lists ly owners') = []"
  by (induction layers arbitrary: owners) (auto simp: Let_def split: prod.splits, metis fst_conv)

lemma arm_node_of_simps [simp]: "am_name (arm_node_of a) = xa_name a" "am_buckets (arm_node_of a) = xa_buckets a"
  by (simp_all add: arm_node_of_def)

lemma compile_arms_claims:
  "compile_arms (map arm_node_of nodes) m = Inr (arms, left) \<Longrightarrow> list_all2 (claimed_by n) nodes cs \<Longrightarrow>
   map (\<lambda>a. (arm_start a, arm_end a)) arms = map (\<lambda>c. (fst c, fst (snd c))) cs"
proof (induction nodes arbitrary: m arms cs)
  case (Cons a nodes)
  from Cons.prems(2) obtain c cs' where c: "cs = c # cs'" "list_all2 (claimed_by n) nodes cs'"
    "claimed_by n a c" unfolding list_all2_Cons1 by blast
  from c(3) obtain t where "xa_buckets a = Present t" "parse_arm_buckets t = Some (fst c, fst (snd c))"
    by (auto simp: claimed_by_def)
  with Cons.prems(1) obtain name sv arms' where "compile_arms (map arm_node_of nodes) (bm_remove name m) =
      Inr (arms', left)"
    "arms = \<lparr>arm_name = name, arm_start = fst c, arm_end = fst (snd c), arm_value = sv\<rparr> # arms'"
    by (auto simp: rbind_eq_Inr split: project_field.splits option.splits)
  with Cons.IH c show ?case by simp
qed simp

lemma compile_allocation_claims:
  assumes "compile_allocation_body ix vn kind dfl assigns i (layer_node_of ly) (allocation_node_of al) =
      Inr (AllocationResolution a)"
    and "list_all2 (claimed_by n) (xl_arms al) cs"
  shows "map (\<lambda>a. (arm_start a, arm_end a)) (alloc_arms a) = map (\<lambda>c. (fst c, fst (snd c))) cs"
proof -
  obtain m arms where "compile_arms (al_arms (allocation_node_of al)) m = Inr (arms, [])" "alloc_arms a = arms"
    using assms(1) by (rule compile_allocation_parts) simp
  with compile_arms_claims [OF _ assms(2)] show ?thesis by (simp add: allocation_node_of_def)
qed

lemma compile_allocation_count:
  assumes "compile_allocation_body ix vn kind dfl assigns i (layer_node_of ly) (allocation_node_of al) =
      Inr (AllocationResolution a)"
  shows "layer_buckets (layer_node_of ly) = Inr (alloc_buckets a)"
  using assms by (rule compile_allocation_parts) simp

lemma filter_by_range:
  "map (\<lambda>a. (arm_start a, arm_end a)) arms = map (\<lambda>c. (fst c, fst (snd c))) cs \<Longrightarrow>
   length (filter (arm_holds b) arms) = length (filter (claims_bucket (unat b)) cs)"
proof (induction arms arbitrary: cs)
  case (Cons a arms)
  then show ?case by (cases cs) (auto simp: arm_holds_def claims_bucket_def)
qed simp

text \<open>One allocation of a layer, compiled for some variable.\<close>

definition compiled_from :: "lint_layer \<Rightarrow> lint_allocation \<Rightarrow> runtime_allocation \<Rightarrow> bool" where
  "compiled_from ly al a =
     (\<exists>ix vn kind dfl assigns i.
        compile_allocation_body ix vn kind dfl assigns i (layer_node_of ly) (allocation_node_of al) =
        Inr (AllocationResolution a))"

lemma compiled_layer_claims:
  "list_all2 (compiled_from ly) als rts \<Longrightarrow> list_all2 (claimed_by n) (concat (map xl_arms als)) cs \<Longrightarrow>
   map (\<lambda>a. (arm_start a, arm_end a)) (concat (map alloc_arms rts)) = map (\<lambda>c. (fst c, fst (snd c))) cs"
proof (induction als rts arbitrary: cs rule: list_all2_induct)
  case (Cons al als a rts)
  then obtain c1 c2 where "cs = c1 @ c2" "list_all2 (claimed_by n) (xl_arms al) c1"
    "list_all2 (claimed_by n) (concat (map xl_arms als)) c2"
    by (auto simp: list_all2_append1)
  with Cons show ?case
    using compile_allocation_claims [of _ _ _ _ _ _ ly al a n c1] by (auto simp: compiled_from_def)
qed simp

lemma accepted_layer_claims:
  assumes "lint_layer_shapes known_lists layers [] = []" "ly \<in> set layers"
  obtains bucket_count cs where "lint_bucket_count (xy_buckets ly) = ([], bucket_count)"
    "list_all2 (claimed_by bucket_count) (concat (map xl_arms (xy_allocations ly))) cs"
    "\<And>b. length (filter (claims_bucket b) cs) \<le> 1"
proof -
  obtain owners where "fst (lint_one_layer known_lists ly owners) = []"
    using lint_layer_shapes_clean [OF assms] by blast
  then obtain bucket_count cs owners' where counted: "lint_bucket_count (xy_buckets ly) = ([], bucket_count)"
    and clean: "lint_allocations known_lists (xy_id ly) bucket_count (xy_allocations ly) owners = ([], cs, owners')"
    and no_overlap: "overlaps (sort_by claim_le cs) = []"
    by (auto simp: lint_one_layer_def Let_def split: prod.splits)
  note claimed = lint_allocations_clean [OF clean]
  then have "\<forall>c \<in> set cs. proper_claim c"
    by (fastforce simp: claimed_by_def proper_claim_def list_all2_conv_all_nth in_set_conv_nth
        dest: parse_arm_buckets_range)
  then have "length (filter (claims_bucket b) cs) \<le> 1" for b using no_overlap overlaps_exact by blast
  with counted claimed show ?thesis using that by blast
qed

text \<open>C29 accepted_layer_excludes: when lint has no diagnostic on a package's layers, a bucket of a layer is
  held by at most one arm over all its allocations, so a unit is in one experiment of the layer at most; and every
  arm lies within the buckets of the compiled layer.\<close>

theorem accepted_layer_excludes:
  assumes "lint_layer_shapes known_lists layers [] = []" "ly \<in> set layers"
    and "list_all2 (compiled_from ly) (xy_allocations ly) rts"
  shows "length (filter (arm_holds b) (concat (map alloc_arms rts))) \<le> 1 \<and>
    (\<forall>a \<in> set rts. \<forall>arm \<in> set (alloc_arms a). arm_end arm < unat (alloc_buckets a))"
proof -
  obtain bucket_count cs where counted: "lint_bucket_count (xy_buckets ly) = ([], bucket_count)"
    and claimed: "list_all2 (claimed_by bucket_count) (concat (map xl_arms (xy_allocations ly))) cs"
    and disjoint: "\<And>b. length (filter (claims_bucket b) cs) \<le> 1"
    using accepted_layer_claims [OF assms(1,2)] by blast
  have "length (filter (claims_bucket (unat b)) cs) \<le> 1" by (rule disjoint)
  moreover note ranges = compiled_layer_claims [OF assms(3) claimed]
  ultimately have one: "length (filter (arm_holds b) (concat (map alloc_arms rts))) \<le> 1"
    by (simp only: filter_by_range)
  have "arm_end arm < unat (alloc_buckets a)" if a: "a \<in> set rts" and arm: "arm \<in> set (alloc_arms a)" for a arm
  proof -
    from a assms(3) obtain al where "compiled_from ly al a"
      by (auto simp: list_all2_conv_all_nth in_set_conv_nth)
    then have "layer_buckets (layer_node_of ly) = Inr (alloc_buckets a)"
      by (auto simp: compiled_from_def dest: compile_allocation_count)
    then have count: "bucket_count = Some (alloc_buckets a)"
      using counted by (auto simp: lint_bucket_count_def layer_buckets_def layer_node_of_def
          split: project_field.splits if_splits)
    have "(arm_start arm, arm_end arm) \<in> set (map (\<lambda>c. (fst c, fst (snd c))) cs)"
      unfolding ranges [symmetric] using a arm by auto
    then obtain c where "c \<in> set cs" "fst (snd c) = arm_end arm" by auto
    then show ?thesis
      using claimed count by (auto simp: list_all2_conv_all_nth in_set_conv_nth claimed_by_def)
  qed
  with one show ?thesis by blast
qed

definition example_lint_arm :: "nat \<Rightarrow> string \<Rightarrow> string \<Rightarrow> lint_arm" where
  "example_lint_arm n name text =
     \<lparr>xa_index = n, xa_name = Present name, xa_buckets = Present text, xa_invalid_shape = False\<rparr>"

definition example_lint_layer :: lint_layer where
  "example_lint_layer =
     \<lparr>xy_id = ''traffic'', xy_schema_version = Present 1, xy_unit = Present (context_field ''user''),
      xy_buckets = Present 10, xy_allocations_invalid = False,
      xy_allocations = [\<lparr>xl_index = 0, xl_id = Present ''color_test'', xl_status = None, xl_eligibility = None,
        xl_arms_invalid = False,
        xl_arms = [example_lint_arm 0 ''control'' ''0-4'', example_lint_arm 1 ''treatment'' ''5 - 9''],
        xl_invalid_shape = False\<rparr>]\<rparr>"

theorem accepted_layer_excludes_witness:
  "\<exists>a. compiled_from example_lint_layer (hd (xy_allocations example_lint_layer)) a \<and> length (alloc_arms a) = 2 \<and>
       length (filter (arm_holds 7) (alloc_arms a)) = 1"
proof -
  let ?c = "compile_allocation_body (example_index 10) (snd color_variable) (KPrimitive ''string'')
      (Present (JString ''grey'')) example_assigns ''color_test'' (layer_node_of example_lint_layer)
      (allocation_node_of (hd (xy_allocations example_lint_layer)))"
  have "(case ?c of Inr (AllocationResolution a) \<Rightarrow> length (alloc_arms a) = 2 \<and>
      filter (arm_holds 7) (alloc_arms a) \<noteq> [] | _ \<Rightarrow> False)" by code_simp
  then obtain a where a: "?c = Inr (AllocationResolution a)" "length (alloc_arms a) = 2"
    "filter (arm_holds 7) (alloc_arms a) \<noteq> []"
    by (auto split: sum.splits runtime_resolution.splits)
  then have c: "compiled_from example_lint_layer (hd (xy_allocations example_lint_layer)) a"
    unfolding compiled_from_def by blast
  have lint: "lint_layer_shapes ([] :: unit smap) [example_lint_layer] [] = []" by code_simp
  have "xy_allocations example_lint_layer = [hd (xy_allocations example_lint_layer)]"
    by (simp add: example_lint_layer_def)
  then have "list_all2 (compiled_from example_lint_layer) (xy_allocations example_lint_layer) [a]"
    using c by (metis list_all2_Cons list_all2_Nil)
  from accepted_layer_excludes [OF lint _ this, of 7] a c show ?thesis
    by (auto simp: le_Suc_eq)
qed

end
