(* ===== verification/Upcoming.thy ===== *)
theory Upcoming
  imports Runtime Predicates "HOL-Library.Option_ord"
begin

text \<open>
  Upcoming changes (src/src/lint/upcoming.rs): the instants still ahead at which an
  expression of a variable flips on its own, soonest first. Source locations are left out.
\<close>

datatype change_site = SiteRule nat | SiteQueryFilter | SiteQuerySort

record upcoming_change =
  uc_variable :: string
  uc_site :: change_site
  uc_boundary :: string
  uc_comparison :: string
  uc_expression :: string

definition push_boundaries ::
  "string \<Rightarrow> change_site \<Rightarrow> expression \<Rightarrow> rfc3339_timestamp \<Rightarrow> upcoming_change list" where
  "push_boundaries variable site e now =
     map (\<lambda>b. \<lparr>uc_variable = variable, uc_site = site, uc_boundary = instant b,
               uc_comparison = comparison b, uc_expression = source e\<rparr>)
       (filter (\<lambda>b. \<not> timestamp b \<le> now) (time_boundaries (cel_ast e)))"

definition site_changes ::
  "string \<Rightarrow> change_site \<Rightarrow> expression project_field option \<Rightarrow> rfc3339_timestamp \<Rightarrow> upcoming_change list" where
  "site_changes variable site field now =
     (case field of Some (Present e) \<Rightarrow> push_boundaries variable site e now | _ \<Rightarrow> [])"

definition variable_changes :: "rfc3339_timestamp \<Rightarrow> variable_node \<Rightarrow> upcoming_change list" where
  "variable_changes now vn =
     (case vn_resolve vn of
        Resolve body \<Rightarrow>
          (case rb_rules body of
             Rules rules \<Rightarrow> concat (map (\<lambda>r. site_changes (vn_id vn) (SiteRule (rn_index r)) (rn_when r) now) rules)
           | InvalidRules \<Rightarrow> [])
          @ (case rb_query body of
               Some q \<Rightarrow> site_changes (vn_id vn) SiteQueryFilter (qn_filter q) now
                 @ site_changes (vn_id vn) SiteQuerySort (qn_sort q) now
             | None \<Rightarrow> [])
      | _ \<Rightarrow> [])"

definition boundary_key :: "upcoming_change \<Rightarrow> rfc3339_timestamp option" where
  "boundary_key c = parse_rfc3339_timestamp (uc_boundary c)"

definition change_le :: "upcoming_change \<Rightarrow> upcoming_change \<Rightarrow> bool" where
  "change_le a b =
     (boundary_key a < boundary_key b \<or> boundary_key a = boundary_key b \<and> uc_variable a \<le> uc_variable b)"

definition upcoming_changes :: "semantic_index \<Rightarrow> string \<Rightarrow> upcoming_change list res" where
  "upcoming_changes ix now =
     (case parse_rfc3339_timestamp now of
        None \<Rightarrow> err (''now must be an RFC3339 timestamp, got: '' @ now)
      | Some t \<Rightarrow>
          Inr (sort_by change_le (concat (map (\<lambda>(_, vn). variable_changes t vn) (ix_variables ix)))))"

interpretation change_order: comparator "\<lambda>_. True" change_le
  by unfold_locales (auto simp: change_le_def)

text \<open>The expressions of a variable that are scanned, with their sites.\<close>

definition scanned :: "variable_node \<Rightarrow> change_site \<Rightarrow> expression \<Rightarrow> bool" where
  "scanned vn site e =
     (\<exists>body. vn_resolve vn = Resolve body \<and>
        (case site of
           SiteRule n \<Rightarrow> \<exists>rules. rb_rules body = Rules rules \<and>
             (\<exists>r \<in> set rules. rn_index r = n \<and> rn_when r = Some (Present e))
         | SiteQueryFilter \<Rightarrow> \<exists>q. rb_query body = Some q \<and> qn_filter q = Some (Present e)
         | SiteQuerySort \<Rightarrow> \<exists>q. rb_query body = Some q \<and> qn_sort q = Some (Present e)))"

lemma site_changes_set:
  "c \<in> set (site_changes v site field now) \<longleftrightarrow>
     (\<exists>e. field = Some (Present e) \<and> c \<in> set (push_boundaries v site e now))"
  by (auto simp: site_changes_def split: option.splits project_field.splits)

lemma push_boundaries_set:
  "c \<in> set (push_boundaries v site e now) \<longleftrightarrow>
     uc_variable c = v \<and> uc_site c = site \<and> uc_expression c = source e \<and>
     (\<exists>s t. node_of s (cel_ast e) \<and> compares_now s (uc_comparison c) (uc_boundary c) \<and>
        boundary_key c = Some t \<and> now < t)"
  by (cases c) (auto simp: push_boundaries_def time_boundaries_def collect_boundaries_set found_at_def
      boundary_key_def not_le image_iff intro!: exI [of _ "\<lparr>instant = _, timestamp = _, comparison = _\<rparr>"])

lemma variable_changes_set:
  "c \<in> set (variable_changes t vn) \<longleftrightarrow>
     (\<exists>e. scanned vn (uc_site c) e \<and> c \<in> set (push_boundaries (vn_id vn) (uc_site c) e t))"
proof -
  have site: "uc_site c = site" if "c \<in> set (push_boundaries v site e t)" for v site e
    using that by (simp add: push_boundaries_set)
  show ?thesis
  proof (cases "vn_resolve vn")
    case (Resolve body)
    then show ?thesis
      unfolding variable_changes_def scanned_def
      by (cases "rb_rules body"; cases "rb_query body"; cases "uc_site c")
        (auto simp: site_changes_set dest: site, (metis site change_site.inject(1))+)
  qed (simp_all add: variable_changes_def scanned_def)
qed

lemma variable_changes_iff:
  "c \<in> set (variable_changes t vn) \<longleftrightarrow>
     uc_variable c = vn_id vn \<and>
     (\<exists>e. scanned vn (uc_site c) e \<and> uc_expression c = source e \<and>
        (\<exists>s b. node_of s (cel_ast e) \<and> compares_now s (uc_comparison c) (uc_boundary c) \<and>
           boundary_key c = Some b \<and> t < b))"
  unfolding variable_changes_set push_boundaries_set by auto

text \<open>Given an instant, the list has exactly the comparisons of \<open>env.now\<close> with a later
  literal instant in the conditions, filters and sort keys of the package's variables, the soonest first
  and then by variable; what is not an instant is an error.\<close>

theorem upcoming_changes_exact:
  "case upcoming_changes ix now of
     Inl _ \<Rightarrow> parse_rfc3339_timestamp now = None
   | Inr cs \<Rightarrow> \<exists>t. parse_rfc3339_timestamp now = Some t \<and> sorted_wrt change_le cs \<and>
       (\<forall>c. c \<in> set cs \<longleftrightarrow>
          (\<exists>vn. vn \<in> snd ` set (ix_variables ix) \<and> uc_variable c = vn_id vn \<and>
             (\<exists>e. scanned vn (uc_site c) e \<and> uc_expression c = source e \<and>
                (\<exists>s b. node_of s (cel_ast e) \<and> compares_now s (uc_comparison c) (uc_boundary c) \<and>
                   boundary_key c = Some b \<and> t < b))))"
proof (cases "parse_rfc3339_timestamp now")
  case None
  then show ?thesis by (simp add: upcoming_changes_def err_def)
next
  case (Some t)
  let ?cs = "concat (map (\<lambda>(_, vn). variable_changes t vn) (ix_variables ix))"
  have "c \<in> set ?cs \<longleftrightarrow> (\<exists>vn. vn \<in> snd ` set (ix_variables ix) \<and> c \<in> set (variable_changes t vn))" for c
    by force
  note this [unfolded variable_changes_iff]
  moreover have "sorted_wrt change_le (sort_by change_le ?cs)" using change_order.sort_by_sorted by simp
  ultimately show ?thesis using Some by (simp add: upcoming_changes_def)
qed

end
