(* ===== verification/Cycles.thy ===== *)
theory Cycles
  imports Upcoming
begin

text \<open>
  Reference cycles among variables: the graph of the references lint sees
  (src/src/lint/references.rs) and the lint that reports its cycles by Tarjan's algorithm
  (src/src/lint/builtins/graph.rs). The location of a reference is the expression it is in, its
  variable and its site. The recursion is on fuel; one more than the number of variables is enough.
  The algorithm is proved once in a locale over any graph, interpreted on the references.
\<close>

section \<open>The graph\<close>

record reference_edge =
  ed_from :: string
  ed_site :: change_site
  ed_to :: string

definition site_edges :: "string \<Rightarrow> change_site \<Rightarrow> expression project_field option \<Rightarrow> reference_edge list" where
  "site_edges variable site field =
     (case field of
        Some (Present e) \<Rightarrow>
          map (\<lambda>i. \<lparr>ed_from = variable, ed_site = site, ed_to = i\<rparr>) (ref_variables (refs e))
      | _ \<Rightarrow> [])"

definition variable_edges :: "variable_node \<Rightarrow> reference_edge list" where
  "variable_edges vn =
     (case vn_resolve vn of
        Resolve body \<Rightarrow>
          (case rb_query body of
             Some q \<Rightarrow> site_edges (vn_id vn) SiteQueryFilter (qn_filter q)
               @ site_edges (vn_id vn) SiteQuerySort (qn_sort q)
           | None \<Rightarrow> [])
          @ (case rb_rules body of
               Rules rules \<Rightarrow>
                 concat (map (\<lambda>r. if rn_invalid_shape r then []
                                  else site_edges (vn_id vn) (SiteRule (rn_index r)) (rn_when r)) rules)
             | InvalidRules \<Rightarrow> [])
      | _ \<Rightarrow> [])"

definition declared_variables :: "semantic_index \<Rightarrow> string list" where
  "declared_variables ix = map (\<lambda>(_, vn). vn_id vn) (ix_variables ix)"

definition resolved_edges :: "semantic_index \<Rightarrow> reference_edge list" where
  "resolved_edges ix =
     filter (\<lambda>e. ed_to e \<in> set (declared_variables ix))
       (concat (map (\<lambda>(_, vn). variable_edges vn) (ix_variables ix)))"

type_synonym reference_graph = "reference_edge list smap"

definition push_graph_edge :: "reference_edge \<Rightarrow> reference_graph \<Rightarrow> reference_graph" where
  "push_graph_edge e g =
     bm_insert (ed_from e) ((case map_of g (ed_from e) of Some es \<Rightarrow> es | None \<Rightarrow> []) @ [e]) g"

definition variable_reference_graph :: "semantic_index \<Rightarrow> reference_graph" where
  "variable_reference_graph ix =
     fold push_graph_edge (resolved_edges ix) (bm_of (map (\<lambda>i. (i, [])) (declared_variables ix)))"

definition graph_edges :: "reference_graph \<Rightarrow> string \<Rightarrow> reference_edge list" where
  "graph_edges g i = (case map_of g i of Some es \<Rightarrow> es | None \<Rightarrow> [])"

section \<open>Strongly connected components\<close>

text \<open>The stack has its top first.\<close>

record tarjan =
  ta_next :: nat
  ta_stack :: "string list"
  ta_index :: "string \<Rightarrow> nat option"
  ta_low :: "string \<Rightarrow> nat option"
  ta_on_stack :: "string set"
  ta_components :: "string list list"

definition start_tarjan :: tarjan where
  "start_tarjan =
     \<lparr>ta_next = 0, ta_stack = [], ta_index = (\<lambda>_. None), ta_low = (\<lambda>_. None), ta_on_stack = {},
      ta_components = []\<rparr>"

definition open_vertex :: "string \<Rightarrow> tarjan \<Rightarrow> tarjan" where
  "open_vertex v s =
     s\<lparr>ta_next := Suc (ta_next s), ta_stack := v # ta_stack s, ta_index := (ta_index s)(v \<mapsto> ta_next s),
       ta_low := (ta_low s)(v \<mapsto> ta_next s), ta_on_stack := insert v (ta_on_stack s)\<rparr>"

definition lower :: "string \<Rightarrow> nat \<Rightarrow> tarjan \<Rightarrow> tarjan" where
  "lower v k s = s\<lparr>ta_low := (ta_low s)(v \<mapsto> min (the (ta_low s v)) k)\<rparr>"

fun pop_until :: "string \<Rightarrow> string list \<Rightarrow> string list \<times> string list" where
  "pop_until v [] = ([], [])"
| "pop_until v (m # st) =
     (if m = v then ([m], st) else (case pop_until v st of (c, rest) \<Rightarrow> (m # c, rest)))"

definition close_vertex :: "string \<Rightarrow> tarjan \<Rightarrow> tarjan" where
  "close_vertex v s =
     (if ta_low s v \<noteq> ta_index s v then s
      else (case pop_until v (ta_stack s) of
              (c, rest) \<Rightarrow>
                s\<lparr>ta_stack := rest, ta_on_stack := ta_on_stack s - set c,
                  ta_components := ta_components s @ [sort c]\<rparr>))"

fun connect_edges ::
  "(string \<Rightarrow> tarjan \<Rightarrow> tarjan option) \<Rightarrow> string \<Rightarrow> string list \<Rightarrow> tarjan \<Rightarrow> tarjan option" where
  "connect_edges connect v [] s = Some s"
| "connect_edges connect v (w # ws) s =
     (if ta_index s w = None then
        (case connect w s of
           None \<Rightarrow> None
         | Some s' \<Rightarrow> connect_edges connect v ws (lower v (the (ta_low s' w)) s'))
      else if w \<in> ta_on_stack s then connect_edges connect v ws (lower v (the (ta_index s w)) s)
      else connect_edges connect v ws s)"

fun strong_connect :: "nat \<Rightarrow> (string \<Rightarrow> string list) \<Rightarrow> string \<Rightarrow> tarjan \<Rightarrow> tarjan option" where
  "strong_connect 0 succs v s = None"
| "strong_connect (Suc n) succs v s =
     map_option (close_vertex v) (connect_edges (strong_connect n succs) v (succs v) (open_vertex v s))"

fun connect_all :: "nat \<Rightarrow> (string \<Rightarrow> string list) \<Rightarrow> string list \<Rightarrow> tarjan \<Rightarrow> tarjan option" where
  "connect_all n succs [] s = Some s"
| "connect_all n succs (v # vs) s =
     (if ta_index s v = None
      then (case strong_connect n succs v s of None \<Rightarrow> None | Some s' \<Rightarrow> connect_all n succs vs s')
      else connect_all n succs vs s)"

definition strongly_connected :: "(string \<Rightarrow> string list) \<Rightarrow> string list \<Rightarrow> string list list option" where
  "strongly_connected succs vs =
     map_option ta_components (connect_all (Suc (length vs)) succs vs start_tarjan)"

definition strongly_connected_variables :: "reference_graph \<Rightarrow> string list list option" where
  "strongly_connected_variables g =
     strongly_connected (\<lambda>i. map ed_to (graph_edges g i)) (map fst g)"

section \<open>The lint\<close>

record cycle_diagnostic =
  cd_variable :: string
  cd_primary :: "(string \<times> change_site) option"
  cd_message :: string
  cd_related :: "((string \<times> change_site) \<times> string) list"

definition edge_location :: "reference_edge \<Rightarrow> string \<times> change_site" where
  "edge_location e = (ed_from e, ed_site e)"

definition cycle_edges :: "reference_graph \<Rightarrow> string list \<Rightarrow> reference_edge list" where
  "cycle_edges g c = filter (\<lambda>e. ed_to e \<in> set c) (concat (map (graph_edges g) c))"

definition component_is_cycle :: "reference_graph \<Rightarrow> string list \<Rightarrow> bool" where
  "component_is_cycle g c =
     (1 < length c \<or> list_ex (\<lambda>e. ed_from e = ed_to e \<and> ed_from e \<in> set c) (cycle_edges g c))"

definition variable_cycle_message :: "string \<Rightarrow> string list \<Rightarrow> string" where
  "variable_cycle_message v c =
     (if length c = 1 then ''variable references itself: '' @ v
      else ''variable participates in a reference cycle with: '' @ join_with '', '' c)"

definition cycle_diagnostic_of :: "reference_graph \<Rightarrow> string list \<Rightarrow> string \<Rightarrow> cycle_diagnostic" where
  "cycle_diagnostic_of g c v =
     (let es = cycle_edges g c;
          primary = map_option edge_location (List.find (\<lambda>e. ed_from e = v) es) in
      \<lparr>cd_variable = v, cd_primary = primary, cd_message = variable_cycle_message v c,
       cd_related = map (\<lambda>e. (edge_location e, ''cycle reference: '' @ ed_from e @ '' -> '' @ ed_to e))
         (filter (\<lambda>e. ed_from e \<noteq> v \<or> Some (edge_location e) \<noteq> primary) es)\<rparr>)"

definition lint_variable_cycles :: "semantic_index \<Rightarrow> cycle_diagnostic list option" where
  "lint_variable_cycles ix =
     (let g = variable_reference_graph ix in
      map_option
        (\<lambda>cs. concat (map (\<lambda>c. map (cycle_diagnostic_of g c) c) (filter (component_is_cycle g) cs)))
        (strongly_connected_variables g))"

section \<open>The algorithm on any graph\<close>

lemma sorted_wrt_distinct: "sorted_wrt (\<lambda>a b. f b < f a) xs \<Longrightarrow> distinct xs"
  for f :: "'a \<Rightarrow> nat"
  by (induction xs) auto

lemma pop_until_append: "v \<notin> set new \<Longrightarrow> pop_until v (new @ v # old) = (new @ [v], old)"
  by (induction new) auto

text \<open>
  \<open>gray\<close> are the vertices whose call is running. Every vertex on the stack reaches a gray one below it and
  is reached by the gray ones below it; what has left the stack is in components already.
\<close>

locale directed_graph =
  fixes succs :: "string \<Rightarrow> string list" and vs :: "string list"
  assumes closed: "v \<in> set vs \<Longrightarrow> w \<in> set (succs v) \<Longrightarrow> w \<in> set vs"
begin

definition edge :: "(string \<times> string) set" where
  "edge = {(a, b). a \<in> set vs \<and> b \<in> set (succs a)}"

abbreviation reach :: "string \<Rightarrow> string \<Rightarrow> bool" where
  "reach a b \<equiv> (a, b) \<in> edge\<^sup>*"

definition scc_of :: "string \<Rightarrow> string set" where
  "scc_of a = {b. reach a b \<and> reach b a}"

abbreviation idx :: "tarjan \<Rightarrow> string \<Rightarrow> nat" where
  "idx s v \<equiv> the (ta_index s v)"

abbreviation finished :: "tarjan \<Rightarrow> string set" where
  "finished s \<equiv> \<Union> (set ` set (ta_components s))"

definition inv :: "string set \<Rightarrow> tarjan \<Rightarrow> bool" where
  "inv gray s =
     (ta_on_stack s = set (ta_stack s) \<and>
      dom (ta_index s) = set (ta_stack s) \<union> finished s \<and> set (ta_stack s) \<inter> finished s = {} \<and>
      dom (ta_index s) \<subseteq> set vs \<and>
      (\<forall>v i. ta_index s v = Some i \<longrightarrow> i < ta_next s) \<and>
      sorted_wrt (\<lambda>a b. idx s b < idx s a) (ta_stack s) \<and>
      gray \<subseteq> set (ta_stack s) \<and>
      (\<forall>a b. a \<in> dom (ta_index s) - gray \<longrightarrow> (a, b) \<in> edge \<longrightarrow> b \<in> dom (ta_index s)) \<and>
      (\<forall>c \<in> set (ta_components s). distinct c) \<and>
      (\<forall>c \<in> set (ta_components s). \<forall>a \<in> set c. set c = scc_of a) \<and>
      (\<forall>a b. a \<in> finished s \<longrightarrow> (a, b) \<in> edge \<longrightarrow> b \<in> finished s) \<and>
      (\<forall>y \<in> set (ta_stack s). \<exists>x \<in> gray. idx s x \<le> idx s y \<and> reach y x) \<and>
      (\<forall>x \<in> gray. \<forall>y \<in> set (ta_stack s). idx s x \<le> idx s y \<longrightarrow> reach x y))"

text \<open>What a call of \<open>v\<close> does to the state it began with, \<open>new\<close> being what it leaves on the stack.\<close>

definition after_call :: "string set \<Rightarrow> string \<Rightarrow> string list \<Rightarrow> tarjan \<Rightarrow> tarjan \<Rightarrow> bool" where
  "after_call gray v new s s' =
     (inv gray s' \<and> ta_stack s' = new @ ta_stack s \<and>
      (\<forall>u \<in> dom (ta_index s). ta_index s' u = ta_index s u \<and> ta_low s' u = ta_low s u) \<and>
      ta_index s' v = Some (ta_next s) \<and> dom (ta_index s) \<subseteq> dom (ta_index s') \<and>
      (v \<in> set (ta_stack s') \<longrightarrow> (\<exists>y \<in> set (ta_stack s'). idx s' y = the (ta_low s' v) \<and> reach v y)) \<and>
      (v \<notin> set (ta_stack s') \<longrightarrow> the (ta_low s' v) = idx s' v) \<and>
      (\<forall>x \<in> set new. \<forall>y \<in> set (ta_stack s). (x, y) \<in> edge \<longrightarrow> the (ta_low s' v) \<le> idx s y))"

text \<open>The loop of \<open>v\<close> over its successors, \<open>past\<close> being those it is past and \<open>new\<close> what is on the stack above it.\<close>

definition in_loop :: "string set \<Rightarrow> string \<Rightarrow> string set \<Rightarrow> string list \<Rightarrow> tarjan \<Rightarrow> tarjan \<Rightarrow> bool" where
  "in_loop gray v past new s s' =
     (inv (insert v gray) s' \<and> ta_stack s' = new @ v # ta_stack s \<and> v \<notin> dom (ta_index s) \<and>
      (\<forall>u \<in> dom (ta_index s). ta_index s' u = ta_index s u \<and> ta_low s' u = ta_low s u) \<and>
      ta_index s' v = Some (ta_next s) \<and> ta_low s' v \<noteq> None \<and> dom (ta_index s) \<subseteq> dom (ta_index s') \<and>
      the (ta_low s' v) \<le> idx s' v \<and>
      (\<exists>y \<in> set (ta_stack s'). idx s' y = the (ta_low s' v) \<and> reach v y) \<and>
      past \<subseteq> dom (ta_index s') \<and>
      (\<forall>y \<in> past \<inter> set (ta_stack s). the (ta_low s' v) \<le> idx s y) \<and>
      (\<forall>x \<in> set new. \<forall>y \<in> set (ta_stack s). (x, y) \<in> edge \<longrightarrow> the (ta_low s' v) \<le> idx s y))"

lemma invD:
  assumes "inv gray s"
  shows on_stack: "ta_on_stack s = set (ta_stack s)"
    and dom_index: "dom (ta_index s) = set (ta_stack s) \<union> finished s"
    and apart: "u \<in> set (ta_stack s) \<Longrightarrow> u \<notin> finished s"
    and known: "dom (ta_index s) \<subseteq> set vs"
    and bound: "u \<in> dom (ta_index s) \<Longrightarrow> idx s u < ta_next s"
    and descending: "sorted_wrt (\<lambda>a b. idx s b < idx s a) (ta_stack s)"
    and gray_stack: "gray \<subseteq> set (ta_stack s)"
    and explored: "a \<in> dom (ta_index s) \<Longrightarrow> a \<notin> gray \<Longrightarrow> (a, b) \<in> edge \<Longrightarrow> b \<in> dom (ta_index s)"
    and distincts: "c \<in> set (ta_components s) \<Longrightarrow> distinct c"
    and sccs: "c \<in> set (ta_components s) \<Longrightarrow> a \<in> set c \<Longrightarrow> set c = scc_of a"
    and finished_closed: "a \<in> finished s \<Longrightarrow> (a, b) \<in> edge \<Longrightarrow> b \<in> finished s"
    and down: "y \<in> set (ta_stack s) \<Longrightarrow> \<exists>x \<in> gray. idx s x \<le> idx s y \<and> reach y x"
    and up: "x \<in> gray \<Longrightarrow> y \<in> set (ta_stack s) \<Longrightarrow> idx s x \<le> idx s y \<Longrightarrow> reach x y"
proof -
  have "set (ta_stack s) \<inter> finished s = {}" and bounds: "\<forall>v i. ta_index s v = Some i \<longrightarrow> i < ta_next s"
    and explored: "\<forall>a b. a \<in> dom (ta_index s) - gray \<longrightarrow> (a, b) \<in> edge \<longrightarrow> b \<in> dom (ta_index s)"
    and dis: "\<forall>c \<in> set (ta_components s). distinct c"
    and sccs: "\<forall>c \<in> set (ta_components s). \<forall>a \<in> set c. set c = scc_of a"
    and fin: "\<forall>a b. a \<in> finished s \<longrightarrow> (a, b) \<in> edge \<longrightarrow> b \<in> finished s"
    and down: "\<forall>y \<in> set (ta_stack s). \<exists>x \<in> gray. idx s x \<le> idx s y \<and> reach y x"
    and up: "\<forall>x \<in> gray. \<forall>y \<in> set (ta_stack s). idx s x \<le> idx s y \<longrightarrow> reach x y"
    using assms unfolding inv_def by - (elim conjE, assumption)+
  then show "u \<in> set (ta_stack s) \<Longrightarrow> u \<notin> finished s" by blast
  show "u \<in> dom (ta_index s) \<Longrightarrow> idx s u < ta_next s" using bounds by force
  show "a \<in> dom (ta_index s) \<Longrightarrow> a \<notin> gray \<Longrightarrow> (a, b) \<in> edge \<Longrightarrow> b \<in> dom (ta_index s)" using explored by blast
  show "c \<in> set (ta_components s) \<Longrightarrow> distinct c" using dis by blast
  show "c \<in> set (ta_components s) \<Longrightarrow> a \<in> set c \<Longrightarrow> set c = scc_of a" using sccs by blast
  show "a \<in> finished s \<Longrightarrow> (a, b) \<in> edge \<Longrightarrow> b \<in> finished s" using fin by blast
  show "y \<in> set (ta_stack s) \<Longrightarrow> \<exists>x \<in> gray. idx s x \<le> idx s y \<and> reach y x" using down by blast
  show "x \<in> gray \<Longrightarrow> y \<in> set (ta_stack s) \<Longrightarrow> idx s x \<le> idx s y \<Longrightarrow> reach x y" using up by blast
qed (insert assms, unfold inv_def, (elim conjE, assumption)+)

lemma invI:
  assumes "ta_on_stack s = set (ta_stack s)" "dom (ta_index s) = set (ta_stack s) \<union> finished s"
    and "\<And>u. u \<in> set (ta_stack s) \<Longrightarrow> u \<notin> finished s" "dom (ta_index s) \<subseteq> set vs"
    and "\<And>u. u \<in> dom (ta_index s) \<Longrightarrow> idx s u < ta_next s"
    and "sorted_wrt (\<lambda>a b. idx s b < idx s a) (ta_stack s)" "gray \<subseteq> set (ta_stack s)"
    and "\<And>a b. a \<in> dom (ta_index s) \<Longrightarrow> a \<notin> gray \<Longrightarrow> (a, b) \<in> edge \<Longrightarrow> b \<in> dom (ta_index s)"
    and "\<And>c. c \<in> set (ta_components s) \<Longrightarrow> distinct c"
    and "\<And>c a. c \<in> set (ta_components s) \<Longrightarrow> a \<in> set c \<Longrightarrow> set c = scc_of a"
    and "\<And>a b. a \<in> finished s \<Longrightarrow> (a, b) \<in> edge \<Longrightarrow> b \<in> finished s"
    and "\<And>y. y \<in> set (ta_stack s) \<Longrightarrow> \<exists>x \<in> gray. idx s x \<le> idx s y \<and> reach y x"
    and "\<And>x y. x \<in> gray \<Longrightarrow> y \<in> set (ta_stack s) \<Longrightarrow> idx s x \<le> idx s y \<Longrightarrow> reach x y"
  shows "inv gray s"
proof -
  have "\<forall>v i. ta_index s v = Some i \<longrightarrow> i < ta_next s" using assms(5) by force
  moreover have "set (ta_stack s) \<inter> finished s = {}" using assms(3) by blast
  moreover have "\<forall>a b. a \<in> dom (ta_index s) - gray \<longrightarrow> (a, b) \<in> edge \<longrightarrow> b \<in> dom (ta_index s)"
    using assms(8) by blast
  moreover have "\<forall>c \<in> set (ta_components s). \<forall>a \<in> set c. set c = scc_of a" using assms(10) by blast
  moreover have "\<forall>c \<in> set (ta_components s). distinct c" using assms(9) by blast
  moreover have "\<forall>a b. a \<in> finished s \<longrightarrow> (a, b) \<in> edge \<longrightarrow> b \<in> finished s" using assms(11) by blast
  moreover have "\<forall>y \<in> set (ta_stack s). \<exists>x \<in> gray. idx s x \<le> idx s y \<and> reach y x" using assms(12) by blast
  moreover have "\<forall>x \<in> gray. \<forall>y \<in> set (ta_stack s). idx s x \<le> idx s y \<longrightarrow> reach x y" using assms(13) by blast
  ultimately show ?thesis unfolding inv_def using assms(1,2,4,6,7) by (intro conjI)
qed

lemma in_loop_start:
  assumes i: "inv gray s" and v: "v \<in> set vs" "v \<notin> dom (ta_index s)" and below: "\<forall>x \<in> gray. reach x v"
  shows "in_loop gray v {} [] s (open_vertex v s)"
proof -
  let ?s = "open_vertex v s"
  have fin: "finished ?s = finished s" by (simp add: open_vertex_def)
  have stack: "ta_stack ?s = v # ta_stack s" by (simp add: open_vertex_def)
  have dom: "dom (ta_index ?s) = insert v (dom (ta_index s))" by (auto simp: open_vertex_def)
  have iv: "idx ?s v = ta_next s" by (simp add: open_vertex_def)
  have old: "idx ?s u = idx s u" "idx s u < ta_next s" if "u \<in> set (ta_stack s)" for u
    using that v(2) dom_index [OF i] bound [OF i, of u] by (auto simp: open_vertex_def)
  have g: "u \<in> set (ta_stack s)" "u \<noteq> v" if "u \<in> gray" for u
    using that gray_stack [OF i] dom_index [OF i] v(2) by auto
  have "inv (insert v gray) ?s"
  proof (rule invI)
    show "ta_on_stack ?s = set (ta_stack ?s)" using on_stack [OF i] by (simp add: open_vertex_def)
    show "dom (ta_index ?s) = set (ta_stack ?s) \<union> finished ?s"
      unfolding dom stack fin dom_index [OF i] by simp
    show "u \<notin> finished ?s" if "u \<in> set (ta_stack ?s)" for u
      using that v(2) dom_index [OF i] apart [OF i, of u] unfolding stack fin by auto
    show "dom (ta_index ?s) \<subseteq> set vs" unfolding dom using known [OF i] v(1) by blast
    show "idx ?s u < ta_next ?s" if "u \<in> dom (ta_index ?s)" for u
      using that bound [OF i, of u] by (auto simp: open_vertex_def split: if_splits intro: less_SucI)
    have "sorted_wrt (\<lambda>a b. idx ?s b < idx ?s a) (ta_stack s)"
      using descending [OF i] by (rule sorted_wrt_mono_rel [rotated]) (simp add: old(1))
    then show "sorted_wrt (\<lambda>a b. idx ?s b < idx ?s a) (ta_stack ?s)"
      unfolding stack using old iv by simp
    show "insert v gray \<subseteq> set (ta_stack ?s)" unfolding stack using gray_stack [OF i] by auto
    show "b \<in> dom (ta_index ?s)" if "a \<in> dom (ta_index ?s)" "a \<notin> insert v gray" "(a, b) \<in> edge" for a b
      using that explored [OF i, of a b] unfolding dom by blast
    show "distinct c" if "c \<in> set (ta_components ?s)" for c
      using that distincts [OF i, of c] by (simp add: open_vertex_def)
    show "set c = scc_of a" if "c \<in> set (ta_components ?s)" "a \<in> set c" for c a
      using that sccs [OF i, of c a] by (simp add: open_vertex_def)
    show "b \<in> finished ?s" if "a \<in> finished ?s" "(a, b) \<in> edge" for a b
      using that finished_closed [OF i] unfolding fin by blast
    show "\<exists>x \<in> insert v gray. idx ?s x \<le> idx ?s y \<and> reach y x" if "y \<in> set (ta_stack ?s)" for y
    proof (cases "y = v")
      case False
      with that have y: "y \<in> set (ta_stack s)" unfolding stack by simp
      then show ?thesis using down [OF i y] old(1) [OF y] old(1) [OF g(1)] by auto
    qed simp
    show "reach x y" if xy: "x \<in> insert v gray" "y \<in> set (ta_stack ?s)" "idx ?s x \<le> idx ?s y" for x y
    proof (cases "y = v")
      case True
      with xy(1) below show ?thesis by auto
    next
      case False
      with xy(2) have y: "y \<in> set (ta_stack s)" unfolding stack by simp
      with xy(3) iv old [OF y] have "x \<noteq> v" by auto
      with xy(1,3) y old(1) g(1) up [OF i, of x y] show ?thesis by auto
    qed
  qed
  then show ?thesis
    unfolding in_loop_def using v(2)
    by (auto simp: open_vertex_def)
qed

lemma inv_lower [simp]: "inv gray (lower v k s) = inv gray s"
  by (simp add: inv_def lower_def)

lemma lower_simps [simp]:
  "ta_stack (lower v k s) = ta_stack s" "ta_index (lower v k s) = ta_index s"
  "ta_on_stack (lower v k s) = ta_on_stack s" "ta_next (lower v k s) = ta_next s"
  "ta_low (lower v k s) v = Some (min (the (ta_low s v)) k)"
  "u \<noteq> v \<Longrightarrow> ta_low (lower v k s) u = ta_low s u"
  by (simp_all add: lower_def)

lemma in_loopI:
  assumes "inv (insert v gray) s'" "ta_stack s' = new @ v # ta_stack s" "v \<notin> dom (ta_index s)"
    and "\<And>u. u \<in> dom (ta_index s) \<Longrightarrow> ta_index s' u = ta_index s u \<and> ta_low s' u = ta_low s u"
    and "ta_index s' v = Some (ta_next s)" "ta_low s' v \<noteq> None" "dom (ta_index s) \<subseteq> dom (ta_index s')"
    and "the (ta_low s' v) \<le> idx s' v" "\<exists>y \<in> set (ta_stack s'). idx s' y = the (ta_low s' v) \<and> reach v y"
    and "past \<subseteq> dom (ta_index s')"
    and "\<And>y. y \<in> past \<Longrightarrow> y \<in> set (ta_stack s) \<Longrightarrow> the (ta_low s' v) \<le> idx s y"
    and "\<And>x y. x \<in> set new \<Longrightarrow> y \<in> set (ta_stack s) \<Longrightarrow> (x, y) \<in> edge \<Longrightarrow> the (ta_low s' v) \<le> idx s y"
  shows "in_loop gray v past new s s'"
proof -
  have "\<forall>u \<in> dom (ta_index s). ta_index s' u = ta_index s u \<and> ta_low s' u = ta_low s u"
    by (simp add: assms(4))
  moreover have "\<forall>y \<in> past \<inter> set (ta_stack s). the (ta_low s' v) \<le> idx s y" using assms(11) by blast
  moreover have "\<forall>x \<in> set new. \<forall>y \<in> set (ta_stack s). (x, y) \<in> edge \<longrightarrow> the (ta_low s' v) \<le> idx s y"
    using assms(12) by blast
  ultimately show ?thesis
    unfolding in_loop_def using assms(1-3,5-10) by (intro conjI)
qed

lemma in_loopD:
  assumes "in_loop gray v past new s s'"
  shows loop_inv: "inv (insert v gray) s'" and loop_stack: "ta_stack s' = new @ v # ta_stack s"
    and loop_fresh: "v \<notin> dom (ta_index s)"
    and loop_index: "u \<in> dom (ta_index s) \<Longrightarrow> ta_index s' u = ta_index s u"
    and loop_low: "u \<in> dom (ta_index s) \<Longrightarrow> ta_low s' u = ta_low s u"
    and loop_index_v: "ta_index s' v = Some (ta_next s)" and loop_low_v: "ta_low s' v \<noteq> None"
    and loop_dom: "dom (ta_index s) \<subseteq> dom (ta_index s')"
    and loop_le: "the (ta_low s' v) \<le> idx s' v"
    and loop_ex: "\<exists>y \<in> set (ta_stack s'). idx s' y = the (ta_low s' v) \<and> reach v y"
    and loop_past: "past \<subseteq> dom (ta_index s')"
    and loop_past_low: "y \<in> past \<Longrightarrow> y \<in> set (ta_stack s) \<Longrightarrow> the (ta_low s' v) \<le> idx s y"
    and loop_new_low: "x \<in> set new \<Longrightarrow> y \<in> set (ta_stack s) \<Longrightarrow> (x, y) \<in> edge \<Longrightarrow> the (ta_low s' v) \<le> idx s y"
proof -
  have "\<forall>u \<in> dom (ta_index s). ta_index s' u = ta_index s u \<and> ta_low s' u = ta_low s u"
    and p: "\<forall>y \<in> past \<inter> set (ta_stack s). the (ta_low s' v) \<le> idx s y"
    and n: "\<forall>x \<in> set new. \<forall>y \<in> set (ta_stack s). (x, y) \<in> edge \<longrightarrow> the (ta_low s' v) \<le> idx s y"
    using assms unfolding in_loop_def by - (elim conjE, assumption)+
  then show "u \<in> dom (ta_index s) \<Longrightarrow> ta_index s' u = ta_index s u"
    "u \<in> dom (ta_index s) \<Longrightarrow> ta_low s' u = ta_low s u" by blast+
  show "y \<in> past \<Longrightarrow> y \<in> set (ta_stack s) \<Longrightarrow> the (ta_low s' v) \<le> idx s y" using p by blast
  show "x \<in> set new \<Longrightarrow> y \<in> set (ta_stack s) \<Longrightarrow> (x, y) \<in> edge \<Longrightarrow> the (ta_low s' v) \<le> idx s y"
    using n by blast
qed (insert assms, unfold in_loop_def, (elim conjE, assumption)+)

lemma in_loop_lower:
  assumes l: "in_loop gray v past new s s'" and y: "y \<in> set (ta_stack s')" "idx s' y = k" "reach v y"
  shows "in_loop gray v past new s (lower v k s')"
proof -
  let ?l = "lower v k s'"
  have le: "the (ta_low ?l v) \<le> the (ta_low s' v)" by simp
  show ?thesis
  proof (rule in_loopI)
    show "ta_index ?l u = ta_index s u \<and> ta_low ?l u = ta_low s u" if "u \<in> dom (ta_index s)" for u
    proof -
      have "u \<noteq> v" using that loop_fresh [OF l] by blast
      then show ?thesis using loop_index [OF l that] loop_low [OF l that] by simp
    qed
    show "\<exists>y \<in> set (ta_stack ?l). idx ?l y = the (ta_low ?l v) \<and> reach v y"
      using loop_ex [OF l] y by (auto simp: min_def)
    show "the (ta_low ?l v) \<le> idx s y" if "y \<in> past" "y \<in> set (ta_stack s)" for y
      using loop_past_low [OF l that] le by (rule order_trans [rotated])
    show "the (ta_low ?l v) \<le> idx s y" if "x \<in> set new" "y \<in> set (ta_stack s)" "(x, y) \<in> edge" for x y
      using loop_new_low [OF l that] le by (rule order_trans [rotated])
    show "the (ta_low ?l v) \<le> idx ?l v" using loop_le [OF l] le by simp
  qed (use in_loopD [OF l] in simp_all)
qed

lemma in_loop_past:
  assumes l: "in_loop gray v past new s s'" and w: "w \<in> dom (ta_index s')"
    and "w \<in> set (ta_stack s) \<Longrightarrow> the (ta_low s' v) \<le> idx s w"
  shows "in_loop gray v (insert w past) new s s'"
  by (rule in_loopI) (use in_loopD [OF l] w assms(3) in \<open>auto simp del: split_paired_Ex\<close>)

lemma in_loop_visited:
  assumes l: "in_loop gray v past new s s'" and i: "inv gray s" and e: "(v, w) \<in> edge"
    and w: "w \<in> dom (ta_index s')"
  shows "in_loop gray v (insert w past) new s
    (if w \<in> ta_on_stack s' then lower v (idx s' w) s' else s')"
proof (cases "w \<in> ta_on_stack s'")
  case True
  then have st: "w \<in> set (ta_stack s')" using on_stack [OF loop_inv [OF l]] by simp
  have same: "idx s' w = idx s w" if "w \<in> set (ta_stack s)"
    using that loop_index [OF l, of w] dom_index [OF i] by auto
  have "in_loop gray v past new s (lower v (idx s' w) s')"
    using l st refl by (rule in_loop_lower) (use e in blast)
  then have "in_loop gray v (insert w past) new s (lower v (idx s' w) s')"
    by (rule in_loop_past) (use w same in simp_all)
  with True show ?thesis by simp
next
  case False
  then have "w \<notin> set (ta_stack s)" using on_stack [OF loop_inv [OF l]] loop_stack [OF l] by simp
  with False in_loop_past [OF l w] show ?thesis by simp
qed

lemma after_callD:
  assumes "after_call gray v new s s'"
  shows call_inv: "inv gray s'" and call_stack: "ta_stack s' = new @ ta_stack s"
    and call_index: "u \<in> dom (ta_index s) \<Longrightarrow> ta_index s' u = ta_index s u"
    and call_low: "u \<in> dom (ta_index s) \<Longrightarrow> ta_low s' u = ta_low s u"
    and call_index_v: "ta_index s' v = Some (ta_next s)"
    and call_dom: "dom (ta_index s) \<subseteq> dom (ta_index s')"
    and call_ex: "v \<in> set (ta_stack s') \<Longrightarrow> \<exists>y \<in> set (ta_stack s'). idx s' y = the (ta_low s' v) \<and> reach v y"
    and call_root: "v \<notin> set (ta_stack s') \<Longrightarrow> the (ta_low s' v) = idx s' v"
    and call_new_low: "x \<in> set new \<Longrightarrow> y \<in> set (ta_stack s) \<Longrightarrow> (x, y) \<in> edge \<Longrightarrow> the (ta_low s' v) \<le> idx s y"
proof -
  have "\<forall>u \<in> dom (ta_index s). ta_index s' u = ta_index s u \<and> ta_low s' u = ta_low s u"
    and n: "\<forall>x \<in> set new. \<forall>y \<in> set (ta_stack s). (x, y) \<in> edge \<longrightarrow> the (ta_low s' v) \<le> idx s y"
    using assms unfolding after_call_def by - (elim conjE, assumption)+
  then show "u \<in> dom (ta_index s) \<Longrightarrow> ta_index s' u = ta_index s u"
    "u \<in> dom (ta_index s) \<Longrightarrow> ta_low s' u = ta_low s u" by blast+
  show "x \<in> set new \<Longrightarrow> y \<in> set (ta_stack s) \<Longrightarrow> (x, y) \<in> edge \<Longrightarrow> the (ta_low s' v) \<le> idx s y"
    using n by blast
qed (insert assms, unfold after_call_def, (elim conjE, (assumption | erule mp, assumption))+)

lemma in_loop_call:
  assumes l: "in_loop gray v past new s s'" and i: "inv gray s" and e: "(v, w) \<in> edge"
    and w: "w \<notin> dom (ta_index s')" and c: "after_call (insert v gray) w added s' s''"
  shows "in_loop gray v (insert w past) (added @ new) s (lower v (the (ta_low s'' w)) s'')"
proof -
  let ?k = "the (ta_low s'' w)" and ?l = "lower v (the (ta_low s'' w)) s''"
  have in_dom: "u \<in> dom (ta_index s')" if "u \<in> dom (ta_index s)" for u
    using that loop_dom [OF l] by blast
  have v: "v \<in> dom (ta_index s')" using loop_index_v [OF l] by blast
  have low_v: "ta_low s'' v = ta_low s' v" and index_v: "ta_index s'' v = ta_index s' v"
    using call_low [OF c v] call_index [OF c v] .
  have le: "the (ta_low ?l v) \<le> the (ta_low s' v)" "the (ta_low ?l v) \<le> ?k" using low_v by simp_all
  have old: "y \<in> dom (ta_index s)" "y \<in> set (ta_stack s')" if "y \<in> set (ta_stack s)" for y
    using that dom_index [OF i] loop_stack [OF l] by auto
  show ?thesis
  proof (rule in_loopI)
    show "inv (insert v gray) ?l" using call_inv [OF c] by simp
    show "ta_stack ?l = (added @ new) @ v # ta_stack s"
      using call_stack [OF c] loop_stack [OF l] by simp
    show "v \<notin> dom (ta_index s)" by (rule loop_fresh [OF l])
    show "ta_index ?l u = ta_index s u \<and> ta_low ?l u = ta_low s u" if u: "u \<in> dom (ta_index s)" for u
    proof -
      have "u \<noteq> v" using u loop_fresh [OF l] by blast
      then show ?thesis
        using loop_index [OF l u] loop_low [OF l u] call_index [OF c in_dom [OF u]] call_low [OF c in_dom [OF u]]
        by simp
    qed
    show "ta_index ?l v = Some (ta_next s)" using index_v loop_index_v [OF l] by simp
    show "ta_low ?l v \<noteq> None" by simp
    show "dom (ta_index s) \<subseteq> dom (ta_index ?l)" using loop_dom [OF l] call_dom [OF c] by auto
    show "the (ta_low ?l v) \<le> idx ?l v" using le(1) loop_le [OF l] index_v by simp
    show "\<exists>y \<in> set (ta_stack ?l). idx ?l y = the (ta_low ?l v) \<and> reach v y"
    proof (cases "?k < the (ta_low s' v)")
      case True
      have "w \<in> set (ta_stack s'')"
      proof (rule ccontr)
        assume "w \<notin> set (ta_stack s'')"
        then have "?k = ta_next s'" using call_root [OF c] call_index_v [OF c] by simp
        moreover have "idx s' v < ta_next s'" using bound [OF loop_inv [OF l] v] .
        ultimately show False using True loop_le [OF l] by simp
      qed
      then obtain y where "y \<in> set (ta_stack s'')" "idx s'' y = ?k" "reach w y" using call_ex [OF c] by blast
      moreover from this(3) e have "reach v y" by (rule converse_rtrancl_into_rtrancl [rotated])
      ultimately show ?thesis using True low_v by (auto simp: min_def)
    next
      case False
      then have low: "the (ta_low ?l v) = the (ta_low s' v)" using low_v by (simp add: min_def)
      obtain y where y: "y \<in> set (ta_stack s')" "idx s' y = the (ta_low s' v)" "reach v y"
        using loop_ex [OF l] by blast
      then have "y \<in> dom (ta_index s')" using dom_index [OF loop_inv [OF l]] by blast
      then have "idx ?l y = the (ta_low ?l v)" using call_index [OF c, of y] y(2) low by simp
      moreover have "y \<in> set (ta_stack ?l)" using y(1) call_stack [OF c] by simp
      ultimately show ?thesis using y(3) by blast
    qed
    show "insert w past \<subseteq> dom (ta_index ?l)"
      using loop_past [OF l] call_dom [OF c] call_index_v [OF c] by auto
    show "the (ta_low ?l v) \<le> idx s y" if "y \<in> insert w past" "y \<in> set (ta_stack s)" for y
    proof -
      have "y \<noteq> w" using that(2) old w in_dom by blast
      then show ?thesis using that loop_past_low [OF l, of y] le(1) by auto
    qed
    show "the (ta_low ?l v) \<le> idx s y" if x: "x \<in> set (added @ new)" and y: "y \<in> set (ta_stack s)" "(x, y) \<in> edge" for x y
    proof (cases "x \<in> set new")
      case True
      then show ?thesis using loop_new_low [OF l True y] le(1) by simp
    next
      case False
      with x have "x \<in> set added" by simp
      from call_new_low [OF c this old(2) [OF y(1)] y(2)] le(2) loop_index [OF l old(1) [OF y(1)]]
      show ?thesis by simp
    qed
  qed
qed

lemma after_callI:
  assumes "inv gray s'" "ta_stack s' = new @ ta_stack s"
    and "\<And>u. u \<in> dom (ta_index s) \<Longrightarrow> ta_index s' u = ta_index s u \<and> ta_low s' u = ta_low s u"
    and "ta_index s' v = Some (ta_next s)" "dom (ta_index s) \<subseteq> dom (ta_index s')"
    and "v \<in> set (ta_stack s') \<Longrightarrow> \<exists>y \<in> set (ta_stack s'). idx s' y = the (ta_low s' v) \<and> reach v y"
    and "v \<notin> set (ta_stack s') \<Longrightarrow> the (ta_low s' v) = idx s' v"
    and "\<And>x y. x \<in> set new \<Longrightarrow> y \<in> set (ta_stack s) \<Longrightarrow> (x, y) \<in> edge \<Longrightarrow> the (ta_low s' v) \<le> idx s y"
  shows "after_call gray v new s s'"
proof -
  have "\<forall>u \<in> dom (ta_index s). ta_index s' u = ta_index s u \<and> ta_low s' u = ta_low s u"
    by (simp add: assms(3))
  moreover have "\<forall>x \<in> set new. \<forall>y \<in> set (ta_stack s). (x, y) \<in> edge \<longrightarrow> the (ta_low s' v) \<le> idx s y"
    using assms(8) by blast
  ultimately show ?thesis
    unfolding after_call_def using assms(1,2,4-7) by (intro conjI impI)
qed

text \<open>When the loop is over, an edge from what \<open>v\<close> put on the stack to below it lowers the low of \<open>v\<close>.\<close>

lemma end_of_loop_low:
  assumes l: "in_loop gray v (set (succs v)) new s s'" and e: "(x, y) \<in> edge"
    and x: "x \<in> set (new @ [v])" and y: "y \<in> set (ta_stack s)"
  shows "the (ta_low s' v) \<le> idx s y"
proof (cases "x \<in> set new")
  case True
  show ?thesis by (rule loop_new_low [OF l True y e])
next
  case False
  with x e have "y \<in> set (succs v)" by (simp add: edge_def)
  then show ?thesis using loop_past_low [OF l _ y] by blast
qed

lemma end_of_loop_order:
  assumes l: "in_loop gray v past new s s'" and i: "inv gray s"
  shows above_v: "x \<in> set (new @ [v]) \<Longrightarrow> idx s' v \<le> idx s' x"
    and below_v: "y \<in> set (ta_stack s) \<Longrightarrow> idx s y < idx s' v"
    and same_index: "y \<in> set (ta_stack s) \<Longrightarrow> idx s' y = idx s y"
    and not_new: "y \<in> set (ta_stack s) \<Longrightarrow> y \<notin> set (new @ [v])"
proof -
  have sorted: "sorted_wrt (\<lambda>a b. idx s' b < idx s' a) (new @ v # ta_stack s)"
    using descending [OF loop_inv [OF l]] unfolding loop_stack [OF l] .
  show a: "idx s' v \<le> idx s' x" if "x \<in> set (new @ [v])" for x
    using sorted that by (auto simp: sorted_wrt_append less_imp_le)
  show e: "idx s' y = idx s y" if "y \<in> set (ta_stack s)" for y
    using that dom_index [OF i] loop_index [OF l, of y] by simp
  have b: "idx s' y < idx s' v" if "y \<in> set (ta_stack s)" for y
    using sorted that by (auto simp: sorted_wrt_append)
  then show "idx s y < idx s' v" if "y \<in> set (ta_stack s)" for y using that e by simp
  show "y \<notin> set (new @ [v])" if "y \<in> set (ta_stack s)" for y using a [of y] b [OF that] by auto
qed

lemma end_of_loop_explored:
  assumes l: "in_loop gray v (set (succs v)) new s s'"
    and a: "a \<in> dom (ta_index s')" "a \<notin> gray" "(a, b) \<in> edge"
  shows "b \<in> dom (ta_index s')"
proof (cases "a = v")
  case True
  then show ?thesis using a(3) loop_past [OF l] by (auto simp: edge_def)
next
  case False
  then show ?thesis using a explored [OF loop_inv [OF l]] by blast
qed

lemma vertex_open:
  assumes l: "in_loop gray v (set (succs v)) new s s'" and i: "inv gray s"
    and low: "the (ta_low s' v) < idx s' v"
  shows "inv gray s'"
proof (rule invI)
  note i' = loop_inv [OF l]
  show "gray \<subseteq> set (ta_stack s')" using gray_stack [OF i'] by blast
  show "b \<in> dom (ta_index s')" if "a \<in> dom (ta_index s')" "a \<notin> gray" "(a, b) \<in> edge" for a b
    by (rule end_of_loop_explored [OF l that])
  show "\<exists>x \<in> gray. idx s' x \<le> idx s' y \<and> reach y x" if y: "y \<in> set (ta_stack s')" for y
  proof -
    obtain x where x: "x \<in> insert v gray" "idx s' x \<le> idx s' y" "reach y x" using down [OF i' y] by blast
    show ?thesis
    proof (cases "x = v")
      case True
      obtain z where z: "z \<in> set (ta_stack s')" "idx s' z = the (ta_low s' v)" "reach v z"
        using loop_ex [OF l] by blast
      obtain w where w: "w \<in> insert v gray" "idx s' w \<le> idx s' z" "reach z w" using down [OF i' z(1)] by blast
      have "w \<in> gray" using w(1,2) z(2) low by auto
      moreover have "idx s' w \<le> idx s' y" using w(2) z(2) low x(2) True by simp
      moreover have "reach y w" using x(3) True z(3) w(3) by (meson rtrancl_trans)
      ultimately show ?thesis by blast
    qed (use x in blast)
  qed
  show "reach x y" if "x \<in> gray" "y \<in> set (ta_stack s')" "idx s' x \<le> idx s' y" for x y
    using that up [OF i', of x y] by blast
qed (fact on_stack [OF loop_inv [OF l]] dom_index [OF loop_inv [OF l]] known [OF loop_inv [OF l]]
      descending [OF loop_inv [OF l]]
    | erule apart [OF loop_inv [OF l]] bound [OF loop_inv [OF l]] distincts [OF loop_inv [OF l]]
    | erule (1) sccs [OF loop_inv [OF l]] finished_closed [OF loop_inv [OF l]])+

text \<open>What \<open>v\<close> and all above it on the stack form when \<open>v\<close> is its own low.\<close>

lemma popped_edges:
  assumes l: "in_loop gray v (set (succs v)) new s s'" and i: "inv gray s"
    and low: "the (ta_low s' v) = idx s' v" and x: "x \<in> set (new @ [v])" "(x, y) \<in> edge"
  shows "y \<in> set (new @ [v]) \<union> finished s'"
proof -
  note i' = loop_inv [OF l]
  have "x \<notin> gray" using gray_stack [OF i] x(1) not_new [OF l i] by blast
  moreover have "x \<in> dom (ta_index s')" unfolding dom_index [OF i'] loop_stack [OF l] using x(1) by auto
  ultimately have "y \<in> dom (ta_index s')" using end_of_loop_explored [OF l _ _ x(2)] by blast
  then have "y \<in> set (new @ [v]) \<union> set (ta_stack s) \<union> finished s'"
    unfolding dom_index [OF i'] loop_stack [OF l] by auto
  moreover have "y \<notin> set (ta_stack s)"
    using end_of_loop_low [OF l x(2,1)] below_v [OF l i, of y] low by auto
  ultimately show ?thesis by blast
qed

lemma popped_component:
  assumes l: "in_loop gray v (set (succs v)) new s s'" and i: "inv gray s" and below: "\<forall>x \<in> gray. reach x v"
    and low: "the (ta_low s' v) = idx s' v" and a: "a \<in> set (new @ [v])"
  shows "set (new @ [v]) = scc_of a"
proof
  note i' = loop_inv [OF l]
  let ?C = "set (new @ [v])"
  have st: "x \<in> set (ta_stack s')" if "x \<in> ?C" for x using that loop_stack [OF l] by auto
  have "reach x v" if x: "x \<in> ?C" for x
  proof -
    obtain g where "g \<in> insert v gray" "reach x g" using down [OF i' st [OF x]] by blast
    then show ?thesis using below by (auto intro: rtrancl_trans)
  qed
  moreover have "reach v x" if x: "x \<in> ?C" for x
    using up [OF i' _ st [OF x], of v] above_v [OF l i x] by blast
  ultimately show "?C \<subseteq> scc_of a" using a by (auto simp: scc_of_def intro: rtrancl_trans)
  have stays: "y \<in> finished s'" if "reach x y" "x \<in> finished s'" for x y
    using that finished_closed [OF i'] by (induction rule: rtrancl_induct) blast+
  have ends: "y \<in> ?C \<union> finished s'" if "reach a y" for y
    using that
  proof (induction rule: rtrancl_induct)
    case (step y z)
    then show ?case using popped_edges [OF l i low _ step(2)] finished_closed [OF i' _ step(2)] by blast
  qed (use a in blast)
  show "scc_of a \<subseteq> ?C"
  proof
    fix b assume "b \<in> scc_of a"
    then have "reach a b" "reach b a" by (auto simp: scc_of_def)
    then show "b \<in> ?C" using ends [of b] stays [of b a] apart [OF i' st [OF a]] by blast
  qed
qed

lemma vertex_closed:
  assumes l: "in_loop gray v (set (succs v)) new s s'" and i: "inv gray s" and below: "\<forall>x \<in> gray. reach x v"
    and low: "the (ta_low s' v) = idx s' v"
  shows "after_call gray v [] s (close_vertex v s')"
proof -
  note i' = loop_inv [OF l]
  let ?C = "set (new @ [v])" and ?t = "close_vertex v s'"
  have "v \<notin> set new"
    using descending [OF i'] unfolding loop_stack [OF l] by (auto simp: sorted_wrt_append)
  moreover have "ta_low s' v = ta_index s' v" using low loop_low_v [OF l] loop_index_v [OF l] by force
  ultimately have t: "?t = s'\<lparr>ta_stack := ta_stack s, ta_on_stack := ta_on_stack s' - ?C,
      ta_components := ta_components s' @ [sort (new @ [v])]\<rparr>"
    unfolding close_vertex_def loop_stack [OF l] by (simp add: pop_until_append)
  have stack: "ta_stack ?t = ta_stack s" and index: "ta_index ?t = ta_index s'" and lows: "ta_low ?t = ta_low s'"
    and next_i: "ta_next ?t = ta_next s'" and comps: "set (ta_components ?t) = insert (sort (new @ [v])) (set (ta_components s'))"
    by (simp_all add: t)
  have fin: "finished ?t = ?C \<union> finished s'" unfolding comps by auto
  have old: "y \<in> set (ta_stack s')" "y \<notin> ?C" "idx ?t y = idx s y" if "y \<in> set (ta_stack s)" for y
    using that loop_stack [OF l] not_new [OF l i that] same_index [OF l i that] index by auto
  have g: "x \<in> set (ta_stack s)" if "x \<in> gray" for x using that gray_stack [OF i] by blast
  have "inv gray ?t"
  proof (rule invI)
    have "set (ta_stack s') - ?C = set (ta_stack s)" using old(2) unfolding loop_stack [OF l] by auto
    then show "ta_on_stack ?t = set (ta_stack ?t)" using on_stack [OF i'] by (simp add: t)
    show "dom (ta_index ?t) = set (ta_stack ?t) \<union> finished ?t"
      unfolding index fin stack dom_index [OF i'] loop_stack [OF l] by auto
    show "u \<notin> finished ?t" if "u \<in> set (ta_stack ?t)" for u
      using that old [of u] apart [OF i', of u] unfolding fin stack by blast
    show "dom (ta_index ?t) \<subseteq> set vs" unfolding index by (rule known [OF i'])
    show "idx ?t u < ta_next ?t" if "u \<in> dom (ta_index ?t)" for u
      using that unfolding index next_i by (rule bound [OF i'])
    show "sorted_wrt (\<lambda>a b. idx ?t b < idx ?t a) (ta_stack ?t)"
      using descending [OF i'] unfolding stack index loop_stack [OF l] by (simp add: sorted_wrt_append)
    show "gray \<subseteq> set (ta_stack ?t)" unfolding stack by (rule gray_stack [OF i])
    show "b \<in> dom (ta_index ?t)" if "a \<in> dom (ta_index ?t)" "a \<notin> gray" "(a, b) \<in> edge" for a b
      using that unfolding index by (rule end_of_loop_explored [OF l])
    have "distinct (new @ [v])"
      using descending [OF i'] unfolding loop_stack [OF l]
      by (auto simp: sorted_wrt_append dest!: sorted_wrt_distinct)
    then show "distinct c" if "c \<in> set (ta_components ?t)" for c
      using that distincts [OF i', of c] unfolding comps by auto
    show "set c = scc_of a" if "c \<in> set (ta_components ?t)" "a \<in> set c" for c a
    proof (cases "c = sort (new @ [v])")
      case True
      with that(2) have "a \<in> ?C" by simp
      from popped_component [OF l i below low this] True show ?thesis by simp
    next
      case False
      with that(1) have "c \<in> set (ta_components s')" unfolding comps by simp
      then show ?thesis using that(2) by (rule sccs [OF i'])
    qed
    show "b \<in> finished ?t" if "a \<in> finished ?t" "(a, b) \<in> edge" for a b
      using that popped_edges [OF l i low _ that(2)] finished_closed [OF i' _ that(2)] unfolding fin by blast
    show "\<exists>x \<in> gray. idx ?t x \<le> idx ?t y \<and> reach y x" if "y \<in> set (ta_stack ?t)" for y
    proof -
      from that have y: "y \<in> set (ta_stack s)" unfolding stack .
      obtain x where x: "x \<in> gray" "idx s x \<le> idx s y" "reach y x" using down [OF i y] by blast
      then have "idx ?t x \<le> idx ?t y" using old(3) [OF y] old(3) [OF g] by simp
      with x show ?thesis by blast
    qed
    show "reach x y" if xy: "x \<in> gray" "y \<in> set (ta_stack ?t)" "idx ?t x \<le> idx ?t y" for x y
    proof -
      from xy(2) have y: "y \<in> set (ta_stack s)" unfolding stack .
      from xy(3) have "idx s x \<le> idx s y" using old(3) [OF y] old(3) [OF g [OF xy(1)]] by simp
      then show ?thesis by (rule up [OF i xy(1) y])
    qed
  qed
  then show ?thesis
  proof (rule after_callI)
    show "ta_index ?t u = ta_index s u \<and> ta_low ?t u = ta_low s u" if "u \<in> dom (ta_index s)" for u
      using loop_index [OF l that] loop_low [OF l that] index lows by simp
    show "ta_index ?t v = Some (ta_next s)" using loop_index_v [OF l] index by simp
    show "dom (ta_index s) \<subseteq> dom (ta_index ?t)" using loop_dom [OF l] index by simp
    show "\<exists>y \<in> set (ta_stack ?t). idx ?t y = the (ta_low ?t v) \<and> reach v y" if "v \<in> set (ta_stack ?t)"
      using that old(2) [of v] stack by simp
    show "the (ta_low ?t v) = idx ?t v" using low index lows by simp
  qed (simp_all add: stack)
qed

lemma vertex_done:
  assumes l: "in_loop gray v (set (succs v)) new s s'" and i: "inv gray s" and below: "\<forall>x \<in> gray. reach x v"
  shows "\<exists>new'. after_call gray v new' s (close_vertex v s')"
proof (cases "the (ta_low s' v) = idx s' v")
  case True
  then show ?thesis using vertex_closed [OF l i below] by blast
next
  case False
  then have low: "the (ta_low s' v) < idx s' v" using loop_le [OF l] by simp
  then have t: "close_vertex v s' = s'" by (auto simp: close_vertex_def)
  have "after_call gray v (new @ [v]) s s'"
  proof (rule after_callI)
    show "inv gray s'" by (rule vertex_open [OF l i low])
    show "ta_index s' u = ta_index s u \<and> ta_low s' u = ta_low s u" if "u \<in> dom (ta_index s)" for u
      using loop_index [OF l that] loop_low [OF l that] by simp
    show "the (ta_low s' v) = idx s' v" if "v \<notin> set (ta_stack s')" using that loop_stack [OF l] by simp
    show "the (ta_low s' v) \<le> idx s y"
      if "x \<in> set (new @ [v])" "y \<in> set (ta_stack s)" "(x, y) \<in> edge" for x y
      by (rule end_of_loop_low [OF l that(3,1,2)])
  qed (use loop_stack [OF l] loop_index_v [OF l] loop_dom [OF l] loop_ex [OF l] in simp_all)
  then show ?thesis using t by auto
qed

text \<open>Enough fuel is more than the vertices without an index.\<close>

definition unvisited :: "tarjan \<Rightarrow> nat" where
  "unvisited s = card (set vs - dom (ta_index s))"

lemma unvisited_mono: "dom (ta_index s) \<subseteq> dom (ta_index s') \<Longrightarrow> unvisited s' \<le> unvisited s"
  unfolding unvisited_def by (rule card_mono) auto

lemma unvisited_less:
  assumes "v \<in> set vs" "v \<notin> dom (ta_index s)" "v \<in> dom (ta_index s')" "dom (ta_index s) \<subseteq> dom (ta_index s')"
  shows "unvisited s' < unvisited s"
  unfolding unvisited_def using assms by (intro psubset_card_mono) auto

lemma connect_edges_ok:
  assumes call: "\<And>w s. w \<in> set vs \<Longrightarrow> w \<notin> dom (ta_index s) \<Longrightarrow> inv (insert v gray) s \<Longrightarrow>
      \<forall>x \<in> insert v gray. reach x w \<Longrightarrow> unvisited s < n \<Longrightarrow>
      \<exists>s' added. connect w s = Some s' \<and> after_call (insert v gray) w added s s'"
    and i: "inv gray s" and v: "v \<in> set vs" and below: "\<forall>x \<in> gray. reach x v"
  shows "in_loop gray v past new s s1 \<Longrightarrow> unvisited s1 < n \<Longrightarrow> set ws \<subseteq> set (succs v) \<Longrightarrow>
    \<exists>s' new'. connect_edges connect v ws s1 = Some s' \<and> in_loop gray v (past \<union> set ws) new' s s'"
proof (induction ws arbitrary: past new s1)
  case (Cons w ws)
  have e: "(v, w) \<in> edge" using Cons.prems(3) v by (simp add: edge_def)
  have sub: "set ws \<subseteq> set (succs v)" using Cons.prems(3) by simp
  have past: "insert w past \<union> set ws = past \<union> set (w # ws)" by auto
  show ?case
  proof (cases "ta_index s1 w")
    case None
    then have w: "w \<notin> dom (ta_index s1)" by blast
    have "w \<in> set vs" using closed [OF v] Cons.prems(3) by simp
    moreover have "\<forall>x \<in> insert v gray. reach x w" using below e by (auto intro: rtrancl_into_rtrancl)
    ultimately obtain s2 added where s2: "connect w s1 = Some s2" "after_call (insert v gray) w added s1 s2"
      using call [OF _ w loop_inv [OF Cons.prems(1)] _ Cons.prems(2)] by blast
    note l = in_loop_call [OF Cons.prems(1) i e w s2(2)]
    have "unvisited (lower v (the (ta_low s2 w)) s2) < n"
      using unvisited_mono [OF call_dom [OF s2(2)]] Cons.prems(2) by (simp add: unvisited_def)
    from Cons.IH [OF l this sub] show ?thesis using None s2(1) unfolding past by simp
  next
    case (Some k)
    then have w: "w \<in> dom (ta_index s1)" by blast
    note l = in_loop_visited [OF Cons.prems(1) i e w]
    have "unvisited (if w \<in> ta_on_stack s1 then lower v (idx s1 w) s1 else s1) < n"
      using Cons.prems(2) by (simp add: unvisited_def)
    from Cons.IH [OF l this sub] show ?thesis using Some unfolding past by (simp split: if_splits)
  qed
qed auto

lemma strong_connect_ok:
  "v \<in> set vs \<Longrightarrow> v \<notin> dom (ta_index s) \<Longrightarrow> inv gray s \<Longrightarrow> \<forall>x \<in> gray. reach x v \<Longrightarrow> unvisited s < n \<Longrightarrow>
   \<exists>s' added. strong_connect n succs v s = Some s' \<and> after_call gray v added s s'"
proof (induction n arbitrary: v s gray)
  case (Suc n)
  note l = in_loop_start [OF Suc.prems(3,1,2,4)]
  have "dom (ta_index (open_vertex v s)) = insert v (dom (ta_index s))" by (auto simp: open_vertex_def)
  then have "unvisited (open_vertex v s) < unvisited s" by (intro unvisited_less [OF Suc.prems(1,2)]) auto
  then have "unvisited (open_vertex v s) < n" using Suc.prems(5) by simp
  have "\<exists>s' new'. connect_edges (strong_connect n succs) v (succs v) (open_vertex v s) = Some s' \<and>
      in_loop gray v ({} \<union> set (succs v)) new' s s'"
    by (rule connect_edges_ok [OF _ Suc.prems(3,1,4) l \<open>unvisited (open_vertex v s) < n\<close> subset_refl]) (rule Suc.IH)
  then obtain s' new' where s': "connect_edges (strong_connect n succs) v (succs v) (open_vertex v s) = Some s'"
    "in_loop gray v (set (succs v)) new' s s'" unfolding Un_empty_left by blast
  from vertex_done [OF s'(2) Suc.prems(3,4)] show ?case unfolding strong_connect.simps s'(1) option.map by blast
qed simp

lemma connect_all_ok:
  "inv {} s \<Longrightarrow> ta_stack s = [] \<Longrightarrow> unvisited s < n \<Longrightarrow> set ws \<subseteq> set vs \<Longrightarrow>
   \<exists>s'. connect_all n succs ws s = Some s' \<and> inv {} s' \<and> ta_stack s' = [] \<and>
     dom (ta_index s) \<union> set ws \<subseteq> dom (ta_index s')"
proof (induction ws arbitrary: s)
  case (Cons w ws)
  show ?case
  proof (cases "ta_index s w")
    case None
    then obtain s1 added where s1: "strong_connect n succs w s = Some s1" "after_call {} w added s s1"
      using strong_connect_ok [of w s "{}" n] Cons.prems by auto
    have "ta_stack s1 = []" using down [OF call_inv [OF s1(2)]] by (cases "ta_stack s1") auto
    moreover have "unvisited s1 < n" using unvisited_mono [OF call_dom [OF s1(2)]] Cons.prems(3) by simp
    ultimately obtain s' where "connect_all n succs ws s1 = Some s'" "inv {} s'" "ta_stack s' = []"
      "dom (ta_index s1) \<union> set ws \<subseteq> dom (ta_index s')"
      using Cons.IH [OF call_inv [OF s1(2)]] Cons.prems(4) by auto
    then show ?thesis using None s1(1) call_dom [OF s1(2)] call_index_v [OF s1(2)] by auto
  next
    case (Some k)
    then have "w \<in> dom (ta_index s)" by blast
    moreover from Cons.IH [OF Cons.prems(1-3)] Cons.prems(4)
    obtain s' where "connect_all n succs ws s = Some s'" "inv {} s'" "ta_stack s' = []"
      "dom (ta_index s) \<union> set ws \<subseteq> dom (ta_index s')" by auto
    ultimately show ?thesis using Some by auto
  qed
qed simp

theorem components_exact:
  "\<exists>cs. strongly_connected succs vs = Some cs \<and> (\<forall>c \<in> set cs. distinct c) \<and>
    (\<forall>c \<in> set cs. \<forall>a \<in> set c. set c = scc_of a) \<and> \<Union> (set ` set cs) = set vs"
proof -
  have "inv {} start_tarjan" by (rule invI) (auto simp: start_tarjan_def)
  moreover have "unvisited start_tarjan < Suc (length vs)"
    by (simp add: unvisited_def start_tarjan_def less_Suc_eq_le card_length)
  ultimately obtain s' where s': "connect_all (Suc (length vs)) succs vs start_tarjan = Some s'" "inv {} s'"
    "ta_stack s' = []" "set vs \<subseteq> dom (ta_index s')"
    using connect_all_ok [of start_tarjan "Suc (length vs)" vs] by (auto simp: start_tarjan_def)
  then have "finished s' = set vs" using dom_index [OF s'(2)] known [OF s'(2)] by auto
  moreover have "\<forall>c \<in> set (ta_components s'). \<forall>a \<in> set c. set c = scc_of a" using sccs [OF s'(2)] by blast
  moreover have "\<forall>c \<in> set (ta_components s'). distinct c" using distincts [OF s'(2)] by blast
  ultimately show ?thesis using s'(1) by (auto simp: strongly_connected_def)
qed

end

section \<open>The cycles that are reported\<close>

text \<open>Which variable refers to which, as lint sees it.\<close>

definition refers :: "semantic_index \<Rightarrow> (string \<times> string) set" where
  "refers ix = {(ed_from e, ed_to e) | e. e \<in> set (resolved_edges ix)}"

lemma graph_edges_push:
  "graph_edges (push_graph_edge e g) i = graph_edges g i @ (if ed_from e = i then [e] else [])"
  by (auto simp: graph_edges_def push_graph_edge_def map_of_bm_insert)

lemma graph_edges_fold:
  "graph_edges (fold push_graph_edge es g) i = graph_edges g i @ filter (\<lambda>e. ed_from e = i) es"
  by (induction es arbitrary: g) (auto simp: graph_edges_push)

lemma graph_edges_exact:
  "graph_edges (variable_reference_graph ix) i = filter (\<lambda>e. ed_from e = i) (resolved_edges ix)"
proof -
  have "graph_edges (bm_of (map (\<lambda>i. (i, [])) ids)) i = []" for ids
    by (auto simp: graph_edges_def map_of_bm_of map_of_map rev_map [symmetric] split: option.splits
        dest!: map_of_SomeD)
  then show ?thesis by (simp add: variable_reference_graph_def graph_edges_fold)
qed

lemma edges_declared:
  assumes "e \<in> set (resolved_edges ix)"
  shows "ed_from e \<in> set (declared_variables ix)" "ed_to e \<in> set (declared_variables ix)"
proof -
  have site: "ed_from e = v" if "e \<in> set (site_edges v site field)" for v site field
    using that by (auto simp: site_edges_def split: option.splits project_field.splits)
  have "ed_from e = vn_id vn" if "e \<in> set (variable_edges vn)" for vn
    using that by (auto simp: variable_edges_def dest!: site split: resolve_node.splits option.splits
        rule_collection.splits if_splits)
  then show "ed_from e \<in> set (declared_variables ix)" "ed_to e \<in> set (declared_variables ix)"
    using assms by (auto simp: resolved_edges_def declared_variables_def)
qed

lemma graph_keys: "set (map fst (variable_reference_graph ix)) = set (declared_variables ix)"
proof -
  have "fst ` set (fold push_graph_edge es g) = fst ` set g \<union> ed_from ` set es" for es g
    by (induction es arbitrary: g) (auto simp: push_graph_edge_def fst_bm_insert)
  then show ?thesis
    using edges_declared(1) by (auto simp: variable_reference_graph_def fst_set_bm_of image_image)
qed

interpretation cycles: directed_graph "\<lambda>i. map ed_to (graph_edges (variable_reference_graph ix) i)"
  "map fst (variable_reference_graph ix)" for ix
  by unfold_locales (use graph_keys edges_declared(2) in \<open>auto simp: graph_edges_exact\<close>)

lemma refers_edge: "cycles.edge ix = refers ix"
  unfolding cycles.edge_def graph_keys using edges_declared(1) by (auto simp: refers_def graph_edges_exact)

lemma cycle_edges_refer:
  "e \<in> set (cycle_edges (variable_reference_graph ix) c) \<longleftrightarrow>
     e \<in> set (resolved_edges ix) \<and> ed_from e \<in> set c \<and> ed_to e \<in> set c"
  by (auto simp: cycle_edges_def graph_edges_exact)

lemma component_is_cycle_iff:
  assumes "distinct c" "\<forall>a \<in> set c. set c = cycles.scc_of ix a" "i \<in> set c"
  shows "component_is_cycle (variable_reference_graph ix) c \<longleftrightarrow> (i, i) \<in> (refers ix)\<^sup>+"
proof
  have c: "set c = {b. (i, b) \<in> (refers ix)\<^sup>* \<and> (b, i) \<in> (refers ix)\<^sup>*}"
    using assms(2,3) by (simp add: cycles.scc_of_def refers_edge)
  assume "component_is_cycle (variable_reference_graph ix) c"
  then consider "1 < length c" | e where "e \<in> set (resolved_edges ix)" "ed_from e \<in> set c" "ed_to e = ed_from e"
    unfolding component_is_cycle_def list_ex_iff using cycle_edges_refer [of _ ix c] by metis
  then show "(i, i) \<in> (refers ix)\<^sup>+"
  proof cases
    case 1
    have "\<exists>b \<in> set c. b \<noteq> i"
    proof (rule ccontr)
      assume "\<not> (\<exists>b \<in> set c. b \<noteq> i)"
      then have "card (set c) \<le> card {i}" by (intro card_mono) auto
      with 1 assms(1) show False by (simp add: distinct_card)
    qed
    then obtain b where "b \<noteq> i" "(i, b) \<in> (refers ix)\<^sup>*" "(b, i) \<in> (refers ix)\<^sup>*" unfolding c by blast
    then show ?thesis by (metis rtranclD trancl_rtrancl_trancl)
  next
    case 2
    then have "(ed_from e, ed_from e) \<in> refers ix" unfolding refers_def by auto
    with 2(2) c show ?thesis by (metis (mono_tags, lifting) mem_Collect_eq rtrancl_into_trancl1 trancl_rtrancl_trancl)
  qed
next
  have c: "set c = {b. (i, b) \<in> (refers ix)\<^sup>* \<and> (b, i) \<in> (refers ix)\<^sup>*}"
    using assms(2,3) by (simp add: cycles.scc_of_def refers_edge)
  assume "(i, i) \<in> (refers ix)\<^sup>+"
  then obtain b where b: "(i, b) \<in> refers ix" "(b, i) \<in> (refers ix)\<^sup>*" by (meson tranclD)
  then have bc: "b \<in> set c" unfolding c by blast
  from b(1) obtain e where e: "e \<in> set (resolved_edges ix)" "ed_from e = i" "ed_to e = b"
    by (auto simp: refers_def)
  show "component_is_cycle (variable_reference_graph ix) c"
  proof (cases "b = i")
    case True
    then show ?thesis
      using e assms(3) cycle_edges_refer [of e ix c] unfolding component_is_cycle_def list_ex_iff by metis
  next
    case False
    have "card {b, i} \<le> card (set c)" using bc assms(3) by (intro card_mono) auto
    then have "1 < length c" using False assms(1) by (simp add: distinct_card)
    then show ?thesis by (simp add: component_is_cycle_def)
  qed
qed

text \<open>C30 cycles_reported_exactly: the lint of reference cycles always ends, and it reports a variable exactly
  when the variable refers to itself, directly or through others, in the conditions of rules, the filters and
  the sort keys lint has the references of.\<close>

theorem cycles_reported_exactly:
  "\<exists>ds. lint_variable_cycles ix = Some ds \<and>
     (\<forall>i. i \<in> cd_variable ` set ds \<longleftrightarrow> (i, i) \<in> (refers ix)\<^sup>+)"
proof -
  let ?g = "variable_reference_graph ix"
  obtain cs where cs: "strongly_connected_variables ?g = Some cs" "\<forall>c \<in> set cs. distinct c"
    "\<forall>c \<in> set cs. \<forall>a \<in> set c. set c = cycles.scc_of ix a" "\<Union> (set ` set cs) = set (declared_variables ix)"
    using cycles.components_exact [of ix] unfolding graph_keys strongly_connected_variables_def by blast
  have "i \<in> \<Union> (set ` set (filter (component_is_cycle ?g) cs)) \<longleftrightarrow> (i, i) \<in> (refers ix)\<^sup>+" for i
  proof (cases "i \<in> set (declared_variables ix)")
    case True
    then obtain c where "c \<in> set cs" "i \<in> set c" using cs(4) by blast
    then show ?thesis using cs(2,3) component_is_cycle_iff by auto
  next
    case False
    have "(i, i) \<notin> (refers ix)\<^sup>+"
    proof
      assume "(i, i) \<in> (refers ix)\<^sup>+"
      then obtain b where "(i, b) \<in> refers ix" by (meson tranclD)
      with False show False using edges_declared(1) by (auto simp: refers_def)
    qed
    with False cs(4) show ?thesis by auto
  qed
  moreover have "cd_variable (cycle_diagnostic_of ?g c v) = v" for c v
    by (simp add: cycle_diagnostic_of_def Let_def)
  ultimately show ?thesis
    unfolding lint_variable_cycles_def Let_def cs(1) by (auto simp: image_iff)
qed

end
