(* ===== verification/Diff.thy ===== *)
theory Diff
  imports LayerLint "HOL-Library.Product_Lexorder"
begin

text \<open>
  The semantic diff of two packages (src/src/lint/diff.rs, with the targets of
  src/src/diagnostics.rs): the model of a package with the values worth comparing, one comparison
  per kind of entity, and the changes with the target each is about. Source locations are left out.
\<close>

section \<open>Targets and changes\<close>

datatype semantic_entity =
    EPackage
  | EManifest
  | EVariable string
  | EList string
  | ELayer string
  | EGovernance
  | ECatalog string
  | ECatalogEntry string string
  | EEvaluationContext string
  | EEvaluationContextSample string string
  | EValue string string
  | ERule string nat
  | ECustomLint string

datatype semantic_field =
    FPackageExtends
  | FSchemaVersion
  | FDescription
  | FVariableType
  | FVariableSchema
  | FVariableValues
  | FVariableResolve
  | FVariableResolveDefault
  | FVariableRuleWhen
  | FVariableRuleValue
  | FVariableQueryFilter
  | FVariableQuerySort
  | FVariableAllocation
  | FVariableAssignValue
  | FValue
  | FValueJsonPath "string list"
  | FSchemaJson
  | FSchemaJsonPath "string list"
  | FEvaluationContextSample
  | FCatalogEntry

record semantic_target =
  tg_entity :: semantic_entity
  tg_field :: "semantic_field option"

definition entity_target :: "semantic_entity \<Rightarrow> semantic_target" where
  "entity_target e = \<lparr>tg_entity = e, tg_field = None\<rparr>"

definition field_target :: "semantic_entity \<Rightarrow> semantic_field \<Rightarrow> semantic_target" where
  "field_target e f = \<lparr>tg_entity = e, tg_field = Some f\<rparr>"

record semantic_change =
  sc_kind :: string
  sc_target :: semantic_target
  sc_before :: "json option"
  sc_after :: "json option"
  sc_detail :: "json option"

section \<open>The model of a package\<close>

text \<open>What the diff reads of the index beyond what the compiler reads: the inline values of each
  variable and the samples of each evaluation context.\<close>

record diff_index = semantic_index +
  dx_values :: "json smap smap"
  dx_samples :: "json option smap smap"

record 'a field_semantic =
  fs_target :: semantic_target
  fs_value :: 'a

record rule_semantic =
  ru_target :: semantic_target
  ru_when :: "string field_semantic option"
  ru_value :: "json field_semantic option"

record variable_semantic =
  va_target :: semantic_target
  va_type_source :: "json field_semantic option"
  va_values :: "json field_semantic smap"
  va_resolve_default :: "json field_semantic option"
  va_rules :: "rule_semantic list"
  va_resolve_shape :: "json field_semantic option"

record allocation_semantic =
  ac_target :: semantic_target
  ac_status :: json
  ac_eligibility :: json
  ac_arms :: json

record package_semantic_model =
  pm_variables :: "variable_semantic smap"
  pm_catalogs :: "json option field_semantic smap"
  pm_catalog_entries :: "(string \<times> string, json field_semantic) bmap"
  pm_lists :: "json field_semantic smap"
  pm_evaluation_contexts :: "json option field_semantic smap"
  pm_samples :: "(string \<times> string, json field_semantic) bmap"
  pm_layers :: "json field_semantic smap"
  pm_allocations :: "(string \<times> string, allocation_semantic) bmap"

text \<open>\<open>json!\<close> of an object and of an optional value.\<close>

definition json_object :: "(string \<times> json) list \<Rightarrow> json" where
  "json_object kvs = JObject (bm_of kvs)"

definition json_of_option :: "json option \<Rightarrow> json" where
  "json_of_option v = (case v of Some j \<Rightarrow> j | None \<Rightarrow> JNull)"

definition present_expression_source_field :: "expression project_field \<Rightarrow> json" where
  "present_expression_source_field field = (case field of Present e \<Rightarrow> JString (source e) | _ \<Rightarrow> JNull)"

definition present_string_project_field :: "string project_field \<Rightarrow> json" where
  "present_string_project_field field = (case field of Present s \<Rightarrow> JString s | _ \<Rightarrow> JNull)"

definition variable_type_source :: "type_source \<Rightarrow> json option \<times> semantic_field" where
  "variable_type_source ts =
     (case ts of
        PrimitiveSource t \<Rightarrow>
          (Some (json_object [(''kind'', JString ''primitive''), (''type'', JString t)]), FVariableType)
      | CatalogSource c \<Rightarrow>
          (Some (json_object [(''kind'', JString ''catalog''), (''catalog'', JString c)]), FVariableType)
      | SchemaSource s \<Rightarrow>
          (Some (json_object [(''kind'', JString ''schema''), (''schema'', JString s)]), FVariableSchema)
      | _ \<Rightarrow> (None, FVariableType))"

definition query_shape :: "query_node \<Rightarrow> json" where
  "query_shape q = json_object
     [(''from'', present_string_project_field (qn_from q)),
      (''filter'', json_of_option (map_option present_expression_source_field (qn_filter q))),
      (''sort'', json_of_option (map_option present_expression_source_field (qn_sort q))),
      (''order'', case qn_order q of Some (Present s) \<Rightarrow> JString s | _ \<Rightarrow> JNull),
      (''limit'', case qn_limit q of Some (Present n) \<Rightarrow> JNumber (JInt n) | _ \<Rightarrow> JNull)]"

definition assign_pair :: "assign_node \<Rightarrow> (string \<times> json) option" where
  "assign_pair a =
     (case (an_arm a, an_value a) of (Present arm, Present v) \<Rightarrow> Some (arm, v) | _ \<Rightarrow> None)"

definition assignments_shape :: "assignments_node \<Rightarrow> json" where
  "assignments_shape a = json_object
     [(''allocation'', present_string_project_field (as_allocation a)),
      (''assigns'', JObject (bm_of (List.map_filter assign_pair (as_assigns a))))]"

definition resolve_shape :: "resolve_body \<Rightarrow> json" where
  "resolve_shape b = json_object
     [(''method'', JString (case rb_method b of Some m \<Rightarrow> m | None \<Rightarrow> ''rules'')),
      (''query'', json_of_option (map_option query_shape (rb_query b))),
      (''allocation'', json_of_option (map_option assignments_shape (rb_assignments b)))]"

definition rule_semantic_of :: "string \<Rightarrow> rule_node \<Rightarrow> rule_semantic" where
  "rule_semantic_of v r =
     \<lparr>ru_target = entity_target (ERule v (rn_index r)),
      ru_when = (case rn_when r of
         Some (Present e) \<Rightarrow> Some \<lparr>fs_target = field_target (ERule v (rn_index r)) FVariableRuleWhen, fs_value = source e\<rparr>
       | _ \<Rightarrow> None),
      ru_value = (case rn_value r of
         Present j \<Rightarrow> Some \<lparr>fs_target = field_target (ERule v (rn_index r)) FVariableRuleValue, fs_value = j\<rparr>
       | _ \<Rightarrow> None)\<rparr>"

definition variable_semantic_of :: "json smap \<Rightarrow> variable_node \<Rightarrow> variable_semantic" where
  "variable_semantic_of inline_values vn =
     (let e = EVariable (vn_id vn);
          (type_value, type_field) = variable_type_source (vn_type_source vn) in
      \<lparr>va_target = entity_target e,
       va_type_source = map_option (\<lambda>v. \<lparr>fs_target = field_target e type_field, fs_value = v\<rparr>) type_value,
       va_values = bm_of (map (\<lambda>(k, v). (k, \<lparr>fs_target = entity_target (EValue (vn_id vn) k), fs_value = v\<rparr>))
         inline_values),
       va_resolve_default = (case vn_resolve vn of
          Resolve b \<Rightarrow> Some \<lparr>fs_target = field_target e FVariableResolveDefault,
            fs_value = (case rb_default b of Present v \<Rightarrow> v | _ \<Rightarrow> JNull)\<rparr>
        | _ \<Rightarrow> None),
       va_rules = (case vn_resolve vn of
          Resolve b \<Rightarrow> (case rb_rules b of
             Rules rules \<Rightarrow> map (rule_semantic_of (vn_id vn)) rules | InvalidRules \<Rightarrow> [])
        | _ \<Rightarrow> []),
       va_resolve_shape = (case vn_resolve vn of
          Resolve b \<Rightarrow> Some \<lparr>fs_target = field_target e FVariableResolve, fs_value = resolve_shape b\<rparr>
        | _ \<Rightarrow> None)\<rparr>)"

definition list_semantic_of :: "list_node \<Rightarrow> json field_semantic" where
  "list_semantic_of l =
     \<lparr>fs_target = entity_target (EList (ln_id l)),
      fs_value = json_object
        [(''type'', present_string_project_field (ln_member_type l)),
         (''members'', case ln_members l of Present ms \<Rightarrow> JArray ms | _ \<Rightarrow> JNull)]\<rparr>"

definition layer_semantic_of :: "layer_node \<Rightarrow> json field_semantic" where
  "layer_semantic_of ly =
     \<lparr>fs_target = entity_target (ELayer (ly_id ly)),
      fs_value = json_object
        [(''unit'', present_expression_source_field (ly_unit ly)),
         (''buckets'', case ly_buckets ly of Present n \<Rightarrow> JNumber (JInt n) | _ \<Rightarrow> JNull)]\<rparr>"

definition arm_pair :: "arm_node \<Rightarrow> (string \<times> json) option" where
  "arm_pair a =
     (case (am_name a, am_buckets a) of (Present n, Present b) \<Rightarrow> Some (n, JString b) | _ \<Rightarrow> None)"

definition allocation_semantic_of :: "layer_node \<Rightarrow> allocation_node \<Rightarrow> allocation_semantic" where
  "allocation_semantic_of ly al =
     \<lparr>ac_target = entity_target (ELayer (ly_id ly)),
      ac_status = JString (case al_status al of Some (Present s) \<Rightarrow> s | _ \<Rightarrow> ''running''),
      ac_eligibility = (case al_eligibility al of Some (Present e) \<Rightarrow> JString (source e) | _ \<Rightarrow> JNull),
      ac_arms = JObject (bm_of (List.map_filter arm_pair (al_arms al)))\<rparr>"

definition layer_allocations :: "layer_node \<Rightarrow> ((string \<times> string) \<times> allocation_semantic) list" where
  "layer_allocations ly = List.map_filter
     (\<lambda>al. case al_id al of Present i \<Rightarrow> Some ((ly_id ly, i), allocation_semantic_of ly al) | _ \<Rightarrow> None)
     (ly_allocations ly)"

definition package_model :: "diff_index \<Rightarrow> package_semantic_model" where
  "package_model ix =
     \<lparr>pm_variables = bm_of (map (\<lambda>(k, vn). (vn_id vn, variable_semantic_of
        (case map_of (dx_values ix) k of Some vs \<Rightarrow> vs | None \<Rightarrow> []) vn)) (ix_variables ix)),
      pm_catalogs = bm_of (map (\<lambda>(c, j). (c, \<lparr>fs_target = entity_target (ECatalog c), fs_value = j\<rparr>)) (ix_catalogs ix)),
      pm_catalog_entries = bm_of (concat (map (\<lambda>(c, es). map (\<lambda>(k, v).
        ((c, k), \<lparr>fs_target = entity_target (ECatalogEntry c k), fs_value = v\<rparr>)) es) (ix_catalog_entries ix))),
      pm_lists = bm_of (map (\<lambda>(_, l). (ln_id l, list_semantic_of l)) (ix_lists ix)),
      pm_evaluation_contexts = bm_of (map (\<lambda>(_, n). (en_id n,
        \<lparr>fs_target = entity_target (EEvaluationContext (en_id n)), fs_value = en_json n\<rparr>)) (ix_evaluation_contexts ix)),
      pm_samples = bm_of (concat (map (\<lambda>(c, ss). map (\<lambda>(k, v).
        ((c, k), \<lparr>fs_target = entity_target (EEvaluationContextSample c k), fs_value = json_of_option v\<rparr>)) ss)
        (dx_samples ix))),
      pm_layers = bm_of (map (\<lambda>(_, ly). (ly_id ly, layer_semantic_of ly)) (ix_layers ix)),
      pm_allocations = bm_of (concat (map (\<lambda>(_, ly). layer_allocations ly) (ix_layers ix)))\<rparr>"

section \<open>Changes\<close>

definition sorted_keys :: "'k::linorder list \<Rightarrow> 'k list \<Rightarrow> 'k bset" where
  "sorted_keys left right = fold bs_insert (left @ right) []"

lemma set_sorted_keys [simp]: "set (sorted_keys left right) = set left \<union> set right"
proof -
  have "set (fold bs_insert xs ys) = set xs \<union> set ys" for xs ys :: "'a list"
    by (induction xs arbitrary: ys) auto
  then show ?thesis by (auto simp: sorted_keys_def)
qed

lemma sorted_keys_sorted: "sorted_wrt (<) (sorted_keys left right)"
proof -
  have "sorted_wrt (<) ys \<Longrightarrow> sorted_wrt (<) (fold bs_insert xs ys)" for xs ys :: "'a list"
    by (induction xs arbitrary: ys) (simp_all add: bs_insert_sorted)
  then show ?thesis by (simp add: sorted_keys_def)
qed

lemma sorted_keys_distinct [simp]: "distinct (sorted_keys left right)"
  using sorted_keys_sorted [of left right] by (auto simp: strict_sorted_iff)

definition plain_change :: "string \<Rightarrow> semantic_target \<Rightarrow> json option \<Rightarrow> json option \<Rightarrow> semantic_change" where
  "plain_change kind target before after =
     \<lparr>sc_kind = kind, sc_target = target, sc_before = before, sc_after = after, sc_detail = None\<rparr>"

definition push_json_change :: "string \<Rightarrow> semantic_target \<Rightarrow> json \<Rightarrow> json \<Rightarrow> semantic_change list" where
  "push_json_change kind target before after = [plain_change kind target (Some before) (Some after)]"

definition push_added :: "string \<Rightarrow> semantic_target \<Rightarrow> semantic_change list" where
  "push_added kind target = [plain_change kind target None None]"

definition push_removed :: "string \<Rightarrow> semantic_target \<Rightarrow> semantic_change list" where
  "push_removed kind target = [plain_change kind target None None]"

definition push_added_json :: "string \<Rightarrow> semantic_target \<Rightarrow> json \<Rightarrow> semantic_change list" where
  "push_added_json kind target v = [plain_change kind target None (Some v)]"

definition push_removed_json :: "string \<Rightarrow> semantic_target \<Rightarrow> json \<Rightarrow> semantic_change list" where
  "push_removed_json kind target v = [plain_change kind target (Some v) None]"

definition target_with_json_path :: "semantic_target \<Rightarrow> string list \<Rightarrow> semantic_target" where
  "target_with_json_path target path =
     (if path = [] then target
      else (case tg_entity target of
              EValue _ _ \<Rightarrow> field_target (tg_entity target) (FValueJsonPath path)
            | ECatalogEntry _ _ \<Rightarrow> field_target (tg_entity target) (FValueJsonPath path)
            | EList _ \<Rightarrow> field_target (tg_entity target) (FValueJsonPath path)
            | EEvaluationContextSample _ _ \<Rightarrow> field_target (tg_entity target) (FValueJsonPath path)
            | ECatalog _ \<Rightarrow> field_target (tg_entity target) (FSchemaJsonPath path)
            | EEvaluationContext _ \<Rightarrow> field_target (tg_entity target) (FSchemaJsonPath path)
            | _ \<Rightarrow> target))"

definition push_json_path_change ::
  "string \<Rightarrow> semantic_target \<Rightarrow> string list \<Rightarrow> json option \<Rightarrow> json option \<Rightarrow> semantic_change list" where
  "push_json_path_change kind target path before after =
     [plain_change kind (target_with_json_path target path) before after]"

lemma size_of_member: "map_of kvs k = Some v \<Longrightarrow> size v < size (JObject kvs)"
proof (induction kvs)
  case (Cons kv kvs)
  then show ?case by (cases kv) (auto split: if_splits)
qed simp

function diff_json_value ::
  "string \<Rightarrow> semantic_target \<Rightarrow> semantic_target \<Rightarrow> string list \<Rightarrow> json \<Rightarrow> json \<Rightarrow> semantic_change list" where
  "diff_json_value kind before_target after_target path before after =
     (if before = after then []
      else (case (before, after) of
              (JObject b, JObject a) \<Rightarrow>
                concat (map (\<lambda>k.
                  (case map_of b k of
                     Some x \<Rightarrow>
                       (case map_of a k of
                          Some y \<Rightarrow> diff_json_value kind before_target after_target (path @ [k]) x y
                        | None \<Rightarrow> push_json_path_change kind before_target (path @ [k]) (Some x) None)
                   | None \<Rightarrow>
                       (case map_of a k of
                          Some y \<Rightarrow> push_json_path_change kind after_target (path @ [k]) None (Some y)
                        | None \<Rightarrow> []))) (sorted_keys (map fst b) (map fst a)))
            | _ \<Rightarrow> push_json_path_change kind after_target path (Some before) (Some after)))"
  by pat_completeness auto

termination
  by (relation "measure (\<lambda>(_, _, _, _, before, _). size before)") (auto dest: size_of_member)

declare diff_json_value.simps [simp del]

definition diff_optional_field ::
  "('a \<Rightarrow> json) \<Rightarrow> string \<Rightarrow> 'a field_semantic option \<Rightarrow> 'a field_semantic option \<Rightarrow> semantic_change list" where
  "diff_optional_field to_json kind before after =
     (case (before, after) of
        (None, Some a) \<Rightarrow> push_added_json kind (fs_target a) (to_json (fs_value a))
      | (Some b, None) \<Rightarrow> push_removed_json kind (fs_target b) (to_json (fs_value b))
      | (Some b, Some a) \<Rightarrow>
          if fs_value b \<noteq> fs_value a
          then push_json_change kind (fs_target a) (to_json (fs_value b)) (to_json (fs_value a)) else []
      | (None, None) \<Rightarrow> [])"

text \<open>The loop over the keys of two maps, with what is pushed for a key on one side and on both.\<close>

definition diff_maps ::
  "('v \<Rightarrow> 'c list) \<Rightarrow> ('v \<Rightarrow> 'c list) \<Rightarrow> ('v \<Rightarrow> 'v \<Rightarrow> 'c list) \<Rightarrow> ('k::linorder, 'v) bmap
   \<Rightarrow> ('k, 'v) bmap \<Rightarrow> 'c list" where
  "diff_maps added removed changed before after =
     concat (map (\<lambda>k.
       (case (map_of before k, map_of after k) of
          (None, Some a) \<Rightarrow> added a
        | (Some b, None) \<Rightarrow> removed b
        | (Some b, Some a) \<Rightarrow> changed b a
        | (None, None) \<Rightarrow> [])) (sorted_keys (map fst before) (map fst after)))"

definition diff_json_field :: "string \<Rightarrow> json field_semantic \<Rightarrow> json field_semantic \<Rightarrow> semantic_change list" where
  "diff_json_field kind b a = diff_json_value kind (fs_target b) (fs_target a) [] (fs_value b) (fs_value a)"

definition diff_schema_field ::
  "string \<Rightarrow> json option field_semantic \<Rightarrow> json option field_semantic \<Rightarrow> semantic_change list" where
  "diff_schema_field kind b a =
     (case (fs_value b, fs_value a) of
        (Some x, Some y) \<Rightarrow> diff_json_value kind (fs_target b) (fs_target a) [] x y
      | _ \<Rightarrow> [])"

definition diff_values :: "json field_semantic smap \<Rightarrow> json field_semantic smap \<Rightarrow> semantic_change list" where
  "diff_values =
     diff_maps (\<lambda>a. push_added_json ''variable_value_added'' (fs_target a) (fs_value a))
       (\<lambda>b. push_removed_json ''variable_value_removed'' (fs_target b) (fs_value b))
       (diff_json_field ''variable_value_changed'')"

fun diff_rules :: "rule_semantic list \<Rightarrow> rule_semantic list \<Rightarrow> semantic_change list" where
  "diff_rules [] [] = []"
| "diff_rules [] (a # as) = push_added ''variable_rule_added'' (ru_target a) @ diff_rules [] as"
| "diff_rules (b # bs) [] = push_removed ''variable_rule_removed'' (ru_target b) @ diff_rules bs []"
| "diff_rules (b # bs) (a # as) =
     diff_optional_field JString ''variable_rule_when_changed'' (ru_when b) (ru_when a)
     @ diff_optional_field id ''variable_rule_value_changed'' (ru_value b) (ru_value a)
     @ diff_rules bs as"

definition diff_variable :: "variable_semantic \<Rightarrow> variable_semantic \<Rightarrow> semantic_change list" where
  "diff_variable b a =
     diff_optional_field id ''variable_type_changed'' (va_type_source b) (va_type_source a)
     @ diff_values (va_values b) (va_values a)
     @ diff_optional_field id ''variable_resolve_default_changed'' (va_resolve_default b) (va_resolve_default a)
     @ diff_rules (va_rules b) (va_rules a)
     @ diff_optional_field id ''variable_resolution_changed'' (va_resolve_shape b) (va_resolve_shape a)"

definition diff_variables :: "package_semantic_model \<Rightarrow> package_semantic_model \<Rightarrow> semantic_change list" where
  "diff_variables b a =
     diff_maps (\<lambda>v. push_added ''variable_added'' (va_target v)) (\<lambda>v. push_removed ''variable_removed'' (va_target v))
       diff_variable (pm_variables b) (pm_variables a)"

definition diff_catalogs :: "package_semantic_model \<Rightarrow> package_semantic_model \<Rightarrow> semantic_change list" where
  "diff_catalogs b a =
     diff_maps (\<lambda>c. push_added ''catalog_added'' (fs_target c)) (\<lambda>c. push_removed ''catalog_removed'' (fs_target c))
       (diff_schema_field ''catalog_schema_changed'') (pm_catalogs b) (pm_catalogs a)
     @ diff_maps (\<lambda>e. push_added_json ''catalog_entry_added'' (fs_target e) (fs_value e))
       (\<lambda>e. push_removed_json ''catalog_entry_removed'' (fs_target e) (fs_value e))
       (diff_json_field ''catalog_entry_changed'') (pm_catalog_entries b) (pm_catalog_entries a)"

definition diff_lists :: "package_semantic_model \<Rightarrow> package_semantic_model \<Rightarrow> semantic_change list" where
  "diff_lists b a =
     diff_maps (\<lambda>l. push_added_json ''list_added'' (fs_target l) (fs_value l))
       (\<lambda>l. push_removed_json ''list_removed'' (fs_target l) (fs_value l))
       (diff_json_field ''list_changed'') (pm_lists b) (pm_lists a)"

definition diff_evaluation_contexts :: "package_semantic_model \<Rightarrow> package_semantic_model \<Rightarrow> semantic_change list" where
  "diff_evaluation_contexts b a =
     diff_maps (\<lambda>c. push_added ''evaluation_context_added'' (fs_target c))
       (\<lambda>c. push_removed ''evaluation_context_removed'' (fs_target c))
       (diff_schema_field ''evaluation_context_schema_changed'') (pm_evaluation_contexts b) (pm_evaluation_contexts a)
     @ diff_maps (\<lambda>e. push_added_json ''sample_added'' (fs_target e) (fs_value e))
       (\<lambda>e. push_removed_json ''sample_removed'' (fs_target e) (fs_value e))
       (diff_json_field ''sample_changed'') (pm_samples b) (pm_samples a)"

section \<open>Layers\<close>

text \<open>
  A range is \<open>N-M\<close> or \<open>N\<close>, of 64-bit numbers here. A bucket claimed twice goes to the later arm in the
  order of names.
\<close>

definition bucket_range :: "string \<Rightarrow> (nat \<times> nat) option" where
  "bucket_range text =
     (let (low, high) = (case split_once (CHR ''-'') text of
            Some (l, h) \<Rightarrow> (parse_unsigned (2 ^ 64) (trim l), parse_unsigned (2 ^ 64) (trim h))
          | None \<Rightarrow> (parse_unsigned (2 ^ 64) (trim text), parse_unsigned (2 ^ 64) (trim text))) in
      case (low, high) of (Some l, Some h) \<Rightarrow> if l \<le> h then Some (l, h) else None | _ \<Rightarrow> None)"

definition claim_range :: "string \<Rightarrow> string \<Rightarrow> (nat, string) bmap \<Rightarrow> (nat, string) bmap" where
  "claim_range arm text claims =
     (case bucket_range text of
        Some (low, high) \<Rightarrow> fold (\<lambda>b. bm_insert b arm) [low..<Suc high] claims
      | None \<Rightarrow> claims)"

definition range_texts :: "json \<Rightarrow> string list" where
  "range_texts ranges =
     (case ranges of JString text \<Rightarrow> [text] | JArray rs \<Rightarrow> List.map_filter as_str rs | _ \<Rightarrow> [])"

definition bucket_claims :: "json \<Rightarrow> (nat, string) bmap" where
  "bucket_claims arms =
     (case arms of JObject m \<Rightarrow> fold (\<lambda>(arm, ranges). fold (claim_range arm) (range_texts ranges)) m [] | _ \<Rightarrow> [])"

definition count_buckets :: "(string option \<Rightarrow> string option \<Rightarrow> bool) \<Rightarrow> json \<Rightarrow> json \<Rightarrow> nat" where
  "count_buckets p before after =
     (let b = bucket_claims before; a = bucket_claims after in
      length (filter (\<lambda>k. p (map_of b k) (map_of a k)) (sorted_keys (map fst b) (map fst a))))"

definition claimed_buckets :: "json \<Rightarrow> json \<Rightarrow> nat" where
  "claimed_buckets = count_buckets (\<lambda>b a. b = None \<and> a \<noteq> None)"

definition released_buckets :: "json \<Rightarrow> json \<Rightarrow> nat" where
  "released_buckets = count_buckets (\<lambda>b a. b \<noteq> None \<and> a = None)"

definition reassigned_buckets :: "json \<Rightarrow> json \<Rightarrow> nat" where
  "reassigned_buckets = count_buckets (\<lambda>b a. b \<noteq> None \<and> a \<noteq> None \<and> b \<noteq> a)"

definition push_arms_change :: "allocation_semantic \<Rightarrow> allocation_semantic \<Rightarrow> semantic_change list" where
  "push_arms_change b a =
     (let claimed = claimed_buckets (ac_arms b) (ac_arms a);
          released = released_buckets (ac_arms b) (ac_arms a);
          reassigned = reassigned_buckets (ac_arms b) (ac_arms a) in
      [\<lparr>sc_kind = if 0 < released \<or> 0 < reassigned then ''allocation_arms_reassigned'' else ''allocation_arms_expanded'',
        sc_target = ac_target a, sc_before = Some (ac_arms b), sc_after = Some (ac_arms a),
        sc_detail = Some (json_object
          [(''claimed_buckets'', JNumber (JInt (int claimed))),
           (''released_buckets'', JNumber (JInt (int released))),
           (''reassigned_buckets'', JNumber (JInt (int reassigned)))])\<rparr>])"

definition diff_allocation :: "allocation_semantic \<Rightarrow> allocation_semantic \<Rightarrow> semantic_change list" where
  "diff_allocation b a =
     (if ac_status b \<noteq> ac_status a
      then push_json_change ''allocation_status_changed'' (ac_target a) (ac_status b) (ac_status a) else [])
     @ (if ac_eligibility b \<noteq> ac_eligibility a
        then push_json_change ''allocation_eligibility_changed'' (ac_target a) (ac_eligibility b) (ac_eligibility a)
        else [])
     @ (if ac_arms b \<noteq> ac_arms a then push_arms_change b a else [])"

definition diff_layers :: "package_semantic_model \<Rightarrow> package_semantic_model \<Rightarrow> semantic_change list" where
  "diff_layers b a =
     diff_maps (\<lambda>l. push_added ''layer_added'' (fs_target l)) (\<lambda>l. push_removed ''layer_removed'' (fs_target l))
       (\<lambda>x y. if fs_value x \<noteq> fs_value y
              then push_json_change ''layer_diversion_changed'' (fs_target y) (fs_value x) (fs_value y) else [])
       (pm_layers b) (pm_layers a)
     @ diff_maps (\<lambda>l. push_added ''allocation_added'' (ac_target l))
       (\<lambda>l. push_removed ''allocation_removed'' (ac_target l)) diff_allocation (pm_allocations b) (pm_allocations a)"

definition diff_models :: "package_semantic_model \<Rightarrow> package_semantic_model \<Rightarrow> semantic_change list" where
  "diff_models b a =
     diff_variables b a @ diff_catalogs b a @ diff_lists b a @ diff_evaluation_contexts b a @ diff_layers b a"

section \<open>The changes of a JSON value are a patch\<close>

text \<open>What the sources rely on of a \<open>Map\<close>: one binding for each key, in key order.\<close>

fun json_wf :: "json \<Rightarrow> bool" where
  "json_wf (JArray vs) = list_all json_wf vs"
| "json_wf (JObject m) = (bm_inv m \<and> list_all (\<lambda>kv. json_wf (snd kv)) m)"
| "json_wf _ = True"

lemma json_wf_member: "json_wf (JObject m) \<Longrightarrow> map_of m k = Some x \<Longrightarrow> json_wf x"
  by (auto simp: list_all_iff dest!: map_of_SomeD)

lemma bm_inv_unique:
  assumes "bm_inv m" "bm_inv n" "map_of m = map_of n"
  shows "m = n"
proof -
  have "set m = set n"
    using assms map_of_eq_Some_iff [of m] map_of_eq_Some_iff [of n] bm_inv_distinct by (metis subrelI subset_antisym)
  then show ?thesis
    using assms(1,2) bm_inv_distinct [OF assms(1)] bm_inv_distinct [OF assms(2)]
    by (intro map_sorted_distinct_set_unique [of fst]) (auto simp: bm_inv_def strict_sorted_iff distinct_map)
qed

type_synonym json_edit = "string list \<times> json option \<times> json option"

text \<open>The same walk with paths relative to the value, for the proofs.\<close>

definition under :: "string \<Rightarrow> json_edit list \<Rightarrow> json_edit list" where
  "under k es = map (\<lambda>(q, c). (k # q, c)) es"

function json_edits :: "json \<Rightarrow> json \<Rightarrow> json_edit list" where
  "json_edits before after =
     (if before = after then []
      else (case (before, after) of
              (JObject b, JObject a) \<Rightarrow>
                concat (map (\<lambda>k. under k
                  (case map_of b k of
                     Some x \<Rightarrow> (case map_of a k of Some y \<Rightarrow> json_edits x y | None \<Rightarrow> [([], Some x, None)])
                   | None \<Rightarrow> (case map_of a k of Some y \<Rightarrow> [([], None, Some y)] | None \<Rightarrow> [])))
                  (sorted_keys (map fst b) (map fst a)))
            | _ \<Rightarrow> [([], Some before, Some after)]))"
  by pat_completeness auto

termination
  by (relation "measure (\<lambda>(before, _). size before)") (auto dest: size_of_member)

declare json_edits.simps [simp del]

definition edits_at :: "(string \<times> json) list \<Rightarrow> (string \<times> json) list \<Rightarrow> string \<Rightarrow> json_edit list" where
  "edits_at b a k =
     (case map_of b k of
        Some x \<Rightarrow> (case map_of a k of Some y \<Rightarrow> json_edits x y | None \<Rightarrow> [([], Some x, None)])
      | None \<Rightarrow> (case map_of a k of Some y \<Rightarrow> [([], None, Some y)] | None \<Rightarrow> []))"

lemma json_edits_object:
  "b \<noteq> a \<Longrightarrow> json_edits (JObject b) (JObject a) =
     concat (map (\<lambda>k. under k (edits_at b a k)) (sorted_keys (map fst b) (map fst a)))"
  by (simp add: json_edits.simps [of "JObject b" "JObject a"] edits_at_def)

lemma json_edits_plain:
  "b \<noteq> a \<Longrightarrow> (\<And>m n. b = JObject m \<Longrightarrow> a \<noteq> JObject n) \<Longrightarrow> json_edits b a = [([], Some b, Some a)]"
  by (subst json_edits.simps) (auto split: json.splits)

lemma json_edits_same [simp]: "json_edits b b = []"
  by (simp add: json_edits.simps)

lemma json_edits_cases:
  obtains (same) "b = a" | (object) m n where "b = JObject m" "a = JObject n" "m \<noteq> n"
  | (plain) "b \<noteq> a" "\<And>m n. b = JObject m \<Longrightarrow> a \<noteq> JObject n"
  by (metis json.inject(5))

lemma diff_json_value_edits:
  "diff_json_value kind t t path b a =
     map (\<lambda>(q, x, y). plain_change kind (target_with_json_path t (path @ q)) x y) (json_edits b a)"
proof (induction b a arbitrary: path rule: json_edits.induct)
  case (1 b a)
  show ?case
  proof (cases b a rule: json_edits_cases)
    case same
    then show ?thesis by (simp add: diff_json_value.simps)
  next
    case (object m n)
    have "(case map_of m k of
             Some x \<Rightarrow> (case map_of n k of
                Some y \<Rightarrow> diff_json_value kind t t (path @ [k]) x y
              | None \<Rightarrow> push_json_path_change kind t (path @ [k]) (Some x) None)
           | None \<Rightarrow> (case map_of n k of
                Some y \<Rightarrow> push_json_path_change kind t (path @ [k]) None (Some y) | None \<Rightarrow> []))
        = map (\<lambda>(q, x, y). plain_change kind (target_with_json_path t (path @ q)) x y) (under k (edits_at m n k))"
      if "k \<in> set (sorted_keys (map fst m) (map fst n))" for k
      using 1 [OF _ refl object(1,2) that] object
      by (auto simp: edits_at_def under_def push_json_path_change_def o_def case_prod_unfold split: option.splits)
    then show ?thesis
      using object by (simp add: diff_json_value.simps [of _ _ _ _ "JObject m"] json_edits_object map_concat o_def)
        (intro arg_cong [of _ _ concat] map_cong refl, simp)
  next
    case plain
    then show ?thesis
      by (subst diff_json_value.simps) (auto simp: push_json_path_change_def json_edits_plain [OF plain] split: json.splits)
  qed
qed

fun json_at :: "string list \<Rightarrow> json option \<Rightarrow> json option" where
  "json_at [] j = j"
| "json_at (k # q) (Some (JObject m)) = json_at q (map_of m k)"
| "json_at (k # q) _ = None"

definition put_member :: "string \<Rightarrow> json option \<Rightarrow> (string \<times> json) list \<Rightarrow> (string \<times> json) list" where
  "put_member k v m = (case v of Some x \<Rightarrow> bm_insert k x m | None \<Rightarrow> bm_remove k m)"

fun put_json :: "string list \<Rightarrow> json option \<Rightarrow> json option \<Rightarrow> json option" where
  "put_json [] v j = v"
| "put_json (k # q) v (Some (JObject m)) = Some (JObject (put_member k (put_json q v (map_of m k)) m))"
| "put_json (k # q) v j = j"

lemma put_member: "map_of (put_member k v m) = (map_of m)(k := v)" "bm_inv m \<Longrightarrow> bm_inv (put_member k v m)"
  by (auto simp: put_member_def map_of_bm_insert map_of_bm_remove bm_inv_insert bm_inv_remove split: option.splits)

definition apply_edits :: "json_edit list \<Rightarrow> json option \<Rightarrow> json option" where
  "apply_edits es = fold (\<lambda>(q, _, y). put_json q y) es"

lemma apply_edits_simps [simp]:
  "apply_edits [] j = j" "apply_edits ((q, x, y) # es) j = apply_edits es (put_json q y j)"
  "apply_edits (es @ fs) j = apply_edits fs (apply_edits es j)"
  by (simp_all add: apply_edits_def)

lemma apply_under:
  "bm_inv m \<Longrightarrow> \<exists>m'. apply_edits (under k es) (Some (JObject m)) = Some (JObject m') \<and> bm_inv m' \<and>
     map_of m' = (map_of m)(k := apply_edits es (map_of m k))"
proof (induction es arbitrary: m)
  case (Cons e es)
  obtain q x y where "e = (q, x, y)" by (cases e)
  with Cons.IH [of "put_member k (put_json q y (map_of m k)) m"] Cons.prems show ?case
    by (auto simp: under_def put_member fun_eq_iff)
qed (auto simp: under_def fun_eq_iff)

lemma apply_members:
  assumes "bm_inv m" "distinct ks" "\<And>k. k \<in> set ks \<Longrightarrow> apply_edits (f k) (map_of m k) = g k"
  shows "\<exists>m'. apply_edits (concat (map (\<lambda>k. under k (f k)) ks)) (Some (JObject m)) = Some (JObject m') \<and>
    bm_inv m' \<and> (\<forall>k. map_of m' k = (if k \<in> set ks then g k else map_of m k))"
  using assms
proof (induction ks arbitrary: m)
  case (Cons k ks)
  obtain m' where m': "apply_edits (under k (f k)) (Some (JObject m)) = Some (JObject m')" "bm_inv m'"
    "map_of m' = (map_of m)(k := g k)"
    using apply_under [OF Cons.prems(1), of k "f k"] Cons.prems(3) [of k] by auto
  have "apply_edits (f j) (map_of m' j) = g j" if "j \<in> set ks" for j
    using that Cons.prems(2,3) m'(3) by auto
  from Cons.IH [OF m'(2) _ this] Cons.prems(2) m' show ?case by auto
qed auto

lemma edits_patch: "json_wf b \<Longrightarrow> json_wf a \<Longrightarrow> apply_edits (json_edits b a) (Some b) = Some a"
proof (induction b a rule: json_edits.induct)
  case (1 b a)
  show ?case
  proof (cases b a rule: json_edits_cases)
    case (object m n)
    let ?ks = "sorted_keys (map fst m) (map fst n)"
    have "apply_edits (edits_at m n k) (map_of m k) = map_of n k" if "k \<in> set ?ks" for k
      using 1(1) [OF _ refl object(1,2) that] 1(2,3) object json_wf_member
      by (auto simp: edits_at_def split: option.splits)
    moreover have "bm_inv m" "bm_inv n" using 1(2,3) object by auto
    ultimately obtain m' where m': "apply_edits (json_edits b a) (Some b) = Some (JObject m')" "bm_inv m'"
      "\<forall>k. map_of m' k = (if k \<in> set ?ks then map_of n k else map_of m k)"
      using apply_members [of m ?ks "edits_at m n" "map_of n"] object by (auto simp: json_edits_object)
    have "map_of m' k = map_of n k" for k
      using m'(3) map_of_eq_None_iff [of m k] map_of_eq_None_iff [of n k] by auto
    then have "m' = n" using m'(2) \<open>bm_inv n\<close> by (intro bm_inv_unique) auto
    with m'(1) object show ?thesis by simp
  qed (simp_all add: json_edits_plain)
qed

lemma edits_at_sides: "(q, x, y) \<in> set (json_edits b a) \<Longrightarrow>
   json_at q (Some b) = x \<and> json_at q (Some a) = y \<and> x \<noteq> y"
proof (induction b a arbitrary: q rule: json_edits.induct)
  case (1 b a)
  show ?case
  proof (cases b a rule: json_edits_cases)
    case (object m n)
    with 1(2) obtain k q' where k: "k \<in> set (sorted_keys (map fst m) (map fst n))" "q = k # q'"
      "(q', x, y) \<in> set (edits_at m n k)"
      by (auto simp: json_edits_object under_def)
    then show ?thesis
      using 1(1) [OF _ refl object(1,2) k(1), of _ _ q'] object by (auto simp: edits_at_def split: option.splits)
  qed (use 1(2) in \<open>simp_all add: json_edits_plain\<close>)
qed

text \<open>The path a target names inside the JSON of its entity.\<close>

definition target_path :: "semantic_target \<Rightarrow> string list" where
  "target_path t =
     (case tg_field t of Some (FValueJsonPath p) \<Rightarrow> p | Some (FSchemaJsonPath p) \<Rightarrow> p | _ \<Rightarrow> [])"

definition holds_json :: "semantic_entity \<Rightarrow> bool" where
  "holds_json e =
     (case e of EValue _ _ \<Rightarrow> True | ECatalogEntry _ _ \<Rightarrow> True | EList _ \<Rightarrow> True
      | EEvaluationContextSample _ _ \<Rightarrow> True | ECatalog _ \<Rightarrow> True | EEvaluationContext _ \<Rightarrow> True | _ \<Rightarrow> False)"

lemma target_path_json [simp]: "holds_json e \<Longrightarrow> target_path (target_with_json_path (entity_target e) p) = p"
  by (auto simp: holds_json_def target_with_json_path_def target_path_def entity_target_def field_target_def
      split: semantic_entity.splits)

lemma plain_change_simps [simp]:
  "sc_kind (plain_change k t b a) = k" "sc_target (plain_change k t b a) = t"
  "sc_before (plain_change k t b a) = b" "sc_after (plain_change k t b a) = a"
  by (simp_all add: plain_change_def)

lemma diff_json_value_patch:
  assumes "holds_json e" "json_wf b" "json_wf a"
  shows "fold (\<lambda>c. put_json (target_path (sc_target c)) (sc_after c))
      (diff_json_value kind (entity_target e) (entity_target e) [] b a) (Some b) = Some a"
proof -
  have "fold (\<lambda>c. put_json (target_path (sc_target c)) (sc_after c))
      (diff_json_value kind (entity_target e) (entity_target e) [] b a) (Some b) = apply_edits (json_edits b a) (Some b)"
    by (simp add: diff_json_value_edits fold_map apply_edits_def o_def case_prod_unfold assms(1))
  with edits_patch [OF assms(2,3)] show ?thesis by simp
qed

text \<open>C31 json_changes_patch: the changes of an entity's JSON, applied in order to the value before, give
  the value after; and each is a real one: the value before has at its path what the change says was there, the value
  after what it says is there, and the two differ.\<close>

theorem json_changes_patch:
  assumes "holds_json e" "json_wf b" "json_wf a"
  shows "fold (\<lambda>c. put_json (target_path (sc_target c)) (sc_after c))
      (diff_json_value kind (entity_target e) (entity_target e) [] b a) (Some b) = Some a \<and>
    (\<forall>c \<in> set (diff_json_value kind (entity_target e) (entity_target e) [] b a).
       json_at (target_path (sc_target c)) (Some b) = sc_before c \<and>
       json_at (target_path (sc_target c)) (Some a) = sc_after c \<and> sc_before c \<noteq> sc_after c)"
  using diff_json_value_patch [OF assms] edits_at_sides [of _ _ _ b a] assms(1)
  by (auto simp: diff_json_value_edits)

definition example_member :: "string \<Rightarrow> int \<Rightarrow> json" where
  "example_member k n = JObject [(''on'', JBool True), (k, JNumber (JInt n))]"

theorem json_changes_patch_witness:
  "\<exists>cs. diff_json_value ''list_changed'' (entity_target (EList ''l'')) (entity_target (EList ''l'')) []
      (example_member ''x'' 1) (example_member ''y'' 2) = cs \<and> length cs = 2 \<and>
    fold (\<lambda>c. put_json (target_path (sc_target c)) (sc_after c)) cs (Some (example_member ''x'' 1)) =
      Some (example_member ''y'' 2)"
proof -
  have "holds_json (EList ''l'')" "json_wf (example_member ''x'' 1)" "json_wf (example_member ''y'' 2)"
    by code_simp+
  moreover have "length (diff_json_value ''list_changed'' (entity_target (EList ''l'')) (entity_target (EList ''l'')) []
      (example_member ''x'' 1) (example_member ''y'' 2)) = 2" by code_simp
  ultimately show ?thesis using json_changes_patch by blast
qed

section \<open>No change is reported when nothing changed, and only then\<close>

text \<open>Two maps with the same keys and related values.\<close>

definition agree :: "('v \<Rightarrow> 'v \<Rightarrow> bool) \<Rightarrow> ('k, 'v) bmap \<Rightarrow> ('k, 'v) bmap \<Rightarrow> bool" where
  "agree rel m n = (\<forall>k. rel_option rel (map_of m k) (map_of n k))"

lemma diff_maps_Nil:
  assumes "\<And>x. added x \<noteq> []" "\<And>x. removed x \<noteq> []"
  shows "diff_maps added removed changed m n = [] \<longleftrightarrow> agree (\<lambda>x y. changed x y = []) m n"
proof -
  have "(case (map_of m k, map_of n k) of (None, Some a) \<Rightarrow> added a | (Some b, None) \<Rightarrow> removed b
      | (Some b, Some a) \<Rightarrow> changed b a | (None, None) \<Rightarrow> []) = [] \<longleftrightarrow>
      rel_option (\<lambda>x y. changed x y = []) (map_of m k) (map_of n k)" for k
    using assms by (auto split: option.splits)
  moreover have "rel_option (\<lambda>x y. changed x y = []) (map_of m k) (map_of n k)"
    if "k \<notin> set (sorted_keys (map fst m) (map fst n))" for k
    using that map_of_eq_None_iff [of m k] map_of_eq_None_iff [of n k] by auto
  ultimately show ?thesis
    unfolding diff_maps_def agree_def concat_eq_Nil_conv set_map by (metis (no_types, lifting) image_iff)
qed

lemma agree_mono_strong:
  assumes "\<And>k x y. map_of m k = Some x \<Longrightarrow> map_of n k = Some y \<Longrightarrow> rel x y = rel' x y"
  shows "agree rel m n \<longleftrightarrow> agree rel' m n"
proof -
  have "rel_option rel (map_of m k) (map_of n k) = rel_option rel' (map_of m k) (map_of n k)" for k
    using assms [of k] by (cases "map_of m k"; cases "map_of n k") auto
  then show ?thesis by (simp add: agree_def)
qed

lemma json_edits_Nil: "json_wf b \<Longrightarrow> json_wf a \<Longrightarrow> json_edits b a = [] \<longleftrightarrow> b = a"
  using edits_patch [of b a] by auto

lemma diff_json_value_Nil: "diff_json_value kind t u path b a = [] \<longleftrightarrow> json_edits b a = []"
proof (induction b a arbitrary: path rule: json_edits.induct)
  case (1 b a)
  show ?case
  proof (cases b a rule: json_edits_cases)
    case (object m n)
    have "(case map_of m k of
             Some x \<Rightarrow> (case map_of n k of
                Some y \<Rightarrow> diff_json_value kind t u (path @ [k]) x y
              | None \<Rightarrow> push_json_path_change kind t (path @ [k]) (Some x) None)
           | None \<Rightarrow> (case map_of n k of
                Some y \<Rightarrow> push_json_path_change kind u (path @ [k]) None (Some y) | None \<Rightarrow> [])) = []
        \<longleftrightarrow> under k (edits_at m n k) = []"
      if "k \<in> set (sorted_keys (map fst m) (map fst n))" for k
      using 1 [OF _ refl object(1,2) that] object
      by (auto simp: edits_at_def under_def push_json_path_change_def split: option.splits)
    then show ?thesis
      using object by (simp add: diff_json_value.simps [of _ _ _ _ "JObject m"] json_edits_object)
  next
    case plain
    then show ?thesis
      by (subst diff_json_value.simps) (auto simp: push_json_path_change_def json_edits_plain [OF plain] split: json.splits)
  qed (simp add: diff_json_value.simps)
qed

lemma diff_optional_field_Nil:
  "diff_optional_field f kind b a = [] \<longleftrightarrow> map_option fs_value b = map_option fs_value a"
  by (auto simp: diff_optional_field_def push_added_json_def push_removed_json_def push_json_change_def
      split: option.splits)

definition rule_content :: "rule_semantic \<Rightarrow> string option \<times> json option" where
  "rule_content r = (map_option fs_value (ru_when r), map_option fs_value (ru_value r))"

lemma diff_rules_Nil: "diff_rules b a = [] \<longleftrightarrow> map rule_content b = map rule_content a"
  by (induction b a rule: diff_rules.induct)
    (auto simp: push_added_def push_removed_def diff_optional_field_Nil rule_content_def)

text \<open>The same content, wherever it stands: of a schema document only what both sides could read counts.\<close>

definition same_value :: "'a field_semantic \<Rightarrow> 'a field_semantic \<Rightarrow> bool" where
  "same_value x y = (fs_value x = fs_value y)"

definition same_schema :: "json option field_semantic \<Rightarrow> json option field_semantic \<Rightarrow> bool" where
  "same_schema x y = (fs_value x = None \<or> fs_value y = None \<or> fs_value x = fs_value y)"

definition same_variable :: "variable_semantic \<Rightarrow> variable_semantic \<Rightarrow> bool" where
  "same_variable v w =
     (map_option fs_value (va_type_source v) = map_option fs_value (va_type_source w) \<and>
      agree same_value (va_values v) (va_values w) \<and>
      map_option fs_value (va_resolve_default v) = map_option fs_value (va_resolve_default w) \<and>
      map rule_content (va_rules v) = map rule_content (va_rules w) \<and>
      map_option fs_value (va_resolve_shape v) = map_option fs_value (va_resolve_shape w))"

definition same_allocation :: "allocation_semantic \<Rightarrow> allocation_semantic \<Rightarrow> bool" where
  "same_allocation x y =
     (ac_status x = ac_status y \<and> ac_eligibility x = ac_eligibility y \<and> ac_arms x = ac_arms y)"

definition same_content :: "package_semantic_model \<Rightarrow> package_semantic_model \<Rightarrow> bool" where
  "same_content b a =
     (agree same_variable (pm_variables b) (pm_variables a) \<and>
      agree same_schema (pm_catalogs b) (pm_catalogs a) \<and>
      agree same_value (pm_catalog_entries b) (pm_catalog_entries a) \<and>
      agree same_value (pm_lists b) (pm_lists a) \<and>
      agree same_schema (pm_evaluation_contexts b) (pm_evaluation_contexts a) \<and>
      agree same_value (pm_samples b) (pm_samples a) \<and>
      agree same_value (pm_layers b) (pm_layers a) \<and>
      agree same_allocation (pm_allocations b) (pm_allocations a))"

definition fields_wf :: "('k, json field_semantic) bmap \<Rightarrow> bool" where
  "fields_wf m = list_all (\<lambda>kv. json_wf (fs_value (snd kv))) m"

definition schemas_wf :: "('k, json option field_semantic) bmap \<Rightarrow> bool" where
  "schemas_wf m = list_all (\<lambda>kv. case fs_value (snd kv) of Some j \<Rightarrow> json_wf j | None \<Rightarrow> True) m"

definition model_wf :: "package_semantic_model \<Rightarrow> bool" where
  "model_wf p =
     (list_all (\<lambda>kv. fields_wf (va_values (snd kv))) (pm_variables p) \<and> schemas_wf (pm_catalogs p) \<and>
      fields_wf (pm_catalog_entries p) \<and> fields_wf (pm_lists p) \<and> schemas_wf (pm_evaluation_contexts p) \<and>
      fields_wf (pm_samples p))"

lemma fields_wfD: "fields_wf m \<Longrightarrow> map_of m k = Some x \<Longrightarrow> json_wf (fs_value x)"
  by (auto simp: fields_wf_def list_all_iff dest!: map_of_SomeD)

lemma schemas_wfD: "schemas_wf m \<Longrightarrow> map_of m k = Some x \<Longrightarrow> fs_value x = Some j \<Longrightarrow> json_wf j"
  by (force simp: schemas_wf_def list_all_iff dest!: map_of_SomeD)

lemma agree_fields:
  assumes "fields_wf m" "fields_wf n"
  shows "agree (\<lambda>x y. diff_json_field kind x y = []) m n \<longleftrightarrow> agree same_value m n"
  by (rule agree_mono_strong)
    (use fields_wfD [OF assms(1)] fields_wfD [OF assms(2)] in
     \<open>auto simp: diff_json_field_def same_value_def diff_json_value_Nil json_edits_Nil\<close>)

lemma agree_schemas:
  assumes "schemas_wf m" "schemas_wf n"
  shows "agree (\<lambda>x y. diff_schema_field kind x y = []) m n \<longleftrightarrow> agree same_schema m n"
  by (rule agree_mono_strong)
    (use schemas_wfD [OF assms(1)] schemas_wfD [OF assms(2)] in
     \<open>auto simp: diff_schema_field_def same_schema_def diff_json_value_Nil json_edits_Nil split: option.splits\<close>)

lemmas pushed = push_added_def push_removed_def push_added_json_def push_removed_json_def push_json_change_def

lemma diff_variable_Nil:
  assumes "fields_wf (va_values b)" "fields_wf (va_values a)"
  shows "diff_variable b a = [] \<longleftrightarrow> same_variable b a"
  by (simp add: diff_variable_def same_variable_def diff_optional_field_Nil diff_rules_Nil diff_values_def
      diff_maps_Nil pushed agree_fields [OF assms])

lemma diff_allocation_Nil: "diff_allocation b a = [] \<longleftrightarrow> same_allocation b a"
  by (auto simp: diff_allocation_def same_allocation_def pushed push_arms_change_def Let_def)

lemma agree_variables:
  assumes "model_wf b" "model_wf a"
  shows "agree (\<lambda>x y. diff_variable x y = []) (pm_variables b) (pm_variables a) \<longleftrightarrow>
    agree same_variable (pm_variables b) (pm_variables a)"
proof (rule agree_mono_strong)
  fix k x y assume "map_of (pm_variables b) k = Some x" "map_of (pm_variables a) k = Some y"
  then have "fields_wf (va_values x)" "fields_wf (va_values y)"
    using assms by (force simp: model_wf_def list_all_iff dest!: map_of_SomeD)+
  then show "(diff_variable x y = []) = same_variable x y" by (rule diff_variable_Nil)
qed

text \<open>C32 no_changes_iff_same: the diff of two packages is empty exactly when they have the same
  variables, catalogs, entries, lists, evaluation contexts, samples, layers and allocations with
  the same content; a schema document that one side could not read is not compared.\<close>

theorem no_changes_iff_same:
  assumes "model_wf (package_model before)" "model_wf (package_model after)"
  shows "diff_models (package_model before) (package_model after) = [] \<longleftrightarrow>
    same_content (package_model before) (package_model after)"
proof -
  let ?b = "package_model before" and ?a = "package_model after"
  note wf = assms [unfolded model_wf_def]
  have "diff_variables ?b ?a = [] \<longleftrightarrow> agree same_variable (pm_variables ?b) (pm_variables ?a)"
    by (simp add: diff_variables_def diff_maps_Nil pushed agree_variables [OF assms])
  moreover have "diff_catalogs ?b ?a = [] \<longleftrightarrow> agree same_schema (pm_catalogs ?b) (pm_catalogs ?a) \<and>
      agree same_value (pm_catalog_entries ?b) (pm_catalog_entries ?a)"
    using wf by (simp add: diff_catalogs_def diff_maps_Nil pushed agree_schemas agree_fields)
  moreover have "diff_lists ?b ?a = [] \<longleftrightarrow> agree same_value (pm_lists ?b) (pm_lists ?a)"
    using wf by (simp add: diff_lists_def diff_maps_Nil pushed agree_fields)
  moreover have "diff_evaluation_contexts ?b ?a = [] \<longleftrightarrow>
      agree same_schema (pm_evaluation_contexts ?b) (pm_evaluation_contexts ?a) \<and>
      agree same_value (pm_samples ?b) (pm_samples ?a)"
    using wf by (simp add: diff_evaluation_contexts_def diff_maps_Nil pushed agree_schemas agree_fields)
  moreover have "diff_layers ?b ?a = [] \<longleftrightarrow> agree same_value (pm_layers ?b) (pm_layers ?a) \<and>
      agree same_allocation (pm_allocations ?b) (pm_allocations ?a)"
    by (simp add: diff_layers_def diff_maps_Nil pushed diff_allocation_Nil same_value_def [abs_def])
  ultimately show ?thesis unfolding diff_models_def same_content_def by auto
qed

definition example_diff_index :: "int \<Rightarrow> diff_index" where
  "example_diff_index n = semantic_index.extend (example_index n) \<lparr>dx_values = [], dx_samples = []\<rparr>"

theorem no_changes_iff_same_witness:
  "\<not> same_content (package_model (example_diff_index 10)) (package_model (example_diff_index 20)) \<and>
   same_content (package_model (example_diff_index 10)) (package_model (example_diff_index 10))"
proof -
  have wf: "model_wf (package_model (example_diff_index 10))" "model_wf (package_model (example_diff_index 20))"
    by code_simp+
  have "diff_models (package_model (example_diff_index 10)) (package_model (example_diff_index 20)) \<noteq> []"
    "diff_models (package_model (example_diff_index 10)) (package_model (example_diff_index 10)) = []" by code_simp+
  with no_changes_iff_same [OF wf] no_changes_iff_same [OF wf(1) wf(1)] show ?thesis by blast
qed

end
