(* ===== verification/DiffArms.thy ===== *)
theory DiffArms
  imports Diff
begin

text \<open>
  What the diff says of an edit of an allocation's arms (\<open>push_arms_change\<close> of src/src/lint/diff.rs) and what
  the resolver does with the arms before and after.
\<close>

section \<open>Trimming\<close>

inductive spaces :: "string list \<Rightarrow> string \<Rightarrow> bool" for ws where
  spaces_Nil: "spaces ws []"
| spaces_app: "w \<in> set ws \<Longrightarrow> spaces ws s \<Longrightarrow> spaces ws (w @ s)"

lemma spaces_append: "spaces ws s \<Longrightarrow> spaces ws t \<Longrightarrow> spaces ws (s @ t)"
  by (induction rule: spaces.induct) (auto intro: spaces_app)

lemma spaces_rev: "spaces (map rev ws) s \<Longrightarrow> spaces ws (rev s)"
proof (induction rule: spaces.induct)
  case (spaces_app w s)
  then have "spaces ws (rev w @ [])" by (intro spaces.intros) auto
  with spaces_app show ?case by (auto intro: spaces_append)
qed (auto intro: spaces_Nil)

lemma spaces_rev_iff: "spaces (map rev ws) (rev s) \<longleftrightarrow> spaces ws s"
  using spaces_rev [of ws "rev s"] spaces_rev [of "map rev ws" s] by (auto simp: o_def)

definition prefix_free :: "string list \<Rightarrow> bool" where
  "prefix_free ws = (list_all (\<lambda>v. list_all (\<lambda>w. v = w \<or> \<not> starts_with v w) ws) ws \<and> [] \<notin> set ws)"

lemma prefix_freeD: "prefix_free ws \<Longrightarrow> v \<in> set ws \<Longrightarrow> w \<in> set ws \<Longrightarrow> w = v @ r \<Longrightarrow> v = w"
  by (fastforce simp: prefix_free_def list_all_iff string_simps)

lemma white_space_free: "prefix_free white_space" "prefix_free (map rev white_space)"
  by code_simp+

lemma strip_any_Some: "strip_any ws s = Some r \<Longrightarrow> \<exists>w \<in> set ws. s = w @ r"
  by (induction ws) (auto simp: string_simps split: option.splits)

lemma strip_any_None: "strip_any ws s = None \<longleftrightarrow> (\<forall>w \<in> set ws. \<not> starts_with w s)"
  by (induction ws) (auto simp: strip_prefix_None_iff string_simps split: option.splits)

lemma trim_left_split: "\<exists>u. s = u @ trim_left n ws s \<and> spaces ws u"
proof (induction n arbitrary: s)
  case (Suc n)
  show ?case
  proof (cases "strip_any ws s")
    case (Some r)
    from Suc [of r] obtain u where u: "r = u @ trim_left n ws r" "spaces ws u" by blast
    from strip_any_Some [OF Some] obtain w where w: "w \<in> set ws" "s = w @ r" by blast
    have "s = (w @ u) @ trim_left (Suc n) ws s" using Some u(1) w(2) by simp
    with spaces_app [OF w(1) u(2)] show ?thesis by blast
  qed (auto intro: spaces_Nil)
qed (auto intro: spaces_Nil)

lemma trim_left_spaces:
  assumes "prefix_free ws" "\<forall>w \<in> set ws. \<not> starts_with w d"
  shows "spaces ws u \<Longrightarrow> length u \<le> n \<Longrightarrow> trim_left n ws (u @ d) = d"
proof (induction u arbitrary: n rule: spaces.induct)
  case spaces_Nil
  then show ?case using assms(2) strip_any_None [of ws d] by (cases n) auto
next
  case (spaces_app w s)
  have "w \<noteq> []" using assms(1) spaces_app(1) by (auto simp: prefix_free_def)
  then obtain n' where n: "n = Suc n'" "length s \<le> n'" using spaces_app(4) by (cases n; cases w) auto
  have "starts_with w (w @ s @ d)" by (simp add: string_simps)
  then obtain r where r: "strip_any ws (w @ s @ d) = Some r"
    using strip_any_None [of ws "w @ s @ d"] spaces_app(1) by (cases "strip_any ws (w @ s @ d)") auto
  from strip_any_Some [OF r] obtain v where v: "v \<in> set ws" "w @ s @ d = v @ r" by blast
  then obtain t where "w = v @ t \<or> v = w @ t" by (metis append_eq_append_conv2)
  then have "v = w"
    using prefix_freeD [OF assms(1) v(1) spaces_app(1)] prefix_freeD [OF assms(1) spaces_app(1) v(1)] by metis
  with v(2) have "r = s @ d" by simp
  with n r spaces_app(3) [of n'] show ?case by simp
qed

lemma trim_parts: obtains u v where "s = u @ trim s @ v" "spaces white_space u" "spaces white_space v"
proof -
  obtain u where u: "s = u @ trim_start s" "spaces white_space u"
    using trim_left_split [of s "length s" white_space] by (auto simp: trim_start_def)
  obtain v where v: "rev (trim_start s) = v @ rev (trim s)" "spaces (map rev white_space) v"
    using trim_left_split [of "rev (trim_start s)" "length (trim_start s)" "map rev white_space"]
    by (auto simp: trim_def trim_end_def)
  from v(1) have "trim_start s = trim s @ rev v" by (metis rev_append rev_rev_ident)
  with u spaces_rev [OF v(2)] show ?thesis using that [of u "rev v"] by simp
qed

text \<open>A text that neither begins nor ends with a byte of white space is what trimming leaves of it in white space.\<close>

definition solid :: "string \<Rightarrow> bool" where
  "solid d = (d \<noteq> [] \<and> hd d \<notin> hd ` set white_space \<and> last d \<notin> last ` set white_space)"

lemma hd_not_prefix:
  assumes "prefix_free ws" "d \<noteq> []" "hd d \<notin> hd ` set ws" "w \<in> set ws"
  shows "\<not> starts_with w (d @ v)"
proof
  assume "starts_with w (d @ v)"
  moreover have "w \<noteq> []" using assms(1,4) by (auto simp: prefix_free_def)
  ultimately have "hd w = hd d" using assms(2) by (cases w; cases d) (auto simp: string_simps)
  with assms(3,4) show False by (metis imageI)
qed

lemma trim_solid:
  assumes d: "solid d" and u: "spaces white_space u" and v: "spaces white_space v"
  shows "trim (u @ d @ v) = d"
proof -
  have "\<not> starts_with w (d @ v)" if "w \<in> set white_space" for w
    using hd_not_prefix [OF white_space_free(1) _ _ that] d by (auto simp: solid_def)
  then have "trim_start (u @ d @ v) = d @ v"
    unfolding trim_start_def by (intro trim_left_spaces [OF white_space_free(1) _ u]) auto
  moreover have "hd ` set (map rev white_space) = last ` set white_space" by code_simp
  then have "\<not> starts_with w (rev d)" if "w \<in> set (map rev white_space)" for w
    using hd_not_prefix [OF white_space_free(2) _ _ that, of "rev d" "[]"] d by (auto simp: solid_def hd_rev)
  then have "trim_left (length (d @ v)) (map rev white_space) (rev v @ rev d) = rev d"
    using v by (intro trim_left_spaces [OF white_space_free(2)]) (auto simp: spaces_rev_iff)
  ultimately show ?thesis by (simp add: trim_def trim_end_def)
qed

lemma trim_spaced:
  assumes "solid (trim s)" "spaces white_space u" "spaces white_space v"
  shows "trim (u @ s @ v) = trim s"
proof -
  obtain x y where s: "s = x @ trim s @ y" "spaces white_space x" "spaces white_space y" by (rule trim_parts)
  have "trim ((u @ x) @ trim s @ (y @ v)) = trim s"
    using assms s(2,3) by (intro trim_solid spaces_append)
  then show ?thesis using s(1) by (metis append.assoc)
qed

lemma digits_val_digits: "digits_val acc ds = Some n \<Longrightarrow> list_all is_digit ds"
  by (induction acc ds rule: digits_val.induct) (auto split: if_splits)

lemma parsed_solid: "parse_unsigned b d = Some n \<Longrightarrow> solid d"
proof -
  assume p: "parse_unsigned b d = Some n"
  let ?ds = "case d of c # cs \<Rightarrow> if c = CHR ''+'' then cs else d | [] \<Rightarrow> d"
  have ds: "?ds \<noteq> []" "list_all is_digit ?ds"
    using p digits_val_digits by (auto simp: parse_unsigned_def Let_def split: if_splits option.splits)
  then have "d \<noteq> []" by auto
  have "last d = last ?ds" using ds(1) by (auto split: list.splits)
  then have "is_digit (last d)" using ds by (metis last_in_set list.pred_set)
  moreover have "is_digit (hd d) \<or> hd d = CHR ''+''"
    using ds \<open>d \<noteq> []\<close> by (cases d) (auto split: if_splits)
  moreover have "list_all (\<lambda>w. \<not> is_digit (hd w) \<and> hd w \<noteq> CHR ''+'' \<and> \<not> is_digit (last w)) white_space" by code_simp
  ultimately show ?thesis using \<open>d \<noteq> []\<close> by (auto simp: solid_def list_all_iff)
qed

lemma parse_unsigned_wider: "parse_unsigned b s = Some n \<Longrightarrow> b \<le> c \<Longrightarrow> parse_unsigned c s = Some n"
  by (auto simp: parse_unsigned_def Let_def split: if_splits option.splits)

text \<open>The diff reads a bucket range as the compiler does.\<close>

lemma bucket_range_arm:
  assumes "parse_arm_buckets text = Some (s, e)"
  shows "bucket_range text = Some (s, e)"
proof -
  have free: "CHR ''-'' \<notin> set u" if "spaces white_space u" for u
  proof -
    have "list_all (\<lambda>w. CHR ''-'' \<notin> set w) white_space" by code_simp
    with that show ?thesis by (induction rule: spaces.induct) (auto simp: list_all_iff)
  qed
  obtain u v where t: "text = u @ trim text @ v" "spaces white_space u" "spaces white_space v" by (rule trim_parts)
  show ?thesis
  proof (cases "split_once (CHR ''-'') (trim text)")
    case None
    with assms have p: "parse_unsigned (2 ^ 32) (trim text) = Some s" "s = e"
      by (auto simp: parse_arm_buckets_def Let_def)
    have "split_once (CHR ''-'') text = None"
      using None free [OF t(2)] free [OF t(3)] t(1) by (metis Un_iff set_append split_once_None_iff)
    then show ?thesis using parse_unsigned_wider [OF p(1), of "2 ^ 64"] p(2) by (simp add: bucket_range_def Let_def)
  next
    case (Some lh)
    then obtain l h where lh: "split_once (CHR ''-'') (trim text) = Some (l, h)" by (cases lh) auto
    with assms have p: "parse_unsigned (2 ^ 32) (trim l) = Some s" "parse_unsigned (2 ^ 32) (trim h) = Some e" "s \<le> e"
      by (auto simp: parse_arm_buckets_def Let_def split: option.splits if_splits)
    from lh have lh': "trim text = l @ CHR ''-'' # h" "CHR ''-'' \<notin> set l" by (auto simp: string_simps)
    then have "text = (u @ l) @ CHR ''-'' # (h @ v)" using t(1) by simp
    moreover have "CHR ''-'' \<notin> set (u @ l)" using free [OF t(2)] lh'(2) by simp
    ultimately have "split_once (CHR ''-'') text = Some (u @ l, h @ v)" by (metis split_once_append)
    moreover have "trim (u @ l @ []) = trim l" using trim_spaced [OF parsed_solid [OF p(1)] t(2) spaces_Nil] .
    moreover have "trim ([] @ h @ v) = trim h" using trim_spaced [OF parsed_solid [OF p(2)] spaces_Nil t(3)] .
    ultimately show ?thesis
      using parse_unsigned_wider [OF p(1), of "2 ^ 64"] parse_unsigned_wider [OF p(2), of "2 ^ 64"] p(3)
      by (simp add: bucket_range_def Let_def)
  qed
qed

section \<open>The claims of a compiled allocation\<close>

text \<open>An arm as the diff sees it and as the resolver does.\<close>

definition arm_text :: "arm_node \<Rightarrow> runtime_arm \<Rightarrow> bool" where
  "arm_text nd arm =
     (am_name nd = Present (arm_name arm) \<and>
      (\<exists>t. am_buckets nd = Present t \<and> parse_arm_buckets t = Some (arm_start arm, arm_end arm)))"

lemma compile_arms_text: "compile_arms nodes m = Inr (arms, left) \<Longrightarrow> list_all2 arm_text nodes arms"
  by (induction nodes arbitrary: m arms left)
    (fastforce simp: arm_text_def rbind_eq_Inr split: project_field.splits option.splits)+

definition in_arm :: "nat \<Rightarrow> runtime_arm \<Rightarrow> bool" where
  "in_arm k arm = (arm_start arm \<le> k \<and> k \<le> arm_end arm)"

definition arm_json :: "arm_node list \<Rightarrow> json smap" where
  "arm_json nodes = bm_of (List.map_filter arm_pair nodes)"

lemma map_of_claim_range:
  "map_of (claim_range arm t claims) k =
     (case bucket_range t of Some (l, h) \<Rightarrow> if l \<le> k \<and> k \<le> h then Some arm else map_of claims k
      | None \<Rightarrow> map_of claims k)"
proof -
  have "map_of (fold (\<lambda>b. bm_insert b arm) bs claims) k = (if k \<in> set bs then Some arm else map_of claims k)"
    for bs :: "nat list"
    by (induction bs arbitrary: claims) (auto simp: map_of_bm_insert)
  then show ?thesis by (auto simp: claim_range_def less_Suc_eq_le split: option.splits)
qed

text \<open>The object has one string for each arm, its range.\<close>

definition arm_members :: "runtime_arm list \<Rightarrow> json smap \<Rightarrow> bool" where
  "arm_members arms m =
     (\<forall>n j. map_of m n = Some j \<longrightarrow> (\<exists>arm \<in> set arms. arm_name arm = n \<and>
        (\<exists>t. j = JString t \<and> bucket_range t = Some (arm_start arm, arm_end arm))))"

lemma arm_json_members:
  assumes "list_all2 arm_text nodes arms"
  shows "arm_members arms (arm_json nodes)" "fst ` set (arm_json nodes) = arm_name ` set arms"
proof -
  have pairs: "list_all2 (\<lambda>p arm. fst p = arm_name arm \<and>
      (\<exists>t. snd p = JString t \<and> bucket_range t = Some (arm_start arm, arm_end arm)))
      (List.map_filter arm_pair nodes) arms"
    using assms
    by (induction rule: list_all2_induct)
      (auto simp: arm_text_def arm_pair_def map_filter_simps bucket_range_arm)
  show "arm_members arms (arm_json nodes)"
    unfolding arm_members_def arm_json_def map_of_bm_of
  proof (intro allI impI)
    fix n j assume "map_of (rev (List.map_filter arm_pair nodes)) n = Some j"
    then have "(n, j) \<in> set (List.map_filter arm_pair nodes)" by (auto dest: map_of_SomeD)
    with pairs show "\<exists>arm \<in> set arms. arm_name arm = n \<and>
        (\<exists>t. j = JString t \<and> bucket_range t = Some (arm_start arm, arm_end arm))"
      by (fastforce simp: list_all2_conv_all_nth in_set_conv_nth)
  qed
  have "map fst (List.map_filter arm_pair nodes) = map arm_name arms"
    using pairs by (induction rule: list_all2_induct) auto
  then show "fst ` set (arm_json nodes) = arm_name ` set arms"
    unfolding arm_json_def fst_set_bm_of by (metis list.set_map)
qed

lemma claims_sound_step:
  assumes "list_all (\<lambda>(n, j). \<exists>t s e. j = JString t \<and> bucket_range t = Some (s, e)) m"
  shows "map_of (fold (\<lambda>(arm, ranges). fold (claim_range arm) (range_texts ranges)) m claims) k = Some n \<Longrightarrow>
    (\<exists>t s e. (n, JString t) \<in> set m \<and> bucket_range t = Some (s, e) \<and> s \<le> k \<and> k \<le> e) \<or> map_of claims k = Some n"
  using assms
proof (induction m arbitrary: claims)
  case (Cons nj m)
  from Cons.prems(2) obtain n' t s e where nj: "nj = (n', JString t)" "bucket_range t = Some (s, e)"
    by (cases nj) auto
  have m: "list_all (\<lambda>(n, j). \<exists>t s e. j = JString t \<and> bucket_range t = Some (s, e)) m" using Cons.prems(2) by simp
  from Cons.prems(1) nj(1)
  have "map_of (fold (\<lambda>(arm, ranges). fold (claim_range arm) (range_texts ranges)) m (claim_range n' t claims)) k = Some n"
    by (simp add: range_texts_def)
  from Cons.IH [OF this m] nj show ?case by (auto simp: map_of_claim_range split: if_splits)
qed simp

lemma claims_kept:
  assumes "\<forall>(n', j) \<in> set m. \<forall>t s e. j = JString t \<longrightarrow> bucket_range t = Some (s, e) \<longrightarrow> s \<le> k \<longrightarrow> k \<le> e \<longrightarrow> n' = n"
    and "list_all (\<lambda>(n, j). \<exists>t s e. j = JString t \<and> bucket_range t = Some (s, e)) m"
  shows "map_of claims k = Some n \<or> (\<exists>t s e. (n, JString t) \<in> set m \<and> bucket_range t = Some (s, e) \<and> s \<le> k \<and> k \<le> e) \<Longrightarrow>
    map_of (fold (\<lambda>(arm, ranges). fold (claim_range arm) (range_texts ranges)) m claims) k = Some n"
  using assms
proof (induction m arbitrary: claims)
  case (Cons nj m)
  from Cons.prems(3) obtain n' t s e where nj: "nj = (n', JString t)" "bucket_range t = Some (s, e)"
    by (cases nj) auto
  have "map_of (claim_range n' t claims) k = Some n \<or>
      (\<exists>t s e. (n, JString t) \<in> set m \<and> bucket_range t = Some (s, e) \<and> s \<le> k \<and> k \<le> e)"
    using Cons.prems(1,2) nj by (auto simp: map_of_claim_range)
  with Cons.IH [of "claim_range n' t claims"] Cons.prems(2,3) nj show ?case by (simp add: range_texts_def)
qed simp

definition disjoint_arms :: "runtime_arm list \<Rightarrow> bool" where
  "disjoint_arms arms = (\<forall>k. length (filter (in_arm k) arms) \<le> 1)"

lemma disjoint_armsD:
  assumes "disjoint_arms arms" "x \<in> set arms" "y \<in> set arms" "in_arm k x" "in_arm k y"
  shows "x = y"
proof (rule ccontr)
  assume "x \<noteq> y"
  then have "card {x, y} \<le> card (set (filter (in_arm k) arms))" using assms by (intro card_mono) auto
  also have "\<dots> \<le> length (filter (in_arm k) arms)" by (rule card_length)
  finally show False using assms(1) \<open>x \<noteq> y\<close> by (auto simp: disjoint_arms_def dest: spec [of _ k])
qed

lemma bucket_claims_arms:
  assumes t: "list_all2 arm_text nodes arms" and names: "distinct (map arm_name arms)" and d: "disjoint_arms arms"
  shows "map_of (bucket_claims (JObject (arm_json nodes))) k = map_option arm_name (List.find (in_arm k) arms)"
proof -
  let ?m = "arm_json nodes"
  have inv: "bm_inv ?m" by (simp add: arm_json_def)
  have mem: "(n, j) \<in> set ?m \<Longrightarrow> \<exists>arm \<in> set arms. arm_name arm = n \<and>
      (\<exists>t. j = JString t \<and> bucket_range t = Some (arm_start arm, arm_end arm))" for n j
    using arm_json_members(1) [OF t] bm_inv_distinct [OF inv] by (simp add: arm_members_def)
  then have shape: "list_all (\<lambda>(n, j). \<exists>t s e. j = JString t \<and> bucket_range t = Some (s, e)) ?m"
    by (fastforce simp: list_all_iff)
  have claims: "bucket_claims (JObject ?m) = fold (\<lambda>(arm, ranges). fold (claim_range arm) (range_texts ranges)) ?m []"
    by (simp add: bucket_claims_def)
  show ?thesis
  proof (cases "List.find (in_arm k) arms")
    case None
    have "map_of (bucket_claims (JObject ?m)) k = None"
    proof (rule ccontr)
      assume "map_of (bucket_claims (JObject ?m)) k \<noteq> None"
      then obtain n where "map_of (bucket_claims (JObject ?m)) k = Some n" by blast
      then obtain t s e where "(n, JString t) \<in> set ?m" "bucket_range t = Some (s, e)" "s \<le> k" "k \<le> e"
        using claims_sound_step [OF shape] unfolding claims by fastforce
      with mem [of n] have "\<exists>arm \<in> set arms. in_arm k arm" by (fastforce simp: in_arm_def)
      with None show False by (simp add: find_None_iff)
    qed
    with None show ?thesis by simp
  next
    case (Some arm)
    then have arm: "arm \<in> set arms" "in_arm k arm" by (auto simp: find_Some_iff)
    then obtain j where j: "(arm_name arm, j) \<in> set ?m" using arm_json_members(2) [OF t] by fastforce
    with mem obtain arm' t where arm': "arm' \<in> set arms" "arm_name arm' = arm_name arm" "j = JString t"
      "bucket_range t = Some (arm_start arm', arm_end arm')" by blast
    have "arm' = arm" using names arm' arm by (metis distinct_map inj_onD)
    with arm' j arm(2) have held: "\<exists>t s e. (arm_name arm, JString t) \<in> set ?m \<and> bucket_range t = Some (s, e) \<and> s \<le> k \<and> k \<le> e"
      by (auto simp: in_arm_def)
    have only: "\<forall>(n', j) \<in> set ?m. \<forall>t s e. j = JString t \<longrightarrow> bucket_range t = Some (s, e) \<longrightarrow> s \<le> k \<longrightarrow> k \<le> e \<longrightarrow>
        n' = arm_name arm"
    proof clarify
      fix n' t s e assume "(n', JString t) \<in> set ?m" "bucket_range t = Some (s, e)" "s \<le> k" "k \<le> e"
      with mem [of n'] obtain x where "x \<in> set arms" "arm_name x = n'" "in_arm k x" by (fastforce simp: in_arm_def)
      with disjoint_armsD [OF d _ arm(1) _ arm(2)] show "n' = arm_name arm" by blast
    qed
    from claims_kept [OF only shape] held Some show ?thesis unfolding claims by simp
  qed
qed

section \<open>An expansion keeps the units that are enrolled\<close>

lemma count_buckets_0:
  assumes "count_buckets p before after = 0" "\<not> p None None"
  shows "\<not> p (map_of (bucket_claims before) k) (map_of (bucket_claims after) k)"
proof
  let ?b = "bucket_claims before" and ?a = "bucket_claims after"
  assume p: "p (map_of ?b k) (map_of ?a k)"
  have "k \<in> set (sorted_keys (map fst ?b) (map fst ?a))"
  proof (rule ccontr)
    assume "k \<notin> set (sorted_keys (map fst ?b) (map fst ?a))"
    then have "map_of ?b k = None" "map_of ?a k = None" by (simp_all add: map_of_eq_None_iff)
    with p assms(2) show False by simp
  qed
  with p assms(1) show False by (auto simp: count_buckets_def Let_def filter_empty_conv)
qed

lemma expanded_claims:
  assumes "push_arms_change b a = [c]" "sc_kind c = ''allocation_arms_expanded''"
    and "map_of (bucket_claims (ac_arms b)) k = Some n"
  shows "map_of (bucket_claims (ac_arms a)) k = Some n"
proof -
  have "released_buckets (ac_arms b) (ac_arms a) = 0" "reassigned_buckets (ac_arms b) (ac_arms a) = 0"
    using assms(1,2) by (auto simp: push_arms_change_def Let_def split: if_splits)
  then have "\<not> (map_of (bucket_claims (ac_arms b)) k \<noteq> None \<and> map_of (bucket_claims (ac_arms a)) k = None)"
    "\<not> (map_of (bucket_claims (ac_arms b)) k \<noteq> None \<and> map_of (bucket_claims (ac_arms a)) k \<noteq> None \<and>
       map_of (bucket_claims (ac_arms b)) k \<noteq> map_of (bucket_claims (ac_arms a)) k)"
    unfolding released_buckets_def reassigned_buckets_def
    using count_buckets_0 [of "\<lambda>b a. b \<noteq> None \<and> a = None" "ac_arms b" "ac_arms a" k]
      count_buckets_0 [of "\<lambda>b a. b \<noteq> None \<and> a \<noteq> None \<and> b \<noteq> a" "ac_arms b" "ac_arms a" k] by simp_all
  then show ?thesis using assms(3) by auto
qed

lemma compiled_arms:
  assumes "lint_layer_shapes known_lists layers [] = []" "ly \<in> set layers" "al \<in> set (xy_allocations ly)"
    and "compiled_from ly al r"
  shows "list_all2 arm_text (al_arms (allocation_node_of al)) (alloc_arms r)" "distinct (map arm_name (alloc_arms r))"
    "disjoint_arms (alloc_arms r)"
proof -
  from assms(4) obtain ix vn kind dfl assigns i where c: "compile_allocation_body ix vn kind dfl assigns i
      (layer_node_of ly) (allocation_node_of al) = Inr (AllocationResolution r)"
    by (auto simp: compiled_from_def)
  obtain m arms where "compile_arms (al_arms (allocation_node_of al)) m = Inr (arms, [])" "alloc_arms r = arms"
    using c by (rule compile_allocation_parts) simp
  then show "list_all2 arm_text (al_arms (allocation_node_of al)) (alloc_arms r)" using compile_arms_text by blast
  show "distinct (map arm_name (alloc_arms r))" by (rule compile_allocation_sound(2) [OF c])
  obtain bc cs where claimed: "list_all2 (claimed_by bc) (concat (map xl_arms (xy_allocations ly))) cs"
    and one: "\<And>b. length (filter (claims_bucket b) cs) \<le> 1"
    using accepted_layer_claims [OF assms(1,2)] by blast
  from assms(3) obtain als1 als2 where "xy_allocations ly = als1 @ al # als2" by (meson split_list)
  with claimed obtain c1 c2 c3 where cs: "cs = c1 @ c2 @ c3" "list_all2 (claimed_by bc) (xl_arms al) c2"
    by (auto simp: list_all2_append1)
  have "length (filter (in_arm k) (alloc_arms r)) \<le> 1" for k
  proof -
    have "length (filter (in_arm k) (alloc_arms r)) =
        length (filter (\<lambda>(s, e). s \<le> k \<and> k \<le> e) (map (\<lambda>a. (arm_start a, arm_end a)) (alloc_arms r)))"
      by (simp add: filter_map o_def in_arm_def [abs_def])
    also have "\<dots> = length (filter (claims_bucket k) c2)"
      unfolding compile_allocation_claims [OF c cs(2)] by (simp add: filter_map o_def claims_bucket_def [abs_def])
    finally show ?thesis using one [of k] cs(1) by simp
  qed
  then show "disjoint_arms (alloc_arms r)" by (simp add: disjoint_arms_def)
qed

lemma arm_holds_in: "arm_holds b = in_arm (unat b)"
  by (simp add: fun_eq_iff arm_holds_def in_arm_def)

text \<open>C33 expansion_keeps_arms: when the diff calls an edit of an allocation's arms an expansion, and lint accepts the
  layer before and after, then every bucket that resolves to an arm before resolves to the arm of the same name after: no
  enrolled unit changes arm.\<close>

theorem expansion_keeps_arms:
  assumes "lint_layer_shapes lists1 layers1 [] = []" "ly1 \<in> set layers1" "al1 \<in> set (xy_allocations ly1)"
    and "compiled_from ly1 al1 r1"
    and "lint_layer_shapes lists2 layers2 [] = []" "ly2 \<in> set layers2" "al2 \<in> set (xy_allocations ly2)"
    and "compiled_from ly2 al2 r2"
    and "push_arms_change (allocation_semantic_of (layer_node_of ly1) (allocation_node_of al1))
        (allocation_semantic_of (layer_node_of ly2) (allocation_node_of al2)) = [c]"
    and "sc_kind c = ''allocation_arms_expanded''"
    and "map_option arm_name (List.find (arm_holds b) (alloc_arms r1)) = Some n"
  shows "map_option arm_name (List.find (arm_holds b) (alloc_arms r2)) = Some n"
proof -
  have arms: "ac_arms (allocation_semantic_of ly al) = JObject (arm_json (al_arms al))" for ly al
    by (simp add: allocation_semantic_of_def arm_json_def)
  note c1 = bucket_claims_arms [OF compiled_arms [OF assms(1-4)], of "unat b"]
  note c2 = bucket_claims_arms [OF compiled_arms [OF assms(5-8)], of "unat b"]
  show ?thesis
    using expanded_claims [OF assms(9,10), of "unat b" n] assms(11) c1 c2 by (simp add: arms arm_holds_in)
qed

definition two_arm_layer :: "string \<Rightarrow> string \<Rightarrow> lint_layer" where
  "two_arm_layer control treatment =
     example_lint_layer\<lparr>xy_allocations := [(hd (xy_allocations example_lint_layer))
        \<lparr>xl_arms := [example_lint_arm 0 ''control'' control, example_lint_arm 1 ''treatment'' treatment]\<rparr>]\<rparr>"

definition only_allocation :: "lint_layer \<Rightarrow> lint_allocation" where
  "only_allocation ly = hd (xy_allocations ly)"

definition compiled_only :: "lint_layer \<Rightarrow> runtime_resolution res" where
  "compiled_only ly = compile_allocation_body (example_index 10) (snd color_variable) (KPrimitive ''string'')
      (Present (JString ''grey'')) example_assigns ''color_test'' (layer_node_of ly)
      (allocation_node_of (only_allocation ly))"

lemma compiled_only_from: "compiled_only ly = Inr (AllocationResolution r) \<Longrightarrow> compiled_from ly (only_allocation ly) r"
  unfolding compiled_only_def compiled_from_def by blast

theorem expansion_keeps_arms_witness:
  "\<exists>r1 r2. compiled_only (two_arm_layer ''0-1'' ''7'') = Inr (AllocationResolution r1) \<and>
     compiled_only (two_arm_layer '' 0 - 4 '' ''5-9'') = Inr (AllocationResolution r2) \<and>
     map_option arm_name (List.find (arm_holds 7) (alloc_arms r2)) = Some ''treatment''"
proof -
  let ?before = "two_arm_layer ''0-1'' ''7''" and ?after = "two_arm_layer '' 0 - 4 '' ''5-9''"
  have "(case compiled_only ?before of Inr (AllocationResolution r1) \<Rightarrow>
      map_option arm_name (List.find (arm_holds 7) (alloc_arms r1)) = Some ''treatment'' | _ \<Rightarrow> False)"
    "(case compiled_only ?after of Inr (AllocationResolution r2) \<Rightarrow> True | _ \<Rightarrow> False)" by code_simp+
  then obtain r1 r2 where r: "compiled_only ?before = Inr (AllocationResolution r1)"
    "compiled_only ?after = Inr (AllocationResolution r2)"
    "map_option arm_name (List.find (arm_holds 7) (alloc_arms r1)) = Some ''treatment''"
    by (cases "compiled_only ?before"; cases "compiled_only ?after") (auto split: runtime_resolution.splits)
  have lint: "lint_layer_shapes ([] :: unit smap) [?before] [] = []" "lint_layer_shapes ([] :: unit smap) [?after] [] = []"
    by code_simp+
  have only: "only_allocation ly \<in> set (xy_allocations ly)" if "ly = two_arm_layer c t" for ly c t
    by (simp add: that only_allocation_def two_arm_layer_def)
  define cs where "cs = push_arms_change
      (allocation_semantic_of (layer_node_of ?before) (allocation_node_of (only_allocation ?before)))
      (allocation_semantic_of (layer_node_of ?after) (allocation_node_of (only_allocation ?after)))"
  have "cs = [hd cs]" by (simp add: cs_def push_arms_change_def Let_def)
  moreover have "sc_kind (hd cs) = ''allocation_arms_expanded''" unfolding cs_def by code_simp
  ultimately have "map_option arm_name (List.find (arm_holds 7) (alloc_arms r2)) = Some ''treatment''"
    using expansion_keeps_arms [OF lint(1) _ only [OF refl] compiled_only_from [OF r(1)] lint(2) _ only [OF refl]
        compiled_only_from [OF r(2)] _ _ r(3)] unfolding cs_def by (metis list.set_intros(1))
  with r show ?thesis by blast
qed

end
