(* ===== verification/Impact.thy ===== *)
theory Impact
  imports Diff Memo
begin

text \<open>
  What an edit does to resolution (src/src/lint/diff.rs): both packages are compiled and resolved in
  the same context, strictly for one context and leniently for each of several labelled ones, and
  the variables with different outcomes are reported.
\<close>

section \<open>Comparing resolutions\<close>

record resolution_impact =
  ri_variable :: string
  ri_before :: variable_resolution
  ri_after :: variable_resolution

record outcome_impact =
  oi_variable :: string
  oi_before :: "variable_resolution option"
  oi_before_error :: "string option"
  oi_after :: "variable_resolution option"
  oi_after_error :: "string option"

record context_impact =
  ci_context :: string
  ci_impacts :: "outcome_impact list"
  ci_compared :: nat

record labeled_context =
  lc_label :: string
  lc_context :: json

record package_diff =
  pd_changes :: "semantic_change list"
  pd_resolution_impacts :: "resolution_impact list"

record package_diff_with_contexts =
  pc_changes :: "semantic_change list"
  pc_context_impacts :: "context_impact list"
  pc_impact_error :: "string option"

definition variable_resolution_eq :: "variable_resolution \<Rightarrow> variable_resolution \<Rightarrow> bool" where
  "variable_resolution_eq l r = (vr_value l = vr_value r \<and> vr_source l = vr_source r)"

definition outcome_eq :: "trace_outcome \<Rightarrow> trace_outcome \<Rightarrow> bool" where
  "outcome_eq l r =
     (case (vo_trace l, vo_trace r) of
        (Some x, Some y) \<Rightarrow> variable_resolution_eq (tr_resolution x) (tr_resolution y)
      | (None, None) \<Rightarrow> vo_error l = vo_error r
      | _ \<Rightarrow> False)"

definition outcome_map :: "trace_outcome list \<Rightarrow> trace_outcome smap" where
  "outcome_map outs = bm_of (map (\<lambda>out. (vo_id out, out)) outs)"

definition in_context :: "'v resolution_env \<Rightarrow> runtime_package \<Rightarrow> json \<Rightarrow> 'v resolution_env" where
  "in_context env rt ctx = env\<lparr>re_runtime := rt, re_context := ctx\<rparr>"

section \<open>One context, strictly\<close>

definition resolution_map :: "variable_resolution list \<Rightarrow> variable_resolution smap" where
  "resolution_map rs = bm_of (map (\<lambda>r. (vr_id r, r)) rs)"

definition impacts_between :: "variable_resolution smap \<Rightarrow> variable_resolution smap \<Rightarrow> resolution_impact list" where
  "impacts_between b a = List.map_filter
     (\<lambda>v. case (map_of b v, map_of a v) of
        (Some x, Some y) \<Rightarrow>
          if variable_resolution_eq x y then None else Some \<lparr>ri_variable = v, ri_before = x, ri_after = y\<rparr>
      | _ \<Rightarrow> None)
     (sorted_keys (map fst b) (map fst a))"

definition resolution_impacts ::
  "'v resolution_env \<Rightarrow> runtime_package res \<Rightarrow> runtime_package res \<Rightarrow> json \<Rightarrow> resolution_impact list res option" where
  "resolution_impacts env before after ctx =
     (case rbind before (\<lambda>b. rbind after (\<lambda>a. rbind (validate_context b ctx) (\<lambda>_.
             rbind (validate_context a ctx) (\<lambda>_. Inr (b, a))))) of
        Inl e \<Rightarrow> Some (Inl e)
      | Inr (b, a) \<Rightarrow>
          (case resolve_variables_unchecked (in_context env b ctx) of
             None \<Rightarrow> None
           | Some (Inl e) \<Rightarrow> Some (Inl e)
           | Some (Inr bs) \<Rightarrow>
               map_option (\<lambda>r. rbind r (\<lambda>as. Inr (impacts_between (resolution_map bs) (resolution_map as))))
                 (resolve_variables_unchecked (in_context env a ctx))))"

definition diff_packages ::
  "'v resolution_env \<Rightarrow> diff_index \<Rightarrow> diff_index \<Rightarrow> runtime_package res \<Rightarrow> runtime_package res
   \<Rightarrow> json option \<Rightarrow> package_diff res option" where
  "diff_packages env ib ia before after ctx =
     map_option (\<lambda>r. rbind r (\<lambda>impacts.
         Inr \<lparr>pd_changes = diff_models (package_model ib) (package_model ia), pd_resolution_impacts = impacts\<rparr>))
       (case ctx of Some c \<Rightarrow> resolution_impacts env before after c | None \<Rightarrow> Some (Inr []))"

section \<open>Several contexts, leniently\<close>

definition reported :: "trace_outcome smap \<Rightarrow> trace_outcome smap \<Rightarrow> string \<Rightarrow> outcome_impact option" where
  "reported b a v =
     (let x = map_of b v; y = map_of a v in
      if (case (x, y) of (Some l, Some r) \<Rightarrow> outcome_eq l r | _ \<Rightarrow> False) then None
      else Some \<lparr>oi_variable = v,
        oi_before = Option.bind x (\<lambda>out. map_option tr_resolution (vo_trace out)),
        oi_before_error = Option.bind x vo_error,
        oi_after = Option.bind y (\<lambda>out. map_option tr_resolution (vo_trace out)),
        oi_after_error = Option.bind y vo_error\<rparr>)"

definition counted :: "trace_outcome smap \<Rightarrow> trace_outcome smap \<Rightarrow> string \<Rightarrow> bool" where
  "counted b a v =
     (case (map_of b v, map_of a v) of
        (Some l, Some r) \<Rightarrow> vo_trace l \<noteq> None \<and> vo_trace r \<noteq> None | _ \<Rightarrow> False)"

definition compare_outcomes :: "string \<Rightarrow> trace_outcome smap \<Rightarrow> trace_outcome smap \<Rightarrow> context_impact" where
  "compare_outcomes name b a =
     (let vs = sorted_keys (map fst b) (map fst a) in
      \<lparr>ci_context = name, ci_impacts = List.map_filter (reported b a) vs,
       ci_compared = length (filter (counted b a) vs)\<rparr>)"

definition impact_in_context ::
  "'v resolution_env \<Rightarrow> runtime_package \<Rightarrow> runtime_package \<Rightarrow> labeled_context \<Rightarrow> context_impact res option" where
  "impact_in_context env before after labeled =
     (case trace_variable_resolution_outcomes_unchecked (in_context env before (lc_context labeled)) of
        None \<Rightarrow> None
      | Some (Inl e) \<Rightarrow> Some (Inl e)
      | Some (Inr bs) \<Rightarrow>
          map_option (\<lambda>r. rbind r (\<lambda>as. Inr (compare_outcomes (lc_label labeled) (outcome_map bs) (outcome_map as))))
            (trace_variable_resolution_outcomes_unchecked (in_context env after (lc_context labeled))))"

fun context_impacts ::
  "'v resolution_env \<Rightarrow> runtime_package \<Rightarrow> runtime_package \<Rightarrow> labeled_context list \<Rightarrow> context_impact list res option" where
  "context_impacts env before after [] = Some (Inr [])"
| "context_impacts env before after (l # ls) =
     (case impact_in_context env before after l of
        None \<Rightarrow> None
      | Some (Inl e) \<Rightarrow> Some (Inl e)
      | Some (Inr c) \<Rightarrow> map_option (\<lambda>r. rbind r (\<lambda>cs. Inr (c # cs))) (context_impacts env before after ls))"

text \<open>A package that does not compile leaves the semantic changes and one error; a panic is passed on.\<close>

definition diff_packages_with_contexts ::
  "'v resolution_env \<Rightarrow> diff_index \<Rightarrow> diff_index \<Rightarrow> runtime_package res \<Rightarrow> runtime_package res
   \<Rightarrow> labeled_context list \<Rightarrow> package_diff_with_contexts res option" where
  "diff_packages_with_contexts env ib ia before after contexts =
     (let changes = diff_models (package_model ib) (package_model ia) in
      case rbind before (\<lambda>b. rbind after (\<lambda>a. Inr (b, a))) of
        Inl Panicked \<Rightarrow> Some (Inl Panicked)
      | Inl (RototoError e) \<Rightarrow>
          Some (Inr \<lparr>pc_changes = changes, pc_context_impacts = [], pc_impact_error = Some e\<rparr>)
      | Inr (b, a) \<Rightarrow>
          map_option (\<lambda>r. rbind r (\<lambda>cs.
              Inr \<lparr>pc_changes = changes, pc_context_impacts = cs, pc_impact_error = None\<rparr>))
            (context_impacts env b a contexts))"

section \<open>Exactly the variables with a different outcome\<close>

lemma outcome_map_get:
  assumes "trace_variable_resolution_outcomes_unchecked env = Some (Inr outs)"
  shows "fst ` set (outcome_map outs) = set (variable_ids env)"
    "map_of (outcome_map outs) v = Some out \<Longrightarrow> vo_id out = v \<and>
      (\<forall>t. vo_trace out = Some t \<longleftrightarrow> trace_variable_unchecked env v = Some (Inr t))"
proof -
  have outs: "list_all2 (\<lambda>i out. vo_id out = i
      \<and> (\<forall>t. vo_trace out = Some t \<longleftrightarrow> trace_variable_unchecked env i = Some (Inr t))
      \<and> (vo_error out = None \<longleftrightarrow> vo_trace out \<noteq> None)) (variable_ids env) outs"
    using assms by (rule lenient_outcomes)
  have "map vo_id outs = variable_ids env" using outs by (induction rule: list_all2_induct) auto
  then show "fst ` set (outcome_map outs) = set (variable_ids env)"
    unfolding outcome_map_def fst_set_bm_of by (simp add: image_image)
    (metis list.set_map)
  assume "map_of (outcome_map outs) v = Some out"
  then have "vo_id out = v" "out \<in> set outs"
    by (auto simp: outcome_map_def map_of_bm_of rev_map dest!: map_of_SomeD)
  then show "vo_id out = v \<and> (\<forall>t. vo_trace out = Some t \<longleftrightarrow> trace_variable_unchecked env v = Some (Inr t))"
    using outs by (fastforce simp: list_all2_conv_all_nth in_set_conv_nth)
qed

definition resolves :: "'v resolution_env \<Rightarrow> string \<Rightarrow> resolution_trace \<Rightarrow> bool" where
  "resolves env v t = (trace_variable_unchecked env v = Some (Inr t))"

lemma resolves_unique: "resolves env v t \<Longrightarrow> resolves env v t' \<Longrightarrow> t = t'"
  by (simp add: resolves_def)

text \<open>What one side's map says of a variable.\<close>

definition side_of :: "'v resolution_env \<Rightarrow> trace_outcome smap \<Rightarrow> bool" where
  "side_of env m =
     (\<forall>v t. resolves env v t \<longleftrightarrow> (\<exists>out. map_of m v = Some out \<and> vo_trace out = Some t))"

lemma outcome_map_side:
  assumes "trace_variable_resolution_outcomes_unchecked env = Some (Inr outs)"
  shows "side_of env (outcome_map outs)"
proof -
  have "\<exists>out. map_of (outcome_map outs) v = Some out" if "resolves env v t" for v t
  proof -
    have "v \<in> set (variable_ids env)"
      using resolved_variable_known that by (force simp: resolves_def variable_ids_def dest: map_of_SomeD)
    then show ?thesis using outcome_map_get(1) [OF assms] by (metis map_of_eq_None_iff not_None_eq)
  qed
  then show ?thesis unfolding side_of_def using outcome_map_get(2) [OF assms] by (metis resolves_def)
qed

lemma side_known: "side_of env m \<Longrightarrow> resolves env v t \<Longrightarrow> v \<in> fst ` set m"
  unfolding side_of_def by (metis map_of_eq_None_iff option.distinct(1))

lemma map_filter_reported:
  "map oi_variable (List.map_filter (reported b a) vs) = filter (\<lambda>v. reported b a v \<noteq> None) vs"
  by (induction vs) (auto simp: map_filter_simps reported_def Let_def)

lemma map_filter_member: "i \<in> set (List.map_filter f vs) \<Longrightarrow> \<exists>v. f v = Some i"
  by (induction vs) (auto simp: map_filter_simps split: option.splits)

lemma counted_iff:
  assumes "side_of eb b" "side_of ea a"
  shows "counted b a v \<longleftrightarrow> (\<exists>t u. resolves eb v t \<and> resolves ea v u)"
  using assms by (fastforce simp: counted_def side_of_def split: option.splits)

lemma reported_iff:
  assumes "side_of eb b" "side_of ea a"
  shows "resolves eb v t \<Longrightarrow> resolves ea v u \<Longrightarrow>
      reported b a v \<noteq> None \<longleftrightarrow> \<not> variable_resolution_eq (tr_resolution t) (tr_resolution u)"
    and "(\<exists>t. resolves eb v t) \<noteq> (\<exists>u. resolves ea v u) \<Longrightarrow> reported b a v \<noteq> None"
    and "reported b a v = Some i \<Longrightarrow> oi_variable i = v \<and>
      (\<forall>r. oi_before i = Some r \<longleftrightarrow> (\<exists>t. resolves eb v t \<and> r = tr_resolution t)) \<and>
      (\<forall>r. oi_after i = Some r \<longleftrightarrow> (\<exists>u. resolves ea v u \<and> r = tr_resolution u))"
  using assms
  by (auto simp: reported_def side_of_def outcome_eq_def Let_def bind_eq_Some_conv split: option.splits if_splits)


definition flag_package :: "bool \<Rightarrow> runtime_package" where
  "flag_package b = variables_package [(''a'', flag_variable ''flag'' (Literal (LBoolean b)))]"

definition impact_env :: "json resolution_env" where
  "impact_env = example_env (flag_package True) (JObject [])"

definition flag_context :: labeled_context where
  "flag_context = \<lparr>lc_label = ''empty'', lc_context = JObject []\<rparr>"


end
