(* ===== verification/Contexts.thy ===== *)
theory Contexts
  imports Memo
begin

text \<open>
  What a variable's resolution asks of the caller's context (src/src/lint/evaluation_context.rs): the
  context paths it reads, itself or through the variables it references, and the declared evaluation
  contexts whose schemas provide all of them with fitting types, which the compiler keeps for each
  variable. Both walks follow references depth first over a cache and the set of the variables being
  visited; they share \<open>memo_visit\<close>, on fuel. One more than the number of variables is enough.
\<close>

section \<open>Types of the paths of a schema\<close>

definition object_property :: "json \<Rightarrow> string \<Rightarrow> json option" where
  "object_property schema segment =
     Option.bind (Option.bind (json_get schema ''properties'') as_object) (\<lambda>props. map_of props segment)"

fun schema_at :: "string list \<Rightarrow> json \<Rightarrow> json option" where
  "schema_at [] schema = Some schema"
| "schema_at (segment # rest) schema =
     (case object_property schema segment of Some s \<Rightarrow> schema_at rest s | None \<Rightarrow> None)"

definition context_schema_field :: "json \<Rightarrow> string \<Rightarrow> json option" where
  "context_schema_field schema attribute =
     (if attribute = [] then None else schema_at (split_on CHR ''.'' attribute) schema)"

fun json_value_type_token :: "json \<Rightarrow> string option" where
  "json_value_type_token (JString _) = Some ''string''"
| "json_value_type_token (JBool _) = Some ''boolean''"
| "json_value_type_token (JNumber _) = Some ''number''"
| "json_value_type_token _ = None"

definition token_set :: "string list \<Rightarrow> string bset option" where
  "token_set tokens = (if tokens = [] then None else Some (fold bs_insert tokens []))"

definition schema_field_type_tokens :: "json \<Rightarrow> string bset option" where
  "schema_field_type_tokens field =
     (case json_get field ''type'' of
        Some (JString token) \<Rightarrow> Some [token]
      | Some (JArray tokens) \<Rightarrow> token_set (List.map_filter as_str tokens)
      | Some _ \<Rightarrow> None
      | None \<Rightarrow>
          (case json_get field ''const'' of
             Some constant \<Rightarrow> map_option (\<lambda>token. [token]) (json_value_type_token constant)
           | None \<Rightarrow>
               (case json_get field ''enum'' of
                  Some (JArray vs) \<Rightarrow> token_set (List.map_filter json_value_type_token vs)
                | _ \<Rightarrow> None)))"

datatype context_path_fit = FitMissing | FitUntyped | FitMismatch | FitOk

definition constraint_met :: "string bset \<Rightarrow> string option \<Rightarrow> scalar_type \<Rightarrow> bool" where
  "constraint_met declared declared_format ty =
     (list_ex (matches_schema_type ty) declared
      \<and> (required_formats ty = []
         \<or> (case declared_format of Some f \<Rightarrow> f \<in> set (required_formats ty) | None \<Rightarrow> False)))"

definition context_path_type_fit :: "json \<Rightarrow> string \<Rightarrow> scalar_type bset \<Rightarrow> context_path_fit" where
  "context_path_type_fit schema path constraints =
     (case context_schema_field schema path of
        None \<Rightarrow> FitMissing
      | Some field \<Rightarrow>
          if constraints = [] then FitOk
          else (case schema_field_type_tokens field of
                  None \<Rightarrow> FitUntyped
                | Some declared \<Rightarrow>
                    if list_all (constraint_met declared (json_str field ''format'')) constraints
                    then FitOk else FitMismatch))"

definition context_path_declaration :: "json \<Rightarrow> string \<Rightarrow> string list option" where
  "context_path_declaration schema path =
     map_option (\<lambda>field. case schema_field_type_tokens field of Some tokens \<Rightarrow> tokens | None \<Rightarrow> [])
       (context_schema_field schema path)"

definition expected_type_label :: "scalar_type bset \<Rightarrow> string" where
  "expected_type_label constraints = join_with '' or '' (map type_label constraints)"

section \<open>The expressions a variable is resolved with\<close>

definition variable_resolve_rules :: "variable_node \<Rightarrow> rule_node list option" where
  "variable_resolve_rules vn =
     (case vn_resolve vn of
        Resolve body \<Rightarrow> (case rb_rules body of Rules rules \<Rightarrow> Some rules | InvalidRules \<Rightarrow> None)
      | _ \<Rightarrow> None)"

definition present_expression :: "expression project_field option \<Rightarrow> expression list" where
  "present_expression field = (case field of Some (Present e) \<Rightarrow> [e] | _ \<Rightarrow> [])"

definition variable_rule_conditions :: "variable_node \<Rightarrow> expression list" where
  "variable_rule_conditions vn =
     (case variable_resolve_rules vn of
        Some rules \<Rightarrow> concat (map (\<lambda>r. present_expression (rn_when r)) rules)
      | None \<Rightarrow> [])"

definition variable_query_expressions :: "variable_node \<Rightarrow> expression list" where
  "variable_query_expressions vn =
     (case vn_resolve vn of
        Resolve body \<Rightarrow>
          (case rb_query body of
             Some q \<Rightarrow> present_expression (qn_filter q) @ present_expression (qn_sort q)
           | None \<Rightarrow> [])
      | _ \<Rightarrow> [])"

definition variable_allocation_expressions :: "semantic_index \<Rightarrow> variable_node \<Rightarrow> expression list" where
  "variable_allocation_expressions ix vn =
     (case vn_resolve vn of
        Resolve body \<Rightarrow>
          (case rb_assignments body of
             Some an \<Rightarrow>
               (case as_allocation an of
                  Present i \<Rightarrow>
                    (case find_allocation i (map snd (ix_layers ix)) of
                       Some (ly, al) \<Rightarrow>
                         present_expression (Some (ly_unit ly)) @ present_expression (al_eligibility al)
                     | None \<Rightarrow> [])
                | _ \<Rightarrow> [])
           | None \<Rightarrow> [])
      | _ \<Rightarrow> [])"

text \<open>The order in which both walks meet them.\<close>

definition variable_expressions :: "semantic_index \<Rightarrow> variable_node \<Rightarrow> expression list" where
  "variable_expressions ix vn =
     variable_rule_conditions vn @ variable_query_expressions vn @ variable_allocation_expressions ix vn"

definition refers_to_something :: "expression \<Rightarrow> bool" where
  "refers_to_something e = (ref_variables (refs e) \<noteq> [] \<or> context_paths (refs e) \<noteq> [])"

definition variable_rule_condition_reference_count :: "semantic_index \<Rightarrow> string \<Rightarrow> nat" where
  "variable_rule_condition_reference_count ix i =
     (case map_of (ix_variables ix) i of
        None \<Rightarrow> 0
      | Some vn \<Rightarrow>
          (case variable_resolve_rules vn of
             Some rules \<Rightarrow>
               length (filter (\<lambda>r. list_ex refers_to_something (present_expression (rn_when r))) rules)
           | None \<Rightarrow> 0))"

definition path_declared_in_any_context :: "semantic_index \<Rightarrow> string \<Rightarrow> bool" where
  "path_declared_in_any_context ix path =
     (path \<noteq> [] \<and> list_ex (\<lambda>(_, en). case en_json en of
        Some schema \<Rightarrow> context_schema_field schema path \<noteq> None | None \<Rightarrow> False) (ix_evaluation_contexts ix))"

definition context_path_names :: "expression \<Rightarrow> string list" where
  "context_path_names e = filter (\<lambda>p. p \<noteq> []) (context_paths (refs e))"

section \<open>Depth first with a cache\<close>

record 'c builder =
  bu_cache :: "string \<Rightarrow> 'c option"
  bu_visiting :: "string set"

definition new_builder :: "'c builder" where
  "new_builder = \<lparr>bu_cache = (\<lambda>_. None), bu_visiting = {}\<rparr>"

type_synonym ('c, 'a) walk = "'c builder \<Rightarrow> ('a \<times> 'c builder) option"

fun visit_each :: "('a \<Rightarrow> ('c, 'b) walk) \<Rightarrow> 'a list \<Rightarrow> ('c, 'b list) walk" where
  "visit_each f [] s = Some ([], s)"
| "visit_each f (x # xs) s =
     (case f x s of
        None \<Rightarrow> None
      | Some (y, s1) \<Rightarrow>
          (case visit_each f xs s1 of None \<Rightarrow> None | Some (ys, s2) \<Rightarrow> Some (y # ys, s2)))"

definition enter_visit :: "string \<Rightarrow> 'c builder \<Rightarrow> 'c builder" where
  "enter_visit i s = s\<lparr>bu_visiting := insert i (bu_visiting s)\<rparr>"

definition leave_visit :: "string \<Rightarrow> 'c \<times> 'c builder \<Rightarrow> 'c \<times> 'c builder" where
  "leave_visit i p =
     (fst p, (snd p)\<lparr>bu_visiting := bu_visiting (snd p) - {i}, bu_cache := (bu_cache (snd p))(i \<mapsto> fst p)\<rparr>)"

text \<open>\<open>on_cycle\<close> answers for a variable whose visit is not over yet.\<close>

fun memo_visit ::
  "'c \<Rightarrow> ((string \<Rightarrow> ('c, 'c) walk) \<Rightarrow> string \<Rightarrow> ('c, 'c) walk) \<Rightarrow> nat \<Rightarrow> string \<Rightarrow> ('c, 'c) walk" where
  "memo_visit on_cycle uncached 0 i s = None"
| "memo_visit on_cycle uncached (Suc n) i s =
     (case bu_cache s i of
        Some c \<Rightarrow> Some (c, s)
      | None \<Rightarrow>
          if i \<in> bu_visiting s then Some (on_cycle, s)
          else map_option (leave_visit i)
            (uncached (memo_visit on_cycle uncached n) i (enter_visit i s)))"

section \<open>Compatible evaluation contexts\<close>

text \<open>The intersection of what has been required so far with one more requirement; \<open>None\<close> requires
  nothing.\<close>

definition narrow :: "string bset option \<Rightarrow> string bset option \<Rightarrow> string bset option" where
  "narrow required further =
     (case further of
        None \<Rightarrow> required
      | Some ids \<Rightarrow>
          (case required of None \<Rightarrow> Some ids | Some current \<Rightarrow> Some (filter (\<lambda>i. i \<in> set ids) current)))"

definition narrow_all :: "string bset option list \<Rightarrow> string bset option" where
  "narrow_all = foldl narrow None"

definition path_constraints :: "expression \<Rightarrow> string \<Rightarrow> scalar_type bset" where
  "path_constraints e path =
     (case map_of (context_path_types (refs e)) path of Some tys \<Rightarrow> tys | None \<Rightarrow> [])"

definition context_provides :: "evaluation_context_node \<Rightarrow> string \<Rightarrow> scalar_type bset \<Rightarrow> bool" where
  "context_provides en path constraints =
     (case en_json en of
        Some schema \<Rightarrow> context_path_type_fit schema path constraints = FitOk | None \<Rightarrow> False)"

definition path_contexts :: "semantic_index \<Rightarrow> expression \<Rightarrow> string \<Rightarrow> string bset" where
  "path_contexts ix e path =
     fold (\<lambda>(_, en) ids. if context_provides en path (path_constraints e path)
                         then bs_insert (en_id en) ids else ids) (ix_evaluation_contexts ix) []"

definition expression_contexts ::
  "semantic_index \<Rightarrow> (string \<Rightarrow> ('c, string bset option) walk) \<Rightarrow> expression \<Rightarrow> ('c, string bset option) walk" where
  "expression_contexts ix visit e s =
     map_option (\<lambda>(cs, s'). (narrow_all (cs @ map (Some \<circ> path_contexts ix e) (context_path_names e)), s'))
       (visit_each visit (ref_variables (refs e)) s)"

definition narrows_contexts :: "expression \<Rightarrow> bool" where
  "narrows_contexts e = (ref_variables (refs e) \<noteq> [] \<or> context_path_names e \<noteq> [])"

definition variable_contexts_uncached ::
  "semantic_index \<Rightarrow> (string \<Rightarrow> ('c, string bset option) walk) \<Rightarrow> string \<Rightarrow> ('c, string bset option) walk" where
  "variable_contexts_uncached ix visit i s =
     (case map_of (ix_variables ix) i of
        None \<Rightarrow> Some (None, s)
      | Some vn \<Rightarrow>
          map_option (\<lambda>(cs, s'). (narrow_all cs, s'))
            (visit_each (expression_contexts ix visit) (filter narrows_contexts (variable_expressions ix vn)) s))"

definition variable_contexts ::
  "nat \<Rightarrow> semantic_index \<Rightarrow> string \<Rightarrow> (string bset option, string bset option) walk" where
  "variable_contexts n ix = memo_visit (Some []) (variable_contexts_uncached ix) n"

record context_compatibility =
  cc_variables :: "string bset smap"
  cc_context_dependent :: "string bset"

definition compatibility_of :: "string list \<Rightarrow> string bset option list \<Rightarrow> context_compatibility" where
  "compatibility_of ids cs =
     \<lparr>cc_variables = bm_of (zip ids (map (\<lambda>c. case c of Some ctxs \<Rightarrow> ctxs | None \<Rightarrow> []) cs)),
      cc_context_dependent = fold bs_insert (map fst (filter (\<lambda>(_, c). c \<noteq> None) (zip ids cs))) []\<rparr>"

definition walk_fuel :: "semantic_index \<Rightarrow> nat" where
  "walk_fuel ix = Suc (length (ix_variables ix))"

definition compatibility_for :: "semantic_index \<Rightarrow> context_compatibility option" where
  "compatibility_for ix =
     (let ids = map fst (ix_variables ix) in
      map_option (\<lambda>(cs, _). compatibility_of ids cs)
        (visit_each (variable_contexts (walk_fuel ix) ix) ids new_builder))"

section \<open>Paths read\<close>

definition expression_paths ::
  "(string \<Rightarrow> ('c, string bset) walk) \<Rightarrow> expression \<Rightarrow> ('c, string bset) walk" where
  "expression_paths visit e s =
     map_option (\<lambda>(ps, s'). (fold bs_insert (context_path_names e @ concat ps) [], s'))
       (visit_each visit (ref_variables (refs e)) s)"

definition variable_paths_uncached ::
  "semantic_index \<Rightarrow> (string \<Rightarrow> ('c, string bset) walk) \<Rightarrow> string \<Rightarrow> ('c, string bset) walk" where
  "variable_paths_uncached ix visit i s =
     (case map_of (ix_variables ix) i of
        None \<Rightarrow> Some ([], s)
      | Some vn \<Rightarrow>
          map_option (\<lambda>(ps, s'). (fold bs_insert (concat ps) [], s'))
            (visit_each (expression_paths visit) (variable_expressions ix vn) s))"

definition variable_paths :: "nat \<Rightarrow> semantic_index \<Rightarrow> string \<Rightarrow> (string bset, string bset) walk" where
  "variable_paths n ix = memo_visit [] (variable_paths_uncached ix) n"

definition context_paths_of :: "semantic_index \<Rightarrow> string bset smap option" where
  "context_paths_of ix =
     (let ids = map fst (ix_variables ix) in
      map_option (\<lambda>(ps, _). bm_of (zip ids ps))
        (visit_each (variable_paths (walk_fuel ix) ix) ids new_builder))"

section \<open>The walk over any references\<close>

lemma visit_each_returns:
  assumes "\<And>x s. x \<in> set xs \<Longrightarrow> I s \<Longrightarrow> \<exists>y s'. f x s = Some (y, s') \<and> I s' \<and> Q x y" and "I s"
  shows "\<exists>ys s'. visit_each f xs s = Some (ys, s') \<and> I s' \<and> list_all2 Q xs ys"
  using assms
proof (induction xs arbitrary: s)
  case (Cons x xs)
  obtain y s1 where 1: "f x s = Some (y, s1)" "I s1" "Q x y" using Cons.prems by (metis list.set_intros(1))
  have "\<exists>ys s'. visit_each f xs s1 = Some (ys, s') \<and> I s' \<and> list_all2 Q xs ys"
    by (rule Cons.IH [OF _ 1(2)]) (rule Cons.prems, simp_all)
  with 1 show ?case by auto
qed simp

text \<open>
  \<open>right i c\<close>: \<open>c\<close> answers for \<open>i\<close>. The body is right for \<open>i\<close> when the visits it makes are right, and the
  early answer is right on a cycle.
\<close>

locale memo_walk =
  fixes succs :: "string \<Rightarrow> string set" and known :: "string set"
    and right :: "string \<Rightarrow> 'c \<Rightarrow> bool" and on_cycle :: 'c
    and uncached :: "(string \<Rightarrow> ('c, 'c) walk) \<Rightarrow> string \<Rightarrow> ('c, 'c) walk"
  assumes finite_known: "finite known"
    and succs_known: "i \<notin> known \<Longrightarrow> succs i = {}"
    and on_cycle_right: "(i, i) \<in> {(a, b). b \<in> succs a}\<^sup>+ \<Longrightarrow> right i on_cycle"
    and uncached_right: "\<lbrakk>\<And>w s. w \<in> succs i \<Longrightarrow> I s \<Longrightarrow> \<exists>c s'. visit w s = Some (c, s') \<and> I s' \<and> right w c; I s\<rbrakk>
      \<Longrightarrow> \<exists>c s'. uncached visit i s = Some (c, s') \<and> I s' \<and> right i c"
begin

definition consistent_walk :: "string set \<Rightarrow> 'c builder \<Rightarrow> bool" where
  "consistent_walk G s = (bu_visiting s = G \<and> (\<forall>k c. bu_cache s k = Some c \<longrightarrow> right k c))"

lemma visit_right:
  "card (known - G) < n \<Longrightarrow> (\<And>g. g \<in> G \<Longrightarrow> (g, i) \<in> {(a, b). b \<in> succs a}\<^sup>+) \<Longrightarrow> consistent_walk G s \<Longrightarrow>
   \<exists>c s'. memo_visit on_cycle uncached n i s = Some (c, s') \<and> consistent_walk G s' \<and> right i c"
proof (induction n arbitrary: G i s)
  case (Suc n)
  note J = Suc.prems(3)
  consider (cached) c where "bu_cache s i = Some c" | (open_visit) "bu_cache s i = None" "i \<in> G"
    | (fresh) "bu_cache s i = None" "i \<notin> G" by blast
  then show ?case
  proof cases
    case open_visit
    then show ?thesis using J on_cycle_right [OF Suc.prems(2)] by (auto simp: consistent_walk_def)
  next
    case fresh
    have visits: "\<exists>c s'. memo_visit on_cycle uncached n w s1 = Some (c, s') \<and> consistent_walk (insert i G) s' \<and> right w c"
      if w: "w \<in> succs i" and s1: "consistent_walk (insert i G) s1" for w s1
    proof (rule Suc.IH [OF _ _ s1])
      have "i \<in> known" using w succs_known by blast
      then have "card (known - insert i G) < card (known - G)"
        by (intro psubset_card_mono) (use finite_known fresh(2) in auto)
      with Suc.prems(1) show "card (known - insert i G) < n" by linarith
      fix g assume "g \<in> insert i G"
      then show "(g, w) \<in> {(a, b). b \<in> succs a}\<^sup>+"
        using w Suc.prems(2) [of g] by (auto intro: trancl_into_trancl)
    qed
    have "consistent_walk (insert i G) (enter_visit i s)" using J by (simp add: consistent_walk_def enter_visit_def)
    with visits have "\<exists>c s'. uncached (memo_visit on_cycle uncached n) i (enter_visit i s) = Some (c, s')
        \<and> consistent_walk (insert i G) s' \<and> right i c"
      by (intro uncached_right [where I = "consistent_walk (insert i G)"]) simp_all
    then obtain c s' where c: "uncached (memo_visit on_cycle uncached n) i (enter_visit i s) = Some (c, s')"
      "consistent_walk (insert i G) s'" "right i c" by blast
    then have "consistent_walk G (snd (leave_visit i (c, s')))"
      using fresh(2) by (auto simp: consistent_walk_def leave_visit_def)
    with c fresh J show ?thesis by (auto simp: consistent_walk_def leave_visit_def)
  qed (use J in \<open>auto simp: consistent_walk_def\<close>)
qed simp

lemma visits_right:
  assumes "card known < n"
  shows "\<exists>cs s'. visit_each (memo_visit on_cycle uncached n) is new_builder = Some (cs, s') \<and> list_all2 right is cs"
proof -
  have "\<exists>cs s'. visit_each (memo_visit on_cycle uncached n) is new_builder = Some (cs, s')
      \<and> consistent_walk {} s' \<and> list_all2 right is cs"
    by (rule visit_each_returns) (use visit_right [of "{}" n] assms in \<open>auto simp: consistent_walk_def new_builder_def\<close>)
  then show ?thesis by blast
qed

end

section \<open>What a variable reads\<close>

definition expressions_of :: "semantic_index \<Rightarrow> string \<Rightarrow> expression list" where
  "expressions_of ix i = (case map_of (ix_variables ix) i of Some vn \<Rightarrow> variable_expressions ix vn | None \<Rightarrow> [])"

definition references_of :: "semantic_index \<Rightarrow> string \<Rightarrow> string set" where
  "references_of ix i = (\<Union>e \<in> set (expressions_of ix i). set (ref_variables (refs e)))"

abbreviation depends :: "semantic_index \<Rightarrow> (string \<times> string) set" where
  "depends ix \<equiv> {(a, b). b \<in> references_of ix a}"

definition reads_locally :: "semantic_index \<Rightarrow> string \<Rightarrow> (expression \<times> string) set" where
  "reads_locally ix i = {(e, p). e \<in> set (expressions_of ix i) \<and> p \<in> set (context_path_names e)}"

definition reads :: "semantic_index \<Rightarrow> string \<Rightarrow> (expression \<times> string) set" where
  "reads ix i = (\<Union>w \<in> {w. (i, w) \<in> (depends ix)\<^sup>*}. reads_locally ix w)"

definition loops :: "semantic_index \<Rightarrow> string \<Rightarrow> bool" where
  "loops ix i = (\<exists>w. (i, w) \<in> (depends ix)\<^sup>* \<and> (w, w) \<in> (depends ix)\<^sup>+)"

lemma reads_unfold: "reads ix i = reads_locally ix i \<union> (\<Union>w \<in> references_of ix i. reads ix w)"
proof -
  have "{w. (i, w) \<in> (depends ix)\<^sup>*} = {i} \<union> (\<Union>j \<in> references_of ix i. {w. (j, w) \<in> (depends ix)\<^sup>*})"
    by (auto elim: converse_rtranclE intro: converse_rtrancl_into_rtrancl)
  then show ?thesis by (auto simp: reads_def)
qed

lemma loops_unfold: "loops ix i \<longleftrightarrow> (\<exists>w \<in> references_of ix i. loops ix w)"
proof
  assume "loops ix i"
  then obtain w where w: "(i, w) \<in> (depends ix)\<^sup>*" "(w, w) \<in> (depends ix)\<^sup>+" by (auto simp: loops_def)
  have "(i, w) \<in> (depends ix)\<^sup>+" using w by (cases "i = w") (auto simp: rtrancl_eq_or_trancl)
  then obtain j where "j \<in> references_of ix i" "(j, w) \<in> (depends ix)\<^sup>*" by (auto dest: tranclD)
  with w(2) show "\<exists>w \<in> references_of ix i. loops ix w" by (auto simp: loops_def)
qed (auto simp: loops_def intro: converse_rtrancl_into_rtrancl)

lemma cyclic_loops: "(i, i) \<in> (depends ix)\<^sup>+ \<Longrightarrow> loops ix i"
  by (auto simp: loops_def)

lemma undeclared_refers_to_nothing: "i \<notin> fst ` set (ix_variables ix) \<Longrightarrow> references_of ix i = {}"
  by (simp add: references_of_def expressions_of_def map_of_eq_None_iff [symmetric])

lemma card_declared: "card (fst ` set (ix_variables ix)) < walk_fuel ix"
  using card_length [of "map fst (ix_variables ix)"] by (simp add: walk_fuel_def)

section \<open>The walks are exact\<close>

definition allowed :: "string bset option \<Rightarrow> string set" where
  "allowed c = (case c of None \<Rightarrow> UNIV | Some ids \<Rightarrow> set ids)"

lemma narrow_simps: "narrow a b = None \<longleftrightarrow> a = None \<and> b = None" "allowed (narrow a b) = allowed a \<inter> allowed b"
  by (auto simp: narrow_def allowed_def split: option.splits)

lemma narrow_all_simps:
  "narrow_all cs = None \<longleftrightarrow> (\<forall>c \<in> set cs. c = None)" "allowed (narrow_all cs) = (\<Inter>c \<in> set cs. allowed c)"
proof -
  have "foldl narrow a cs = None \<longleftrightarrow> a = None \<and> (\<forall>c \<in> set cs. c = None)"
    "allowed (foldl narrow a cs) = allowed a \<inter> (\<Inter>c \<in> set cs. allowed c)" for a
    by (induction cs arbitrary: a) (auto simp: narrow_simps)
  from this [of None] show "narrow_all cs = None \<longleftrightarrow> (\<forall>c \<in> set cs. c = None)"
    "allowed (narrow_all cs) = (\<Inter>c \<in> set cs. allowed c)"
    by (simp_all add: narrow_all_def, simp add: allowed_def)
qed

text \<open>The ids of the declared contexts that provide everything in a set of reads.\<close>

definition providers :: "semantic_index \<Rightarrow> (expression \<times> string) set \<Rightarrow> string set" where
  "providers ix R = {i. \<forall>(e, p) \<in> R. i \<in> set (path_contexts ix e p)}"

lemma set_path_contexts:
  "set (path_contexts ix e p) =
     en_id ` {en \<in> snd ` set (ix_evaluation_contexts ix). context_provides en p (path_constraints e p)}"
proof -
  have "set (fold (\<lambda>(_, en) ids. if P en then bs_insert (en_id en) ids else ids) xs acc) =
      set acc \<union> en_id ` {en \<in> snd ` set xs. P en}" for P and xs :: "(string \<times> evaluation_context_node) list" and acc
    by (induction xs arbitrary: acc) (auto split: if_splits)
  from this [of _ _ "[]"] show ?thesis by (simp add: path_contexts_def)
qed

definition right_contexts :: "semantic_index \<Rightarrow> string \<Rightarrow> string bset option \<Rightarrow> bool" where
  "right_contexts ix i c =
     ((c = None \<longleftrightarrow> \<not> loops ix i \<and> reads ix i = {})
      \<and> allowed c = (if loops ix i then {} else providers ix (reads ix i)))"

definition right_paths :: "semantic_index \<Rightarrow> string \<Rightarrow> string bset \<Rightarrow> bool" where
  "right_paths ix i ps =
     (set ps \<subseteq> snd ` reads ix i \<and> (\<not> loops ix i \<longrightarrow> set ps = snd ` reads ix i))"

lemma required_paths:
  "(\<forall>c \<in> set (map (Some \<circ> f) ps). c = None) \<longleftrightarrow> ps = []"
  "(\<Inter>c \<in> set (map (Some \<circ> f) ps). allowed c) = (\<Inter>p \<in> set ps. set (f p))"
  by (cases ps) (simp_all add: allowed_def)

lemma narrow_all_append:
  "narrow_all (as @ bs) = None \<longleftrightarrow> (\<forall>c \<in> set as. c = None) \<and> (\<forall>c \<in> set bs. c = None)"
  "allowed (narrow_all (as @ bs)) = (\<Inter>c \<in> set as. allowed c) \<inter> (\<Inter>c \<in> set bs. allowed c)"
  unfolding narrow_all_simps set_append by (rule ball_Un, rule INT_Un)

definition asks_nothing :: "semantic_index \<Rightarrow> expression \<Rightarrow> bool" where
  "asks_nothing ix e =
     ((\<forall>w \<in> set (ref_variables (refs e)). \<not> loops ix w \<and> reads ix w = {}) \<and> context_path_names e = [])"

definition expression_allows :: "semantic_index \<Rightarrow> expression \<Rightarrow> string set" where
  "expression_allows ix e =
     (\<Inter>w \<in> set (ref_variables (refs e)). if loops ix w then {} else providers ix (reads ix w))
     \<inter> (\<Inter>p \<in> set (context_path_names e). set (path_contexts ix e p))"

definition expression_right :: "semantic_index \<Rightarrow> expression \<Rightarrow> string bset option \<Rightarrow> bool" where
  "expression_right ix e c = ((c = None \<longleftrightarrow> asks_nothing ix e) \<and> allowed c = expression_allows ix e)"

lemma expression_contexts_right:
  assumes "\<And>w s. w \<in> set (ref_variables (refs e)) \<Longrightarrow> I s \<Longrightarrow>
      \<exists>c s'. visit w s = Some (c, s') \<and> I s' \<and> right_contexts ix w c" and "I s"
  shows "\<exists>c s'. expression_contexts ix visit e s = Some (c, s') \<and> I s' \<and> expression_right ix e c"
proof -
  obtain cs s' where cs: "visit_each visit (ref_variables (refs e)) s = Some (cs, s')" "I s'"
    "list_all2 (right_contexts ix) (ref_variables (refs e)) cs"
    using visit_each_returns [of "ref_variables (refs e)" I visit "right_contexts ix", OF assms(1) assms(2)] by blast
  from cs(3) have "(\<forall>c \<in> set cs. c = None) \<longleftrightarrow>
      (\<forall>w \<in> set (ref_variables (refs e)). \<not> loops ix w \<and> reads ix w = {})"
    "(\<Inter>c \<in> set cs. allowed c) =
      (\<Inter>w \<in> set (ref_variables (refs e)). if loops ix w then {} else providers ix (reads ix w))"
    by (induction rule: list_all2_induct) (auto simp: right_contexts_def)
  then have "expression_right ix e (narrow_all (cs @ map (Some \<circ> path_contexts ix e) (context_path_names e)))"
    unfolding expression_right_def asks_nothing_def expression_allows_def narrow_all_append required_paths by simp
  with cs(1,2) show ?thesis by (simp add: expression_contexts_def)
qed

lemma unconstrained: "\<not> narrows_contexts e \<Longrightarrow> asks_nothing ix e \<and> expression_allows ix e = UNIV"
  by (simp add: narrows_contexts_def asks_nothing_def expression_allows_def)

lemma expressions_right:
  "list_all2 (expression_right ix) (filter narrows_contexts es) cs \<Longrightarrow>
     ((\<forall>c \<in> set cs. c = None) \<longleftrightarrow> (\<forall>e \<in> set es. asks_nothing ix e))
     \<and> (\<Inter>c \<in> set cs. allowed c) = (\<Inter>e \<in> set es. expression_allows ix e)"
proof (induction es arbitrary: cs)
  case (Cons e es)
  show ?case
  proof (cases "narrows_contexts e")
    case True
    then obtain c cs' where cs: "cs = c # cs'" "expression_right ix e c"
      "list_all2 (expression_right ix) (filter narrows_contexts es) cs'"
      using Cons.prems by (auto simp: list_all2_Cons1)
    note IH = Cons.IH [OF cs(3)]
    show ?thesis using conjunct1 [OF IH] conjunct2 [OF IH] cs(2)
      unfolding cs(1) expression_right_def by simp
  next
    case False
    then show ?thesis using Cons unconstrained [OF False, of ix] by simp
  qed
qed simp

lemma asks_nothing_all:
  "(\<forall>e \<in> set (expressions_of ix i). asks_nothing ix e) \<longleftrightarrow> \<not> loops ix i \<and> reads ix i = {}"
  unfolding loops_unfold [of ix i] reads_unfold [of ix i]
  by (auto simp: asks_nothing_def references_of_def reads_locally_def)

lemma providers_simps: "providers ix (R \<union> S) = providers ix R \<inter> providers ix S" "providers ix {} = UNIV"
  "providers ix (\<Union>w \<in> W. F w) = (\<Inter>w \<in> W. providers ix (F w))"
  by (auto simp: providers_def)

lemma expression_allows_all:
  "(\<Inter>e \<in> set (expressions_of ix i). expression_allows ix e) =
     (if loops ix i then {} else providers ix (reads ix i))"
proof (cases "loops ix i")
  case True
  then obtain e w where e: "e \<in> set (expressions_of ix i)" "w \<in> set (ref_variables (refs e))" "loops ix w"
    unfolding loops_unfold [of ix i] by (auto simp: references_of_def)
  then have "expression_allows ix e = {}" by (auto simp: expression_allows_def intro!: bexI [of _ w])
  with e(1) True show ?thesis by auto
next
  case False
  then have "\<not> loops ix w" if "w \<in> references_of ix i" for w using that loops_unfold [of ix i] by blast
  then have "expression_allows ix e = (\<Inter>w \<in> set (ref_variables (refs e)). providers ix (reads ix w))
      \<inter> (\<Inter>p \<in> set (context_path_names e). set (path_contexts ix e p))"
    if "e \<in> set (expressions_of ix i)" for e
    using that unfolding expression_allows_def
    by (intro arg_cong2 [of _ _ _ _ "(\<inter>)"] INF_cong refl) (auto simp: references_of_def)
  then have "(\<Inter>e \<in> set (expressions_of ix i). expression_allows ix e) =
      (\<Inter>w \<in> references_of ix i. providers ix (reads ix w))
      \<inter> (\<Inter>e \<in> set (expressions_of ix i). \<Inter>p \<in> set (context_path_names e). set (path_contexts ix e p))"
    by (auto simp: references_of_def)
  also have "(\<Inter>e \<in> set (expressions_of ix i). \<Inter>p \<in> set (context_path_names e). set (path_contexts ix e p))
      = providers ix (reads_locally ix i)"
    by (auto simp: providers_def reads_locally_def)
  finally show ?thesis using False by (simp add: reads_unfold [of ix i] providers_simps Int_commute)
qed

lemma contexts_walk:
  "memo_walk (references_of ix) (fst ` set (ix_variables ix)) (right_contexts ix) (Some [])
     (variable_contexts_uncached ix)"
proof
  fix i assume "(i, i) \<in> (depends ix)\<^sup>+"
  then show "right_contexts ix i (Some [])" using cyclic_loops by (simp add: right_contexts_def allowed_def)
next
  fix i s and I :: "string bset option builder \<Rightarrow> bool"
    and visit :: "string \<Rightarrow> (string bset option, string bset option) walk"
  assume visit: "\<And>w s. w \<in> references_of ix i \<Longrightarrow> I s \<Longrightarrow>
      \<exists>c s'. visit w s = Some (c, s') \<and> I s' \<and> right_contexts ix w c" and "I s"
  let ?es = "filter narrows_contexts (expressions_of ix i)"
  have "\<exists>c s'. expression_contexts ix visit e s = Some (c, s') \<and> I s' \<and> expression_right ix e c"
    if "e \<in> set ?es" "I s" for e s
    using that by (intro expression_contexts_right [where I = I] visit) (auto simp: references_of_def)
  from visit_each_returns [of ?es I "expression_contexts ix visit" "expression_right ix", OF this \<open>I s\<close>]
  obtain cs s' where cs: "visit_each (expression_contexts ix visit) ?es s = Some (cs, s')" "I s'"
    "list_all2 (expression_right ix) ?es cs" by blast
  have "right_contexts ix i (narrow_all cs)"
    using expressions_right [OF cs(3)]
    by (simp add: right_contexts_def narrow_all_simps asks_nothing_all expression_allows_all)
  moreover have "variable_contexts_uncached ix visit i s = Some (if map_of (ix_variables ix) i = None then None else narrow_all cs, if map_of (ix_variables ix) i = None then s else s')"
    using cs(1) by (auto simp: variable_contexts_uncached_def expressions_of_def split: option.splits)
  moreover have "narrow_all cs = None \<and> s' = s" if "map_of (ix_variables ix) i = None"
    using cs(1) that by (simp add: expressions_of_def narrow_all_def)
  ultimately show "\<exists>c s'. variable_contexts_uncached ix visit i s = Some (c, s') \<and> I s' \<and> right_contexts ix i c"
    using cs(2) \<open>I s\<close> by (cases "map_of (ix_variables ix) i = None") auto
qed (simp_all add: undeclared_refers_to_nothing)

interpretation context_walk: memo_walk "references_of ix" "fst ` set (ix_variables ix)" "right_contexts ix"
  "Some []" "variable_contexts_uncached ix"
  by (rule contexts_walk)

lemma set_fold_bs_insert: "set (fold bs_insert xs acc) = set xs \<union> set acc"
  by (induction xs arbitrary: acc) auto

definition paths_below :: "semantic_index \<Rightarrow> expression \<Rightarrow> string set" where
  "paths_below ix e = set (context_path_names e) \<union> (\<Union>w \<in> set (ref_variables (refs e)). snd ` reads ix w)"

definition expression_paths_ok :: "semantic_index \<Rightarrow> expression \<Rightarrow> string bset \<Rightarrow> bool" where
  "expression_paths_ok ix e ps =
     (set ps \<subseteq> paths_below ix e
      \<and> ((\<forall>w \<in> set (ref_variables (refs e)). \<not> loops ix w) \<longrightarrow> set ps = paths_below ix e))"

lemma expression_paths_right:
  assumes "\<And>w s. w \<in> set (ref_variables (refs e)) \<Longrightarrow> I s \<Longrightarrow>
      \<exists>c s'. visit w s = Some (c, s') \<and> I s' \<and> right_paths ix w c" and "I s"
  shows "\<exists>ps s'. expression_paths visit e s = Some (ps, s') \<and> I s' \<and> expression_paths_ok ix e ps"
proof -
  obtain cs s' where cs: "visit_each visit (ref_variables (refs e)) s = Some (cs, s')" "I s'"
    "list_all2 (right_paths ix) (ref_variables (refs e)) cs"
    using visit_each_returns [of "ref_variables (refs e)" I visit "right_paths ix", OF assms(1) assms(2)] by blast
  from cs(3) have "(\<Union>c \<in> set cs. set c) \<subseteq> (\<Union>w \<in> set (ref_variables (refs e)). snd ` reads ix w)
    \<and> ((\<forall>w \<in> set (ref_variables (refs e)). \<not> loops ix w) \<longrightarrow>
        (\<Union>c \<in> set cs. set c) = (\<Union>w \<in> set (ref_variables (refs e)). snd ` reads ix w))"
    by (induction rule: list_all2_induct) (auto simp: right_paths_def)
  then have "expression_paths_ok ix e (fold bs_insert (context_path_names e @ concat cs) [])"
    unfolding expression_paths_ok_def paths_below_def set_fold_bs_insert set_append set_concat by auto
  with cs(1,2) show ?thesis by (simp add: expression_paths_def)
qed

lemma paths_of_expressions:
  assumes "list_all2 (expression_paths_ok ix) (expressions_of ix i) pss"
  shows "right_paths ix i (fold bs_insert (concat pss) [])"
proof -
  from assms have "(\<Union>ps \<in> set pss. set ps) \<subseteq> (\<Union>e \<in> set (expressions_of ix i). paths_below ix e)
    \<and> ((\<forall>e \<in> set (expressions_of ix i). \<forall>w \<in> set (ref_variables (refs e)). \<not> loops ix w) \<longrightarrow>
        (\<Union>ps \<in> set pss. set ps) = (\<Union>e \<in> set (expressions_of ix i). paths_below ix e))"
    by (induction rule: list_all2_induct) (auto simp: expression_paths_ok_def)
  moreover have "(\<Union>e \<in> set (expressions_of ix i). paths_below ix e) = snd ` reads ix i"
  proof -
    have "snd ` reads_locally ix i = (\<Union>e \<in> set (expressions_of ix i). set (context_path_names e))"
      by (force simp: reads_locally_def)
    then show ?thesis
      unfolding reads_unfold [of ix i] references_of_def paths_below_def image_Un image_UN by blast
  qed
  moreover have "\<not> loops ix i \<longleftrightarrow> (\<forall>e \<in> set (expressions_of ix i). \<forall>w \<in> set (ref_variables (refs e)). \<not> loops ix w)"
    unfolding loops_unfold [of ix i] references_of_def by blast
  ultimately show ?thesis by (simp add: right_paths_def set_fold_bs_insert)
qed

lemma paths_walk:
  "memo_walk (references_of ix) (fst ` set (ix_variables ix)) (right_paths ix) [] (variable_paths_uncached ix)"
proof
  fix i assume "(i, i) \<in> (depends ix)\<^sup>+"
  then show "right_paths ix i []" using cyclic_loops by (simp add: right_paths_def)
next
  fix i s and I :: "string bset builder \<Rightarrow> bool" and visit :: "string \<Rightarrow> (string bset, string bset) walk"
  assume visit: "\<And>w s. w \<in> references_of ix i \<Longrightarrow> I s \<Longrightarrow>
      \<exists>c s'. visit w s = Some (c, s') \<and> I s' \<and> right_paths ix w c" and "I s"
  let ?es = "expressions_of ix i"
  have "\<exists>c s'. expression_paths visit e s = Some (c, s') \<and> I s' \<and> expression_paths_ok ix e c"
    if "e \<in> set ?es" "I s" for e s
    using that by (intro expression_paths_right [where I = I] visit) (auto simp: references_of_def)
  from visit_each_returns [of ?es I "expression_paths visit" "expression_paths_ok ix", OF this \<open>I s\<close>]
  obtain pss s' where pss: "visit_each (expression_paths visit) ?es s = Some (pss, s')" "I s'"
    "right_paths ix i (fold bs_insert (concat pss) [])"
    using paths_of_expressions [of ix i] by blast
  then show "\<exists>c s'. variable_paths_uncached ix visit i s = Some (c, s') \<and> I s' \<and> right_paths ix i c"
    using \<open>I s\<close> by (cases "map_of (ix_variables ix) i")
      (auto simp: variable_paths_uncached_def expressions_of_def)
qed (simp_all add: undeclared_refers_to_nothing)

interpretation path_walk: memo_walk "references_of ix" "fst ` set (ix_variables ix)" "right_paths ix"
  "[]" "variable_paths_uncached ix"
  by (rule paths_walk)

section \<open>What lint keeps for each variable\<close>

lemma zip_lookup:
  assumes "list_all2 Q ids ys" "i \<in> set ids"
  shows "\<exists>y. map_of (bm_of (zip ids (map f ys))) i = Some (f y) \<and> Q i y"
proof -
  have "length ids = length ys" using assms(1) by (rule list_all2_lengthD)
  then have "i \<in> fst ` set (bm_of (zip ids (map f ys)))" using assms(2)
    by (metis fst_set_bm_of length_map list.set_map map_fst_zip)
  then obtain v where v: "map_of (bm_of (zip ids (map f ys))) i = Some v"
    by (metis map_of_eq_None_iff not_None_eq)
  then have "(i, v) \<in> set (zip ids (map f ys))" by (auto simp: map_of_bm_of dest: map_of_SomeD)
  then obtain y where "(i, y) \<in> set (zip ids ys)" "v = f y" by (auto simp: zip_map2)
  with v assms(1) show ?thesis by (auto simp: list_all2_iff)
qed

lemma compatibility_of_right:
  assumes "list_all2 (right_contexts ix) ids cs" "i \<in> set ids"
  shows "\<exists>ctxs. map_of (cc_variables (compatibility_of ids cs)) i = Some ctxs
      \<and> set ctxs = (if loops ix i \<or> reads ix i = {} then {} else providers ix (reads ix i))"
    and "i \<in> set (cc_context_dependent (compatibility_of ids cs)) \<longleftrightarrow> loops ix i \<or> reads ix i \<noteq> {}"
proof -
  obtain c where "map_of (cc_variables (compatibility_of ids cs)) i = Some (case c of Some ctxs \<Rightarrow> ctxs | None \<Rightarrow> [])"
    "right_contexts ix i c"
    using zip_lookup [OF assms, of "\<lambda>c. case c of Some ctxs \<Rightarrow> ctxs | None \<Rightarrow> []"]
    by (auto simp: compatibility_of_def)
  then show "\<exists>ctxs. map_of (cc_variables (compatibility_of ids cs)) i = Some ctxs
      \<and> set ctxs = (if loops ix i \<or> reads ix i = {} then {} else providers ix (reads ix i))"
    by (cases c) (auto simp: right_contexts_def allowed_def)
  have "i \<in> set (cc_context_dependent (compatibility_of ids cs)) \<longleftrightarrow> (\<exists>c. (i, Some c) \<in> set (zip ids cs))"
    by (auto simp: compatibility_of_def set_fold_bs_insert image_iff)
  also have "\<dots> \<longleftrightarrow> loops ix i \<or> reads ix i \<noteq> {}"
  proof -
    obtain n where n: "n < length ids" "ids ! n = i" using assms(2) by (auto simp: in_set_conv_nth)
    then have "(i, cs ! n) \<in> set (zip ids cs)" using list_all2_lengthD [OF assms(1)] by (auto simp: set_zip)
    moreover have "\<And>c. (i, c) \<in> set (zip ids cs) \<Longrightarrow> c = None \<longleftrightarrow> \<not> (loops ix i \<or> reads ix i \<noteq> {})"
      using assms(1) by (auto simp: list_all2_iff right_contexts_def)
    ultimately show ?thesis by (metis not_None_eq)
  qed
  finally show "i \<in> set (cc_context_dependent (compatibility_of ids cs)) \<longleftrightarrow> loops ix i \<or> reads ix i \<noteq> {}" .
qed

lemma compatibility_lookup:
  assumes "i \<in> fst ` set (ix_variables ix)"
  obtains cc ctxs where "compatibility_for ix = Some cc" "map_of (cc_variables cc) i = Some ctxs"
    "set ctxs = (if loops ix i \<or> reads ix i = {} then {} else providers ix (reads ix i))"
    "i \<in> set (cc_context_dependent cc) \<longleftrightarrow> loops ix i \<or> reads ix i \<noteq> {}"
proof -
  let ?ids = "map fst (ix_variables ix)"
  obtain cs s where cs: "visit_each (variable_contexts (walk_fuel ix) ix) ?ids new_builder = Some (cs, s)"
    "list_all2 (right_contexts ix) ?ids cs"
    using context_walk.visits_right [OF card_declared] unfolding variable_contexts_def by blast
  with compatibility_of_right [OF cs(2), of i] assms that show ?thesis
    by (auto simp: compatibility_for_def Let_def)
qed

lemma context_paths_lookup:
  assumes "i \<in> fst ` set (ix_variables ix)"
  obtains m ps where "context_paths_of ix = Some m" "map_of m i = Some ps" "right_paths ix i ps"
proof -
  let ?ids = "map fst (ix_variables ix)"
  obtain cs s where cs: "visit_each (variable_paths (walk_fuel ix) ix) ?ids new_builder = Some (cs, s)"
    "list_all2 (right_paths ix) ?ids cs"
    using path_walk.visits_right [OF card_declared] unfolding variable_paths_def by blast
  with zip_lookup [OF cs(2), of i "\<lambda>x. x"] assms that show ?thesis
    by (auto simp: context_paths_of_def Let_def)
qed

end
