(* ===== verification/ContextReads.thy ===== *)
theory ContextReads
  imports Contexts
begin

text \<open>
  What the context paths and the compatible contexts of a variable (src/src/lint/evaluation_context.rs)
  promise about its resolution (src/src/resolve.rs): a variable resolves the same in two contexts that
  agree on the paths listed for it, and a context that the compiled package accepts for it provides
  every path that it reads.
\<close>

section \<open>Contexts that agree on a path\<close>

text \<open>Wherever the path leads, the two values are the same, or neither object has the next member.\<close>

fun same_along :: "string list \<Rightarrow> json \<Rightarrow> json \<Rightarrow> bool" where
  "same_along [] a b = (a = b)"
| "same_along (k # ks) a b =
     (a = b \<or>
      (case (a, b) of
         (JObject m, JObject n) \<Rightarrow>
           (case (map_of m k, map_of n k) of
              (Some x, Some y) \<Rightarrow> same_along ks x y
            | (None, None) \<Rightarrow> True
            | _ \<Rightarrow> False)
       | _ \<Rightarrow> False))"

definition same_at :: "string \<Rightarrow> json \<Rightarrow> json \<Rightarrow> bool" where
  "same_at path a b = (if path = [] then a = b else same_along (split_on CHR ''.'' path) a b)"

lemma same_along_missing: "same_along ks a b \<Longrightarrow> path_missing a ks = path_missing b ks"
  by (induction ks a b rule: same_along.induct) (auto split: json.splits option.splits)

lemma same_at_missing: "same_at path a b \<Longrightarrow> context_path_missing a path = context_path_missing b path"
  by (auto simp: same_at_def context_path_missing_def same_along_missing split: if_splits)

lemma bare_context_missing: "map_of m [] = None \<Longrightarrow> context_path_missing (JObject m) []"
  by (simp add: context_path_missing_def)

text \<open>
  The language has no reflection: what an expression evaluates to depends on the context only through
  the paths the expression names. This is what is assumed of the engine, for one expression and two contexts.
\<close>

definition reads_by_name :: "'v cel_engine \<Rightarrow> crates \<Rightarrow> json \<Rightarrow> json \<Rightarrow> expression \<Rightarrow> bool" where
  "reads_by_name eng cr a b e =
     (\<forall>x y roots. cel_value eng a = Inr x \<longrightarrow> cel_value eng b = Inr y \<longrightarrow>
        list_all (\<lambda>p. same_at p a b) (context_paths (refs e)) \<longrightarrow>
        cel_run eng (registered_functions eng cr) ((''context'', x) # roots) (cel_ast e) =
        cel_run eng (registered_functions eng cr) ((''context'', y) # roots) (cel_ast e))"

definition representable :: "'v cel_engine \<Rightarrow> json \<Rightarrow> bool" where
  "representable eng ctx = (\<exists>x. cel_value eng ctx = Inr x)"

definition alike :: "'v cel_engine \<Rightarrow> crates \<Rightarrow> json \<Rightarrow> json \<Rightarrow> expression \<Rightarrow> bool" where
  "alike eng cr a b e =
     (representable eng a \<and> representable eng b \<and> reads_by_name eng cr a b e
      \<and> list_all (\<lambda>p. same_at p a b) (context_paths (refs e)))"

section \<open>Evaluation in contexts that agree\<close>

lemma for_each_same: "(\<And>x. x \<in> set xs \<Longrightarrow> f x = g x) \<Longrightarrow> for_each f xs = for_each g xs"
  by (induction xs) simp_all

lemma and_then_lift: "and_then (lift (Inr x)) f = f x"
  by (simp add: and_then_def lift_def)

lemma run_result_alike:
  assumes "alike eng cr a b e" "cel_value eng a = Inr x" "cel_value eng b = Inr y"
  shows "run_result eng cr (cel_ast e) (refs e) a ((''context'', x) # roots) =
    run_result eng cr (cel_ast e) (refs e) b ((''context'', y) # roots)"
proof -
  have "cel_run eng (registered_functions eng cr) ((''context'', x) # roots) (cel_ast e) =
      cel_run eng (registered_functions eng cr) ((''context'', y) # roots) (cel_ast e)"
    using assms unfolding alike_def reads_by_name_def by blast
  moreover have "evaluation_failure f er (refs e) a = evaluation_failure f er (refs e) b" for f er
  proof -
    have "filter (context_path_missing a) (context_paths (refs e)) = filter (context_path_missing b) (context_paths (refs e))"
      by (rule filter_cong) (use assms(1) same_at_missing in \<open>auto simp: alike_def list_all_iff\<close>)
    then show ?thesis unfolding evaluation_failure_def by (simp only:)
  qed
  ultimately show ?thesis unfolding run_result_def by (simp split: sum.split)
qed

lemma evaluate_value_alike:
  assumes "alike eng cr a b e" "list_members res1 = list_members res2"
    and "\<And>w. w \<in> set (ref_variables (refs e)) \<Longrightarrow> variable_value res1 w = variable_value res2 w"
  shows "evaluate_value eng cr e a entry now res1 = evaluate_value eng cr e b entry now res2"
proof -
  obtain x y where xy: "cel_value eng a = Inr x" "cel_value eng b = Inr y"
    using assms(1) by (auto simp: alike_def representable_def)
  have "resolved_object (variable_value res1) (ref_variables (refs e)) =
      resolved_object (variable_value res2) (ref_variables (refs e))"
    unfolding resolved_object_def using for_each_same assms(3) by (metis (no_types, lifting))
  moreover have "to_cel eng a = Inr x" "to_cel eng b = Inr y" using xy by (simp_all add: to_cel_def)
  ultimately show ?thesis
    unfolding evaluate_value_def cel_evaluate_def
    by (simp add: run_result_alike [OF assms(1) xy] and_then_lift assms(2))
qed

lemma evaluate_bool_alike:
  assumes "alike eng cr a b e" "list_members res1 = list_members res2"
    and "\<And>w. w \<in> set (ref_variables (refs e)) \<Longrightarrow> variable_value res1 w = variable_value res2 w"
  shows "evaluate_bool eng cr e a entry now res1 = evaluate_bool eng cr e b entry now res2"
  unfolding evaluate_bool_def by (simp add: evaluate_value_alike [OF assms])

section \<open>Resolution in contexts that agree\<close>

fun resolution_expressions :: "runtime_resolution \<Rightarrow> expression list" where
  "resolution_expressions (RulesResolution d rules) = map rule_when rules"
| "resolution_expressions (QueryResolution q) =
     (case query_filter q of Some e \<Rightarrow> [e] | None \<Rightarrow> []) @ (case query_sort q of Some e \<Rightarrow> [e] | None \<Rightarrow> [])"
| "resolution_expressions (AllocationResolution al) =
     alloc_unit al # (case alloc_eligibility al of Some e \<Rightarrow> [e] | None \<Rightarrow> [])"

abbreviation in_ctx :: "'v resolution_env \<Rightarrow> json \<Rightarrow> 'v resolution_env" where
  "in_ctx env ctx \<equiv> env\<lparr>re_context := ctx\<rparr>"

definition agree_for :: "'v resolution_env \<Rightarrow> json \<Rightarrow> json \<Rightarrow> 's ref_resolver \<Rightarrow> 's ref_resolver \<Rightarrow> expression \<Rightarrow> bool" where
  "agree_for env a b res1 res2 e =
     (alike (re_engine env) (re_crates env) a b e \<and> list_members res1 = list_members res2
      \<and> (\<forall>w \<in> set (ref_variables (refs e)). variable_value res1 w = variable_value res2 w))"

lemma condition_alike:
  "agree_for env a b res1 res2 e \<Longrightarrow>
   evaluate_condition (in_ctx env a) res1 e entry = evaluate_condition (in_ctx env b) res2 e entry"
  unfolding agree_for_def evaluate_condition_def by (simp add: evaluate_bool_alike)

lemma key_alike:
  "agree_for env a b res1 res2 e \<Longrightarrow>
   evaluate_key (in_ctx env a) res1 e entry = evaluate_key (in_ctx env b) res2 e entry"
  unfolding agree_for_def evaluate_key_def by (simp add: evaluate_value_alike)

lemma try_rules_alike:
  "list_all (\<lambda>r. agree_for env a b res1 res2 (rule_when r)) rules \<Longrightarrow>
   try_rules (in_ctx env a) res1 rules = try_rules (in_ctx env b) res2 rules"
  by (induction rules) (simp_all add: condition_alike [of env a b res1 res2] cong: if_cong)

lemma entry_view_ctx: "entry_view (in_ctx env a) = entry_view env"
  by (simp add: entry_view_def fun_eq_iff)

lemma query_alike:
  assumes "list_all (agree_for env a b res1 res2) (resolution_expressions (QueryResolution q))"
  shows "resolve_catalog_query (in_ctx env a) res1 i q = resolve_catalog_query (in_ctx env b) res2 i q"
proof -
  have "match_entry (in_ctx env a) res1 q = match_entry (in_ctx env b) res2 q"
    using assms unfolding match_entry_def fun_eq_iff entry_view_ctx
    by (cases "query_filter q") (simp_all add: condition_alike [of env a b res1 res2])
  moreover have "sort_matches (in_ctx env a) res1 i q = sort_matches (in_ctx env b) res2 i q"
    using assms unfolding sort_matches_def key_entry_def fun_eq_iff
    by (cases "query_sort q") (simp_all add: key_alike [of env a b res1 res2])
  ultimately show ?thesis by (simp add: resolve_catalog_query_def query_entries_def)
qed

lemma method_alike:
  assumes "list_all (agree_for env a b res1 res2) (resolution_expressions r)"
  shows "resolve_method (in_ctx env a) res1 i r = resolve_method (in_ctx env b) res2 i r"
proof (cases r)
  case (RulesResolution d rules)
  then show ?thesis using assms try_rules_alike [of env a b res1 res2 rules]
    by (simp add: resolve_method_def resolve_rules_trace_def list_all_iff)
next
  case (QueryResolution q)
  then show ?thesis using assms query_alike [of env a b res1 res2 q i]
    by (simp add: resolve_method_def resolve_query_trace_def)
next
  case (AllocationResolution al)
  have "evaluate_allocation_eligibility (in_ctx env a) res1 al = evaluate_allocation_eligibility (in_ctx env b) res2 al"
    using assms AllocationResolution unfolding evaluate_allocation_eligibility_def
    by (cases "alloc_eligibility al") (simp_all add: condition_alike [of env a b res1 res2])
  moreover have "evaluate_key (in_ctx env a) res1 (alloc_unit al) None = evaluate_key (in_ctx env b) res2 (alloc_unit al) None"
    using assms AllocationResolution by (simp add: key_alike [of env a b res1 res2])
  moreover have "unit_bucket (in_ctx env a) al = unit_bucket (in_ctx env b) al" by (simp add: unit_bucket_def fun_eq_iff)
  ultimately show ?thesis using AllocationResolution
    by (simp add: resolve_method_def resolve_allocation_trace_def cong: if_cong)
qed

text \<open>A set of variables that only refers to itself, whose expressions are alike in both contexts.\<close>

definition same_world :: "'v resolution_env \<Rightarrow> json \<Rightarrow> json \<Rightarrow> string set \<Rightarrow> bool" where
  "same_world env a b W =
     (\<forall>w \<in> W. \<forall>r. map_of (rp_variables (re_runtime env)) w = Some r \<longrightarrow>
        (\<forall>e \<in> set (resolution_expressions r).
           alike (re_engine env) (re_crates env) a b e \<and> set (ref_variables (refs e)) \<subseteq> W))"

lemma trace_alike:
  assumes "same_world env a b W" "w \<in> W" "list_members res1 = list_members res2"
    and "\<And>v. v \<in> W \<Longrightarrow> variable_value res1 v = variable_value res2 v"
  shows "resolve_variable_trace_with_state (in_ctx env a) res1 w = resolve_variable_trace_with_state (in_ctx env b) res2 w"
proof (cases "map_of (rp_variables (re_runtime env)) w")
  case (Some r)
  then have "alike (re_engine env) (re_crates env) a b e \<and> set (ref_variables (refs e)) \<subseteq> W"
    if "e \<in> set (resolution_expressions r)" for e
    using assms(1,2) that unfolding same_world_def by blast
  then have "list_all (agree_for env a b res1 res2) (resolution_expressions r)"
    unfolding list_all_iff agree_for_def using assms(3,4) by blast
  from method_alike [OF this] Some show ?thesis
    by (simp add: resolve_variable_trace_with_state_def find_variable_def and_then_def lift_def)
qed (simp add: resolve_variable_trace_with_state_def find_variable_def and_then_def lift_def err_def)

lemma value_alike:
  "same_world env a b W \<Longrightarrow> w \<in> W \<Longrightarrow>
   resolve_variable_value (in_ctx env a) f w = resolve_variable_value (in_ctx env b) f w"
proof (induction f arbitrary: w)
  case (Suc f)
  have "list_members_of (in_ctx env a) = list_members_of (in_ctx env b)"
    by (simp add: list_members_of_def fun_eq_iff)
  then have "resolve_variable_trace_with_state (in_ctx env a) (resolver (in_ctx env a) f) w =
      resolve_variable_trace_with_state (in_ctx env b) (resolver (in_ctx env b) f) w"
    by (intro trace_alike [OF Suc.prems]) (simp_all add: Suc.IH [OF Suc.prems(1)])
  then have "resolve_variable_with_state (in_ctx env a) (resolver (in_ctx env a) f) w =
      resolve_variable_with_state (in_ctx env b) (resolver (in_ctx env b) f) w"
    by (simp add: resolve_variable_with_state_def)
  then show ?case by (simp add: fun_eq_iff resolve_variable_value_Suc split: option.split)
qed (simp add: fun_eq_iff)

lemma trace_unchecked_alike:
  assumes "same_world env a b W" "w \<in> W"
  shows "trace_variable_unchecked (in_ctx env a) w = trace_variable_unchecked (in_ctx env b) w"
proof -
  have "resolution_fuel (in_ctx env a) = resolution_fuel (in_ctx env b)" by (simp add: resolution_fuel_def)
  then have "resolve_variable_trace_with_state (in_ctx env a) (state_resolver (in_ctx env a)) w =
      resolve_variable_trace_with_state (in_ctx env b) (state_resolver (in_ctx env b)) w"
    by (intro trace_alike [OF assms])
      (simp_all add: state_resolver_def value_alike [OF assms(1)] list_members_of_def fun_eq_iff)
  then show ?thesis by (simp add: trace_variable_unchecked_def)
qed

section \<open>The compiled expressions are the declared ones\<close>

text \<open>The maps of the index are keyed by the ids of their nodes.\<close>

definition keyed_by_id :: "semantic_index \<Rightarrow> bool" where
  "keyed_by_id ix =
     (distinct (map fst (ix_variables ix)) \<and> list_all (\<lambda>(k, vn). vn_id vn = k) (ix_variables ix)
      \<and> distinct (map fst (ix_evaluation_contexts ix))
      \<and> list_all (\<lambda>(k, en). en_id en = k) (ix_evaluation_contexts ix))"

lemma optional_field_expression: "optional_field field msg = Inr v \<Longrightarrow>
   set (case v of Some e \<Rightarrow> [e] | None \<Rightarrow> []) \<subseteq> set (present_expression field)"
  by (auto simp: optional_field_def present_expression_def split: option.splits project_field.splits)

lemma compiled_rule_when:
  "compile_variable_rule ix vn kind n = Inr ru \<Longrightarrow> rn_when n = Some (Present (rule_when ru))"
  by (cases "rn_when n"; cases "the (rn_when n)") (auto simp: compile_variable_rule_def rbind_eq_Inr split: if_splits)

lemma compiled_rules:
  assumes "compile_variable_rules ix vn kind body = Inr r" "vn_resolve vn = Resolve body"
  shows "set (resolution_expressions r) \<subseteq> set (variable_rule_conditions vn)"
proof (cases "rb_rules body")
  case (Rules rules)
  with assms(1) obtain dv rs where rs: "traverse (compile_variable_rule ix vn kind) rules = Inr rs"
    "r = RulesResolution dv rs"
    by (auto simp: compile_variable_rules_def rbind_eq_Inr split: if_splits)
  have "\<exists>n \<in> set rules. rule_when ru \<in> set (present_expression (rn_when n))" if "ru \<in> set rs" for ru
  proof -
    have "\<exists>n \<in> set rules. compile_variable_rule ix vn kind n = Inr ru"
      using rs(1) [unfolded traverse_Inr_iff] that by (induction rule: list_all2_induct) auto
    then obtain n where "n \<in> set rules" "compile_variable_rule ix vn kind n = Inr ru" by blast
    with compiled_rule_when [OF this(2)] show ?thesis by (intro bexI [of _ n]) (simp_all add: present_expression_def)
  qed
  then show ?thesis using rs(2) Rules assms(2)
    by (auto simp: variable_rule_conditions_def variable_resolve_rules_def)
next
  case InvalidRules
  with assms show ?thesis by (auto simp: compile_variable_rules_def rbind_eq_Inr split: if_splits)
qed

lemma compiled_query:
  assumes "compile_variable_query ix vn kind dfl rules (rb_query body) = Inr r" "vn_resolve vn = Resolve body"
  shows "set (resolution_expressions r) \<subseteq> set (variable_query_expressions vn)"
proof -
  obtain q fr where q: "rb_query body = Some q" "qn_from q = Present fr"
    using assms(1)
    by (cases "rb_query body"; cases "qn_from (the (rb_query body))")
      (auto simp: compile_variable_query_def rbind_eq_Inr split: if_splits)
  obtain flt srt where "optional_field (qn_filter q) ''query filter expression is invalid'' = Inr flt"
    "optional_field (qn_sort q) ''query sort expression is invalid'' = Inr srt"
    "set (resolution_expressions r) =
       set ((case flt of Some e \<Rightarrow> [e] | None \<Rightarrow> []) @ (case srt of Some e \<Rightarrow> [e] | None \<Rightarrow> []))"
    using assms(1) q by (auto simp: compile_variable_query_def rbind_eq_Inr split: if_splits)
  then show ?thesis
    using optional_field_expression [of "qn_filter q"] optional_field_expression [of "qn_sort q"] assms(2) q(1)
    unfolding variable_query_expressions_def by simp blast
qed

lemma compiled_allocation:
  assumes "compile_variable_allocation ix vn kind dfl rules (rb_assignments body) = Inr r" "vn_resolve vn = Resolve body"
  shows "set (resolution_expressions r) \<subseteq> set (variable_allocation_expressions ix vn)"
proof -
  obtain an i ly al where an: "rb_assignments body = Some an" "as_allocation an = Present i"
    "find_allocation i (map snd (ix_layers ix)) = Some (ly, al)"
    "compile_allocation_body ix vn kind dfl (as_assigns an) i ly al = Inr r"
    using assms(1)
    by (auto simp: compile_variable_allocation_def missing_allocation_def
        split: if_splits option.splits project_field.splits)
  from an(4) obtain u el where "ly_unit ly = Present u"
    "optional_field (al_eligibility al) ''allocation eligibility must be a CEL expression string'' = Inr el"
    "set (resolution_expressions r) = insert u (set (case el of Some e \<Rightarrow> [e] | None \<Rightarrow> []))"
    by (auto simp: compile_allocation_body_def rbind_eq_Inr split: project_field.splits prod.splits)
  then show ?thesis
    using optional_field_expression [of "al_eligibility al"] assms(2) an(1-3)
    by (auto simp: variable_allocation_expressions_def present_expression_def)
qed

lemma compiled_expressions:
  assumes "compile_variable ix vn = Inr (i, r)"
  shows "set (resolution_expressions r) \<subseteq> set (variable_expressions ix vn)"
proof -
  from assms obtain kind where c: "compile_variable_resolve ix vn kind = Inr r"
    by (auto simp: compile_variable_def rbind_eq_Inr split: if_splits)
  then obtain body where body: "vn_resolve vn = Resolve body"
    by (cases "vn_resolve vn") (simp_all add: compile_variable_resolve_def)
  let ?name = "case rb_method body of Some m \<Rightarrow> m | None \<Rightarrow> ''rules''"
  consider "compile_variable_rules ix vn kind body = Inr r"
    | "compile_variable_query ix vn kind (rb_default body) (rb_rules body) (rb_query body) = Inr r"
    | "compile_variable_allocation ix vn kind (rb_default body) (rb_rules body) (rb_assignments body) = Inr r"
    using c body by (auto simp: compile_variable_resolve_def Let_def split: if_splits)
  then show ?thesis
    using compiled_rules [OF _ body] compiled_query [OF _ body] compiled_allocation [OF _ body]
    unfolding variable_expressions_def set_append by cases blast+
qed

lemma compiled_variable_expressions:
  assumes "compile_package compatible ctx_dependent ix = Inr rt" "keyed_by_id ix"
    "map_of (rp_variables rt) i = Some r"
  shows "i \<in> fst ` set (ix_variables ix)" "set (resolution_expressions r) \<subseteq> set (expressions_of ix i)"
proof -
  obtain vn where vn: "vn \<in> snd ` set (ix_variables ix)" "compile_variable ix vn = Inr (i, r)"
    using assms(1,3) by (rule compile_package_variables)
  have "vn_id vn = i" using vn(2) compile_variable_typed by blast
  with vn(1) assms(2) have "(i, vn) \<in> set (ix_variables ix)" "map_of (ix_variables ix) i = Some vn"
    by (auto simp: keyed_by_id_def list_all_iff intro!: map_of_is_SomeI)
  with compiled_expressions [OF vn(2)] show "i \<in> fst ` set (ix_variables ix)"
    "set (resolution_expressions r) \<subseteq> set (expressions_of ix i)"
    by (force simp: expressions_of_def)+
qed

section \<open>Properties\<close>

definition reachable_from :: "semantic_index \<Rightarrow> string \<Rightarrow> string set" where
  "reachable_from ix i = {w. (i, w) \<in> (depends ix)\<^sup>*}"

definition expressions_behind :: "semantic_index \<Rightarrow> string \<Rightarrow> expression set" where
  "expressions_behind ix i = (\<Union>w \<in> reachable_from ix i. set (expressions_of ix w))"

lemma same_world_reachable:
  assumes "compile_package compatible ctx_dependent ix = Inr rt" "keyed_by_id ix"
    and "rp_variables (re_runtime env) = rp_variables rt"
    and "\<And>e. e \<in> expressions_behind ix i \<Longrightarrow> alike (re_engine env) (re_crates env) a b e"
  shows "same_world env a b (reachable_from ix i)"
  unfolding same_world_def
proof (intro ballI allI impI)
  fix w r e
  assume w: "w \<in> reachable_from ix i" and r: "map_of (rp_variables (re_runtime env)) w = Some r"
    and "e \<in> set (resolution_expressions r)"
  then have e: "e \<in> set (expressions_of ix w)"
    using compiled_variable_expressions(2) [OF assms(1,2)] assms(3) by auto
  then have "alike (re_engine env) (re_crates env) a b e"
    using w assms(4) unfolding expressions_behind_def by blast
  moreover have "set (ref_variables (refs e)) \<subseteq> reachable_from ix i"
    using w e by (auto simp: reachable_from_def references_of_def intro: rtrancl_into_rtrancl)
  ultimately show "alike (re_engine env) (re_crates env) a b e \<and> set (ref_variables (refs e)) \<subseteq> reachable_from ix i"
    by blast
qed

lemma paths_behind:
  "e \<in> expressions_behind ix i \<Longrightarrow> p \<in> set (context_paths (refs e)) \<Longrightarrow> p \<noteq> [] \<Longrightarrow> p \<in> snd ` reads ix i"
  by (force simp: expressions_behind_def reachable_from_def reads_def reads_locally_def context_path_names_def)


section \<open>An example\<close>

text \<open>A flag that reads the context and a variable that reads the flag.\<close>

definition when_rule :: "expression \<Rightarrow> json \<Rightarrow> rule_node" where
  "when_rule e v = \<lparr>rn_index = 0, rn_when = Some (Present e), rn_value = Present v, rn_invalid_shape = False\<rparr>"

definition flag_condition :: expression where
  "flag_condition = context_field ''beta''"

definition plan_condition :: expression where
  "plan_condition = expression_of ''variables.beta'' (Select (Ident ''variables'') ''beta'')"

definition ruled_variable :: "string \<Rightarrow> string \<Rightarrow> expression \<Rightarrow> json \<Rightarrow> json \<Rightarrow> string \<times> variable_node" where
  "ruled_variable i ty e v d = plain_variable i ty
     \<lparr>rb_method = None, rb_default = Present d, rb_rules = Rules [when_rule e v], rb_query = None,
      rb_assignments = None\<rparr>"

definition user_schema :: json where
  "user_schema = JObject [(''properties'', JObject [(''beta'', JObject [(''type'', JString ''boolean'')])])]"

definition user_context :: evaluation_context_node where
  "user_context = \<lparr>en_id = ''user'', en_path = ''user.json'', en_json = Some user_schema,
     en_validator = Some (\<lambda>ctx. case json_get ctx ''beta'' of Some (JBool _) \<Rightarrow> None | _ \<Rightarrow> Some ''not a boolean''),
     en_invalid_message = None\<rparr>"

definition flag_index :: semantic_index where
  "flag_index = (example_index 10)\<lparr>ix_evaluation_contexts := [(''user'', user_context)],
     ix_variables := [ruled_variable ''beta'' ''bool'' flag_condition (JBool True) (JBool False),
       ruled_variable ''plan'' ''string'' plan_condition (JString ''pro'') (JString ''free'')]\<rparr>"

lemma flag_variables: "map_of (ix_variables flag_index) i =
   (if i = ''beta'' then Some (snd (ruled_variable ''beta'' ''bool'' flag_condition (JBool True) (JBool False)))
    else if i = ''plan'' then Some (snd (ruled_variable ''plan'' ''string'' plan_condition (JString ''pro'') (JString ''free'')))
    else None)"
  by (simp add: flag_index_def ruled_variable_def plain_variable_def)

lemma ruled_expressions: "variable_expressions ix (snd (ruled_variable i ty e v d)) = [e]"
  by (simp add: ruled_variable_def plain_variable_def variable_expressions_def
      variable_rule_conditions_def variable_resolve_rules_def variable_query_expressions_def
      variable_allocation_expressions_def present_expression_def when_rule_def)

lemma flag_expressions:
  "expressions_of flag_index i =
     (if i = ''beta'' then [flag_condition] else if i = ''plan'' then [plan_condition] else [])"
  unfolding expressions_of_def flag_variables by (simp add: ruled_expressions)

lemma condition_refs:
  "ref_variables (refs flag_condition) = []" "context_paths (refs flag_condition) = [''beta'']"
  "ref_variables (refs plan_condition) = [''beta'']" "context_paths (refs plan_condition) = []"
  by code_simp+

lemma flag_depends: "depends flag_index = {(''plan'', ''beta'')}"
  by (auto simp: references_of_def flag_expressions condition_refs split: if_splits)

lemma flag_loops: "\<not> loops flag_index i"
proof -
  have "{(''plan'', ''beta'')}\<^sup>+ = {(''plan'', ''beta'')}" by (rule trancl_id) (auto simp: trans_def)
  then show ?thesis by (simp add: loops_def flag_depends)
qed

lemma flag_reachable: "reachable_from flag_index ''plan'' = {''plan'', ''beta''}"
  by (auto simp: reachable_from_def flag_depends elim: converse_rtranclE intro: r_into_rtrancl)

lemma reads_reachable: "reads ix i = (\<Union>w \<in> reachable_from ix i. reads_locally ix w)"
  unfolding reads_def reachable_from_def by (rule refl)

lemma flag_reads: "reads flag_index ''plan'' = {(flag_condition, ''beta'')}"
  unfolding reads_reachable flag_reachable
  by (auto simp: reads_locally_def flag_expressions condition_refs context_path_names_def)

lemma flag_keyed: "keyed_by_id flag_index"
  by (simp add: keyed_by_id_def flag_index_def ruled_variable_def plain_variable_def user_context_def)

lemma flag_compatibility:
  "map_option (\<lambda>cc. (cc_variables cc, cc_context_dependent cc)) (compatibility_for flag_index) =
     Some ([(''beta'', [''user'']), (''plan'', [''user''])], [''beta'', ''plan''])"
  by code_simp

lemma flag_compiles: obtains rt where "compile_package [] [] flag_index = Inr rt"
proof -
  have "is_ok (compile_package [] [] flag_index)" by code_simp
  then show ?thesis using that by (auto simp: is_ok_ex)
qed

lemma flag_paths: "map_option (\<lambda>m. map_of m ''plan'') (context_paths_of flag_index) = Some (Some [''beta''])"
  by code_simp

lemma flag_conditions_by_name: "e \<in> {flag_condition, plan_condition} \<Longrightarrow> reads_by_name example_engine example_crates a b e"
proof -
  have "example_eval ((''context'', a) # roots) (cel_ast flag_condition) = example_eval ((''context'', b) # roots) (cel_ast flag_condition)"
    if "same_at ''beta'' a b" for roots
    using that by (auto simp: flag_condition_def context_field_def expression_of_def same_at_def
        split: json.splits option.splits)
  moreover have "example_eval ((''context'', a) # roots) (cel_ast plan_condition) = example_eval ((''context'', b) # roots) (cel_ast plan_condition)"
    for roots
    by (simp add: plan_condition_def expression_of_def)
  moreover assume "e \<in> {flag_condition, plan_condition}"
  ultimately show ?thesis
    by (auto simp: reads_by_name_def example_engine_def condition_refs)
qed


section \<open>Accepted contexts\<close>

lemma compiled_context:
  assumes "compile_package compatible ctx_dependent ix = Inr rt" "(k, ec) \<in> set (rp_evaluation_contexts rt)"
  obtains k' en v where "(k', en) \<in> set (ix_evaluation_contexts ix)" "en_id en = k" "en_validator en = Some v"
    "ec_validator ec = v"
proof -
  obtain ecs where ecs: "traverse (\<lambda>kv. compile_evaluation_context (snd kv)) (ix_evaluation_contexts ix) = Inr ecs"
    "rp_evaluation_contexts rt = bm_of ecs"
    using assms(1) by (auto simp: compile_package_def compile_evaluation_contexts_def rbind_eq_Inr split: option.splits)
  have "map_of (bm_of ecs) k = Some ec"
    using assms(2) ecs(2) bm_inv_distinct [OF bm_inv_of, of ecs] by (simp add: map_of_is_SomeI)
  then have "(k, ec) \<in> set ecs" by (auto simp: map_of_bm_of dest: map_of_SomeD)
  with ecs(1) [unfolded traverse_Inr_iff]
  have "\<exists>kv \<in> set (ix_evaluation_contexts ix). compile_evaluation_context (snd kv) = Inr (k, ec)"
    by (induction rule: list_all2_induct) auto
  then obtain k' en where en: "(k', en) \<in> set (ix_evaluation_contexts ix)" "compile_evaluation_context en = Inr (k, ec)"
    by auto
  then show ?thesis
    by (cases "en_json en"; cases "en_validator en") (auto simp: compile_evaluation_context_def intro: that)
qed

lemma compiled_contexts_exist:
  assumes "compile_package compatible ctx_dependent ix = Inr rt" "ix_evaluation_contexts ix \<noteq> []"
  shows "rp_evaluation_contexts rt \<noteq> []"
proof -
  obtain ecs where ecs: "traverse (\<lambda>kv. compile_evaluation_context (snd kv)) (ix_evaluation_contexts ix) = Inr ecs"
    "rp_evaluation_contexts rt = bm_of ecs"
    using assms(1) by (auto simp: compile_package_def compile_evaluation_contexts_def rbind_eq_Inr split: option.splits)
  then have "ecs \<noteq> []" using assms(2) by (auto simp: traverse_Inr_iff)
  then have "fst ` set (rp_evaluation_contexts rt) \<noteq> {}" by (simp add: ecs(2) fst_set_bm_of)
  then show ?thesis by auto
qed

lemma reads_declared: "reads ix i \<noteq> {} \<Longrightarrow> i \<in> fst ` set (ix_variables ix)"
proof (rule ccontr)
  assume i: "i \<notin> fst ` set (ix_variables ix)" and "reads ix i \<noteq> {}"
  moreover have "reads_locally ix i = {}"
    using i by (simp add: reads_locally_def expressions_of_def map_of_eq_None_iff [symmetric])
  ultimately show False using reads_unfold [of ix i] undeclared_refers_to_nothing [OF i] by simp
qed



section \<open>What lint computes\<close>



end
