(* ===== verification/ContextLint.thy ===== *)
theory ContextLint
  imports ContextReads Cycles Diff
begin

text \<open>
  The lints of evaluation contexts (src/src/lint/builtins/evaluation_context.rs): list references in context
  schemas, samples against their schema and against the lists it names, undeclared and mistyped context
  paths, and variables without a compatible context. Source locations are left out; what earlier lints
  reported is the list of their severities and entities.
\<close>

section \<open>Diagnostics\<close>

datatype context_rule =
    EvaluationContextSchemaInvalid
  | EvaluationContextSampleShape
  | EvaluationContextSampleSchemaMismatch
  | VariableRuleUndeclaredContextPath
  | VariableRuleContextPathTypeMismatch
  | VariableEvaluationContextConflict

record context_diagnostic =
  xd_rule :: context_rule
  xd_target :: semantic_target
  xd_message :: string

datatype severity = SeverityError | SeverityWarning

definition error_variable :: "severity \<times> semantic_entity \<Rightarrow> string option" where
  "error_variable d =
     (case d of
        (SeverityError, EVariable i) \<Rightarrow> Some i
      | (SeverityError, EValue v _) \<Rightarrow> Some v
      | (SeverityError, ERule v _) \<Rightarrow> Some v
      | _ \<Rightarrow> None)"

definition variables_with_existing_errors :: "(severity \<times> semantic_entity) list \<Rightarrow> string bset" where
  "variables_with_existing_errors ds = fold bs_insert (List.map_filter error_variable ds) []"

definition is_rule_site :: "change_site \<Rightarrow> bool" where
  "is_rule_site site = (case site of SiteRule _ \<Rightarrow> True | _ \<Rightarrow> False)"

definition variable_references_error_variable :: "semantic_index \<Rightarrow> string \<Rightarrow> string bset \<Rightarrow> bool" where
  "variable_references_error_variable ix i errors =
     list_ex (\<lambda>e. is_rule_site (ed_site e) \<and> ed_from e = i \<and> ed_to e \<in> set errors)
       (concat (map (\<lambda>(_, vn). variable_edges vn) (ix_variables ix)))"

section \<open>Lists named by a context schema\<close>

definition list_ref_error :: string where
  "list_ref_error = ''x-rototo-ref in evaluation context schemas must target list=<id>''"

definition context_list_ref_target :: "string \<Rightarrow> string + string" where
  "context_list_ref_target target =
     (case strip_prefix ''list='' target of
        Some i \<Rightarrow> if i = [] then Inl ''x-rototo-ref list id must not be empty'' else Inr i
      | None \<Rightarrow> Inl list_ref_error)"

definition list_ref_message :: "'l smap \<Rightarrow> json \<Rightarrow> string option" where
  "list_ref_message declared schema =
     (case json_get schema ''x-rototo-ref'' of
        None \<Rightarrow> None
      | Some target \<Rightarrow>
          (case as_str target of
             None \<Rightarrow> Some list_ref_error
           | Some s \<Rightarrow>
               (case context_list_ref_target s of
                  Inl m \<Rightarrow> Some m
                | Inr i \<Rightarrow> if map_of declared i = None then Some (''x-rototo-ref references unknown list '' @ i) else None)))"

definition keyed_children :: "json \<Rightarrow> string \<Rightarrow> (string \<times> json) list" where
  "keyed_children schema keyword =
     (case json_get schema keyword of Some (JObject kvs) \<Rightarrow> map (\<lambda>(k, v). (keyword @ ''/'' @ k, v)) kvs | _ \<Rightarrow> [])"

definition indexed_children :: "json \<Rightarrow> string \<Rightarrow> (string \<times> json) list" where
  "indexed_children schema keyword =
     (case json_get schema keyword of
        Some (JArray vs) \<Rightarrow> zip (map (\<lambda>n. keyword @ ''/'' @ show_nat n) [0..<length vs]) vs
      | _ \<Rightarrow> [])"

text \<open>The subschemas in the order they are walked, with the step to each.\<close>

definition schema_children :: "json \<Rightarrow> (string \<times> json) list" where
  "schema_children schema =
     concat (map (keyed_children schema) [''properties'', ''$defs'', ''definitions''])
     @ (case json_get schema ''items'' of Some items \<Rightarrow> [(''items'', items)] | None \<Rightarrow> [])
     @ concat (map (indexed_children schema) [''allOf'', ''anyOf'', ''oneOf''])"

lemma size_json_get: "json_get j k = Some v \<Longrightarrow> size v < size j"
  using size_map_of by (auto simp: json_get_Some)

lemma size_array_member: "v \<in> set vs \<Longrightarrow> size v < size (JArray vs)"
  by (induction vs) auto

lemma size_object_member: "(k, v) \<in> set kvs \<Longrightarrow> size v < size (JObject kvs)"
  by (induction kvs) auto

lemma size_keyed_child:
  assumes "(step, child) \<in> set (keyed_children schema keyword)"
  shows "size child < size schema"
proof -
  obtain kvs k where "json_get schema keyword = Some (JObject kvs)" "(k, child) \<in> set kvs"
    using assms by (cases "json_get schema keyword"; cases "the (json_get schema keyword)") (auto simp: keyed_children_def)
  then show ?thesis using size_object_member size_json_get less_trans by blast
qed

lemma size_indexed_child:
  assumes "(step, child) \<in> set (indexed_children schema keyword)"
  shows "size child < size schema"
proof -
  obtain vs where "json_get schema keyword = Some (JArray vs)" "child \<in> set vs"
    using assms by (cases "json_get schema keyword"; cases "the (json_get schema keyword)")
      (auto simp: indexed_children_def elim: in_set_zipE)
  then show ?thesis using size_array_member size_json_get less_trans by blast
qed

lemma size_schema_child: "(step, child) \<in> set (schema_children schema) \<Longrightarrow> size child < size schema"
  using size_json_get [of schema "''items''"]
  by (auto simp: schema_children_def dest: size_keyed_child size_indexed_child split: option.splits)

function lint_context_list_ref_shapes :: "'l smap \<Rightarrow> string \<Rightarrow> json \<Rightarrow> string \<Rightarrow> context_diagnostic list" where
  "lint_context_list_ref_shapes declared i schema ptr =
     (case list_ref_message declared schema of
        Some m \<Rightarrow> [\<lparr>xd_rule = EvaluationContextSchemaInvalid,
                   xd_target = field_target (EEvaluationContext i) FSchemaJson,
                   xd_message = m @ '' at '' @ ptr\<rparr>]
      | None \<Rightarrow> [])
     @ concat (map (\<lambda>(step, child). lint_context_list_ref_shapes declared i child (ptr @ ''/'' @ step))
         (schema_children schema))"
  by pat_completeness auto

termination
  by (relation "measure (\<lambda>(_, _, schema, _). size schema)") (auto dest: size_schema_child)

declare lint_context_list_ref_shapes.simps [simp del]

definition lint_evaluation_context_schemas :: "semantic_index \<Rightarrow> context_diagnostic list" where
  "lint_evaluation_context_schemas ix = concat (map (\<lambda>(_, en).
     (case en_invalid_message en of
        Some m \<Rightarrow> [\<lparr>xd_rule = EvaluationContextSchemaInvalid,
                   xd_target = field_target (EEvaluationContext (en_id en)) FSchemaJson,
                   xd_message = ''evaluation context schema is invalid: '' @ m\<rparr>]
      | None \<Rightarrow> [])
     @ (case en_json en of
          Some schema \<Rightarrow> lint_context_list_ref_shapes (ix_lists ix) (en_id en) schema ''$''
        | None \<Rightarrow> [])) (ix_evaluation_contexts ix))"

section \<open>Samples\<close>

definition sample_list_member_values :: "semantic_index \<Rightarrow> string \<Rightarrow> json list option" where
  "sample_list_member_values ix i =
     (case map_of (ix_lists ix) i of
        Some nd \<Rightarrow> (case ln_members nd of Present ms \<Rightarrow> Some ms | _ \<Rightarrow> None)
      | None \<Rightarrow> None)"

definition scalar :: "json \<Rightarrow> bool" where
  "scalar v = (as_object v = None \<and> as_array v = None)"

definition pinned_list :: "json \<Rightarrow> string option" where
  "pinned_list schema = Option.bind (json_str schema ''x-rototo-ref'') (strip_prefix ''list='')"

text \<open>The list a field's value is not a member of.\<close>

definition not_a_member :: "semantic_index \<Rightarrow> json \<Rightarrow> json \<Rightarrow> string option" where
  "not_a_member ix schema v =
     (case pinned_list schema of
        Some i \<Rightarrow>
          (case sample_list_member_values ix i of
             Some ms \<Rightarrow> if scalar v \<and> v \<notin> set ms then Some i else None
           | None \<Rightarrow> None)
      | None \<Rightarrow> None)"

definition local_ref :: "(json \<Rightarrow> string \<Rightarrow> json option) \<Rightarrow> json \<Rightarrow> json \<Rightarrow> json option" where
  "local_ref ptr whole schema =
     Option.bind (Option.bind (json_str schema ''$ref'') (strip_prefix ''#'')) (ptr whole)"

text \<open>The visits a schema and a value ask for after a local \<open>$ref\<close>: the properties the value has, the
  elements of an array, and the schemas that apply to the value itself.\<close>

definition sample_visits :: "json \<Rightarrow> json \<Rightarrow> string \<Rightarrow> (json \<times> json \<times> string) list" where
  "sample_visits schema v path =
     (case (json_get schema ''properties'', v) of
        (Some (JObject props), JObject members) \<Rightarrow>
          List.map_filter (\<lambda>(k, s). map_option (\<lambda>child. (s, child, path @ ''.'' @ k)) (map_of members k)) props
      | _ \<Rightarrow> [])
     @ (case (json_get schema ''items'', v) of
          (Some items, JArray vs) \<Rightarrow>
            map (\<lambda>(n, child). (items, child, path @ ''['' @ show_nat n @ '']'')) (zip [0..<length vs] vs)
        | _ \<Rightarrow> [])
     @ concat (map (\<lambda>keyword. case json_get schema keyword of
          Some (JArray subs) \<Rightarrow> map (\<lambda>s. (s, v, path)) subs | _ \<Rightarrow> []) [''allOf'', ''anyOf'', ''oneOf''])"

definition sample_mismatch ::
  "(json \<Rightarrow> string) \<Rightarrow> semantic_index \<Rightarrow> string \<times> string \<Rightarrow> json \<Rightarrow> json \<Rightarrow> string \<Rightarrow> context_diagnostic list" where
  "sample_mismatch text_of ix entry schema v path =
     (case not_a_member ix schema v of
        Some i \<Rightarrow> [\<lparr>xd_rule = EvaluationContextSampleSchemaMismatch,
                   xd_target = field_target (EEvaluationContextSample (fst entry) (snd entry)) FEvaluationContextSample,
                   xd_message = ''evaluation context sample '' @ snd entry @ '' field '' @ path
                     @ '' is not a member of list '' @ i @ '': '' @ text_of v\<rparr>]
      | None \<Rightarrow> [])"

fun visit_samples ::
  "('a \<Rightarrow> context_diagnostic list option) \<Rightarrow> 'a list \<Rightarrow> context_diagnostic list option" where
  "visit_samples f [] = Some []"
| "visit_samples f (x # xs) =
     (case f x of
        None \<Rightarrow> None
      | Some ds \<Rightarrow> map_option (\<lambda>rest. ds @ rest) (visit_samples f xs))"

text \<open>Nothing stops a \<open>$ref\<close> that leads back to itself on the same value, so the walk is on fuel.\<close>

fun lint_sample_list_refs ::
  "(json \<Rightarrow> string \<Rightarrow> json option) \<Rightarrow> (json \<Rightarrow> string) \<Rightarrow> semantic_index \<Rightarrow> string \<times> string \<Rightarrow> nat \<Rightarrow> json
   \<Rightarrow> json \<times> json \<times> string \<Rightarrow> context_diagnostic list option" where
  "lint_sample_list_refs ptr text_of ix entry 0 whole visit = None"
| "lint_sample_list_refs ptr text_of ix entry (Suc n) whole (schema, v, path) =
     (case visit_samples (lint_sample_list_refs ptr text_of ix entry n whole)
         (case local_ref ptr whole schema of Some s \<Rightarrow> [(s, v, path)] | None \<Rightarrow> []) of
        None \<Rightarrow> None
      | Some refs_ds \<Rightarrow>
          map_option (\<lambda>ds. refs_ds @ sample_mismatch text_of ix entry schema v path @ ds)
            (visit_samples (lint_sample_list_refs ptr text_of ix entry n whole) (sample_visits schema v path)))"

definition sample_diagnostic :: "context_rule \<Rightarrow> string \<times> string \<Rightarrow> string \<Rightarrow> context_diagnostic" where
  "sample_diagnostic rule entry m =
     \<lparr>xd_rule = rule,
      xd_target = field_target (EEvaluationContextSample (fst entry) (snd entry)) FEvaluationContextSample,
      xd_message = ''evaluation context sample '' @ snd entry @ m\<rparr>"

definition lint_sample ::
  "(json \<Rightarrow> string \<Rightarrow> json option) \<Rightarrow> (json \<Rightarrow> string) \<Rightarrow> nat \<Rightarrow> semantic_index \<Rightarrow> string \<times> string \<Rightarrow> json
   \<Rightarrow> context_diagnostic list option" where
  "lint_sample ptr text_of n ix entry v =
     (if as_object v = None then Some [sample_diagnostic EvaluationContextSampleShape entry '' must be a JSON object'']
      else
        (case map_of (ix_evaluation_contexts ix) (fst entry) of
           None \<Rightarrow> Some [sample_diagnostic EvaluationContextSampleShape entry
                          ('' has no owning evaluation context: '' @ fst entry)]
         | Some en \<Rightarrow>
             (case en_validator en of
                None \<Rightarrow> Some []
              | Some validate_sample \<Rightarrow>
                  map_option (\<lambda>ds.
                      (case validate_sample v of
                         Some e \<Rightarrow> [sample_diagnostic EvaluationContextSampleSchemaMismatch entry
                                     ('' does not match '' @ fst entry @ '' schema: '' @ e)]
                       | None \<Rightarrow> []) @ ds)
                    (case en_json en of
                       Some schema \<Rightarrow> lint_sample_list_refs ptr text_of ix entry n schema (schema, v, ''$'')
                     | None \<Rightarrow> Some []))))"

definition lint_evaluation_context_samples ::
  "(json \<Rightarrow> string \<Rightarrow> json option) \<Rightarrow> (json \<Rightarrow> string) \<Rightarrow> nat \<Rightarrow> semantic_index \<Rightarrow> json option smap smap
   \<Rightarrow> context_diagnostic list option" where
  "lint_evaluation_context_samples ptr text_of n ix samples =
     visit_samples (\<lambda>(entry, value). case value of
         Some v \<Rightarrow> lint_sample ptr text_of n ix entry v | None \<Rightarrow> Some [])
       (concat (map (\<lambda>(c, entries). map (\<lambda>(k, value). ((c, k), value)) entries) samples))"

section \<open>Context paths\<close>

definition undeclared_paths :: "semantic_index \<Rightarrow> expression \<Rightarrow> string list" where
  "undeclared_paths ix e =
     filter (\<lambda>p. \<not> (p = [] \<or> path_declared_in_any_context ix p)) (context_paths (refs e))"

text \<open>Each expression of a variable with the entity that is blamed and the word that opens the message.\<close>

definition blamed_expressions :: "semantic_index \<Rightarrow> string \<Rightarrow> variable_node \<Rightarrow> (string \<times> semantic_entity \<times> expression) list" where
  "blamed_expressions ix i vn =
     concat (map (\<lambda>r. map (\<lambda>e. (''rule'', ERule i (rn_index r), e)) (present_expression (rn_when r)))
       (case variable_resolve_rules vn of Some rules \<Rightarrow> rules | None \<Rightarrow> []))
     @ map (\<lambda>e. (''query'', EVariable (vn_id vn), e)) (variable_query_expressions vn)
     @ map (\<lambda>e. (''allocation'', EVariable (vn_id vn), e)) (variable_allocation_expressions ix vn)"

definition for_checked_variables ::
  "string bset \<Rightarrow> semantic_index \<Rightarrow> (string \<times> semantic_entity \<times> expression \<Rightarrow> context_diagnostic list)
   \<Rightarrow> context_diagnostic list" where
  "for_checked_variables errors ix f =
     concat (map (\<lambda>(i, vn). if i \<in> set errors then [] else concat (map f (blamed_expressions ix i vn)))
       (ix_variables ix))"

definition undeclared_diagnostics :: "semantic_index \<Rightarrow> string \<times> semantic_entity \<times> expression \<Rightarrow> context_diagnostic list" where
  "undeclared_diagnostics ix b =
     map (\<lambda>p. \<lparr>xd_rule = VariableRuleUndeclaredContextPath, xd_target = entity_target (fst (snd b)),
               xd_message = fst b @ '' references undeclared context path: context.'' @ p\<rparr>)
       (undeclared_paths ix (snd (snd b)))"

definition lint_undeclared_context_paths ::
  "(severity \<times> semantic_entity) list \<Rightarrow> semantic_index \<Rightarrow> context_diagnostic list" where
  "lint_undeclared_context_paths before ix =
     for_checked_variables (variables_with_existing_errors before) ix (undeclared_diagnostics ix)"

definition type_mismatch_label :: "semantic_index \<Rightarrow> string \<Rightarrow> scalar_type bset \<Rightarrow> string option" where
  "type_mismatch_label ix path constraints =
     (if constraints = [] then None
      else
        (let fits = List.map_filter (\<lambda>(_, en). map_option (\<lambda>schema. context_path_type_fit schema path constraints)
               (en_json en)) (ix_evaluation_contexts ix) in
         if list_ex (\<lambda>fit. fit \<noteq> FitMissing) fits \<and> FitOk \<notin> set fits
         then Some (expected_type_label constraints) else None))"

definition member_type_constraint :: "semantic_index \<Rightarrow> string \<Rightarrow> scalar_type option" where
  "member_type_constraint ix i =
     (case map_of (ix_lists ix) i of
        Some nd \<Rightarrow>
          (case ln_member_type nd of
             Present ty \<Rightarrow>
               if ty = ''string'' then Some TyString
               else if ty = ''int'' \<or> ty = ''number'' then Some TyNumber
               else if ty = ''bool'' then Some TyBool
               else None
           | _ \<Rightarrow> None)
      | None \<Rightarrow> None)"

definition list_membership_mismatches :: "semantic_index \<Rightarrow> expression_references \<Rightarrow> (string \<times> string) list" where
  "list_membership_mismatches ix references =
     List.map_filter (\<lambda>(path, ids).
         map_option (\<lambda>label. (path, label))
           (type_mismatch_label ix path (fold bs_insert (List.map_filter (member_type_constraint ix) ids) [])))
       (context_path_lists references)"

definition mismatch_diagnostic :: "semantic_entity \<Rightarrow> string \<Rightarrow> context_diagnostic" where
  "mismatch_diagnostic entity m =
     \<lparr>xd_rule = VariableRuleContextPathTypeMismatch, xd_target = entity_target entity,
      xd_message = m @ '', which no evaluation context declares with a matching type''\<rparr>"

definition type_diagnostics :: "semantic_index \<Rightarrow> string \<times> semantic_entity \<times> expression \<Rightarrow> context_diagnostic list" where
  "type_diagnostics ix b =
     List.map_filter (\<lambda>(path, constraints).
         map_option (\<lambda>label. mismatch_diagnostic (fst (snd b))
             (fst b @ '' uses context path context.'' @ path @ '' as '' @ label))
           (type_mismatch_label ix path constraints))
       (context_path_types (refs (snd (snd b))))
     @ map (\<lambda>(path, label). mismatch_diagnostic (fst (snd b))
         (fst b @ '' tests context path context.'' @ path @ '' against list members of type '' @ label))
       (list_membership_mismatches ix (refs (snd (snd b))))"

definition lint_context_path_types ::
  "(severity \<times> semantic_entity) list \<Rightarrow> semantic_index \<Rightarrow> context_diagnostic list" where
  "lint_context_path_types before ix =
     for_checked_variables (variables_with_existing_errors before) ix (type_diagnostics ix)"

section \<open>Compatibility\<close>

definition in_conflict :: "string bset \<Rightarrow> semantic_index \<Rightarrow> context_compatibility \<Rightarrow> variable_node \<Rightarrow> bool" where
  "in_conflict errors ix cc vn =
     (vn_id vn \<notin> set errors \<and> \<not> variable_references_error_variable ix (vn_id vn) errors
      \<and> variable_rule_condition_reference_count ix (vn_id vn) \<noteq> 0
      \<and> (case map_of (cc_variables cc) (vn_id vn) of Some ctxs \<Rightarrow> ctxs = [] | None \<Rightarrow> True))"

definition conflict_diagnostic :: "string \<Rightarrow> context_diagnostic" where
  "conflict_diagnostic i =
     \<lparr>xd_rule = VariableEvaluationContextConflict, xd_target = entity_target (EVariable i),
      xd_message = ''variable '' @ i @ '' has no evaluation context shared by all rule conditions''\<rparr>"

definition lint_evaluation_context_compatibility ::
  "(severity \<times> semantic_entity) list \<Rightarrow> semantic_index \<Rightarrow> context_diagnostic list option" where
  "lint_evaluation_context_compatibility before ix =
     map_option (\<lambda>cc. map (\<lambda>vn. conflict_diagnostic (vn_id vn))
         (filter (in_conflict (variables_with_existing_errors before) ix cc) (map snd (ix_variables ix))))
       (compatibility_for ix)"

section \<open>Variables without a context\<close>

lemma compatibility_defined: "\<exists>cc. compatibility_for ix = Some cc"
proof -
  obtain cs s where "visit_each (variable_contexts (walk_fuel ix) ix) (map fst (ix_variables ix)) new_builder = Some (cs, s)"
    using context_walk.visits_right [OF card_declared] unfolding variable_contexts_def by blast
  then show ?thesis by (simp add: compatibility_for_def Let_def)
qed

lemma unshared_contexts:
  assumes "keyed_by_id ix"
  shows "providers ix R = {} \<longleftrightarrow> R \<noteq> {} \<and>
    \<not> (\<exists>(k, en) \<in> set (ix_evaluation_contexts ix). \<forall>(e, p) \<in> R. context_provides en p (path_constraints e p))"
proof -
  have keyed: "distinct (map fst (ix_evaluation_contexts ix))" "\<And>j en. (j, en) \<in> set (ix_evaluation_contexts ix) \<Longrightarrow> en_id en = j"
    using assms by (auto simp: keyed_by_id_def list_all_iff)
  show ?thesis
  proof (cases "R = {}")
    case False
    then obtain e0 p0 where e0: "(e0, p0) \<in> R" by (cases "SOME x. x \<in> R") (metis ex_in_conv surj_pair)
    have "i \<in> providers ix R \<longleftrightarrow> (\<exists>en. (i, en) \<in> set (ix_evaluation_contexts ix)
        \<and> (\<forall>(e, p) \<in> R. context_provides en p (path_constraints e p)))" for i
    proof
      assume i: "i \<in> providers ix R"
      have at_key: "\<exists>en. (i, en) \<in> set (ix_evaluation_contexts ix) \<and> context_provides en p (path_constraints e p)"
        if "(e, p) \<in> R" for e p
        using i that keyed(2) by (force simp: providers_def set_path_contexts)
      then obtain en where en: "(i, en) \<in> set (ix_evaluation_contexts ix)" using e0 by blast
      have "context_provides en p (path_constraints e p)" if "(e, p) \<in> R" for e p
        using at_key [OF that] eq_key_imp_eq_value [OF keyed(1) en] by blast
      with en show "\<exists>en. (i, en) \<in> set (ix_evaluation_contexts ix)
          \<and> (\<forall>(e, p) \<in> R. context_provides en p (path_constraints e p))" by blast
    next
      assume "\<exists>en. (i, en) \<in> set (ix_evaluation_contexts ix)
          \<and> (\<forall>(e, p) \<in> R. context_provides en p (path_constraints e p))"
      then obtain en where en: "(i, en) \<in> set (ix_evaluation_contexts ix)" "en_id en = i"
        "\<And>e p. (e, p) \<in> R \<Longrightarrow> context_provides en p (path_constraints e p)"
        using keyed(2) by blast
      then have "i \<in> set (path_contexts ix e p)" if "(e, p) \<in> R" for e p
        unfolding set_path_contexts using that by (intro image_eqI [of _ _ en]) force+
      then show "i \<in> providers ix R" by (auto simp: providers_def)
    qed
    then have "providers ix R = {} \<longleftrightarrow> \<not> (\<exists>i en. (i, en) \<in> set (ix_evaluation_contexts ix)
        \<and> (\<forall>(e, p) \<in> R. context_provides en p (path_constraints e p)))"
      by (simp only: set_eq_iff empty_iff) blast
    with False show ?thesis unfolding Bex_def split_paired_Ex prod.case by simp
  qed (simp add: providers_simps)
qed

text \<open>C38 conflicts_reported: the lint ends and reports exactly the declared variables that have no error yet
  and condition on no variable with one, have a condition that reads the context or a variable, and
  for which no declared context provides everything their resolution can read, because none does, because there
  is a reference cycle, or because nothing of the context is read at all.\<close>

theorem conflicts_reported:
  assumes "keyed_by_id ix"
  shows "\<exists>ds. lint_evaluation_context_compatibility before ix = Some ds
    \<and> (\<forall>i. conflict_diagnostic i \<in> set ds \<longleftrightarrow>
        i \<in> fst ` set (ix_variables ix) \<and> i \<notin> set (variables_with_existing_errors before)
        \<and> \<not> variable_references_error_variable ix i (variables_with_existing_errors before)
        \<and> variable_rule_condition_reference_count ix i \<noteq> 0
        \<and> (reads ix i = {} \<or> loops ix i
           \<or> \<not> (\<exists>(k, en) \<in> set (ix_evaluation_contexts ix). \<forall>(e, p) \<in> reads ix i. context_provides en p (path_constraints e p))))"
proof -
  obtain cc where cc: "compatibility_for ix = Some cc" using compatibility_defined by blast
  let ?E = "variables_with_existing_errors before"
  have "conflict_diagnostic i = conflict_diagnostic j \<longleftrightarrow> i = j" for i j
    by (auto simp: conflict_diagnostic_def entity_target_def)
  then have reported: "conflict_diagnostic i \<in> set (map (\<lambda>vn. conflict_diagnostic (vn_id vn))
      (filter (in_conflict ?E ix cc) (map snd (ix_variables ix)))) \<longleftrightarrow>
      (\<exists>vn \<in> snd ` set (ix_variables ix). vn_id vn = i \<and> in_conflict ?E ix cc vn)" for i
    by (auto simp: image_iff)
  have keyed: "vn_id ` snd ` set (ix_variables ix) = fst ` set (ix_variables ix)"
    unfolding image_image using assms by (intro image_cong refl) (auto simp: keyed_by_id_def list_all_iff)
  have "(\<exists>vn \<in> snd ` set (ix_variables ix). vn_id vn = i \<and> in_conflict ?E ix cc vn) \<longleftrightarrow>
      i \<in> fst ` set (ix_variables ix) \<and> i \<notin> set ?E \<and> \<not> variable_references_error_variable ix i ?E
      \<and> variable_rule_condition_reference_count ix i \<noteq> 0
      \<and> (case map_of (cc_variables cc) i of Some ctxs \<Rightarrow> ctxs = [] | None \<Rightarrow> True)" for i
    unfolding keyed [symmetric] in_conflict_def by blast
  moreover have "(case map_of (cc_variables cc) i of Some ctxs \<Rightarrow> ctxs = [] | None \<Rightarrow> True) \<longleftrightarrow>
      reads ix i = {} \<or> loops ix i
      \<or> \<not> (\<exists>(k, en) \<in> set (ix_evaluation_contexts ix). \<forall>(e, p) \<in> reads ix i. context_provides en p (path_constraints e p))"
    if declared: "i \<in> fst ` set (ix_variables ix)" for i
  proof -
    obtain cc' ctxs where "compatibility_for ix = Some cc'" "map_of (cc_variables cc') i = Some ctxs"
      "set ctxs = (if loops ix i \<or> reads ix i = {} then {} else providers ix (reads ix i))"
      by (rule compatibility_lookup [OF declared])
    moreover from this(1) have "cc' = cc" using cc by simp
    ultimately show ?thesis using unshared_contexts [OF assms, of "reads ix i"] by (auto simp del: set_empty simp: set_empty [symmetric])
  qed
  ultimately show ?thesis
    using reported by (auto simp: lint_evaluation_context_compatibility_def cc)
qed

theorem conflicts_reported_witness:
  "\<exists>ds. lint_evaluation_context_compatibility [] flag_index = Some ds \<and> conflict_diagnostic ''plan'' \<notin> set ds"
proof -
  have "context_provides user_context ''beta'' (path_constraints flag_condition ''beta'')" by code_simp
  moreover have "(''user'', user_context) \<in> set (ix_evaluation_contexts flag_index)" by (simp add: flag_index_def)
  ultimately have "\<exists>(k, en) \<in> set (ix_evaluation_contexts flag_index).
      \<forall>(e, p) \<in> reads flag_index ''plan''. context_provides en p (path_constraints e p)"
    by (intro bexI [of _ "(''user'', user_context)"]) (auto simp: flag_reads)
  moreover have "reads flag_index ''plan'' \<noteq> {}" by (simp add: flag_reads)
  ultimately show ?thesis
    using conflicts_reported [OF flag_keyed, of "[]"] flag_loops by blast
qed

text \<open>
  A condition on a variable that reads nothing of the context is no requirement, yet the lint takes the
  empty set kept for it for a conflict: a variable that follows a time gate is reported as an error.
\<close>

definition gate_index :: semantic_index where
  "gate_index = flag_index\<lparr>ix_variables :=
     [ruled_variable ''beta'' ''bool'' (expression_of ''env.now'' (Select (Ident ''env'') ''now'')) (JBool True) (JBool False),
      ruled_variable ''plan'' ''string'' plan_condition (JString ''pro'') (JString ''free'')]\<rparr>"

lemma context_free_condition_conflicts:
  "lint_evaluation_context_compatibility [] gate_index = Some [conflict_diagnostic ''plan'']"
  by code_simp

section \<open>Silent path lints\<close>

lemma silent_for_checked:
  assumes "for_checked_variables errors ix f = []" "map_of (ix_variables ix) i = Some vn" "i \<notin> set errors"
    and "e \<in> set (variable_expressions ix vn)"
  obtains word entity where "f (word, entity, e) = []"
proof -
  have "(i, vn) \<in> set (ix_variables ix)" using assms(2) by (rule map_of_SomeD)
  then have "\<forall>b \<in> set (blamed_expressions ix i vn). f b = []"
    using assms(1,3) by (auto simp: for_checked_variables_def)
  moreover have "\<exists>word entity. (word, entity, e) \<in> set (blamed_expressions ix i vn)"
    using assms(4)
    by (auto simp: blamed_expressions_def variable_expressions_def variable_rule_conditions_def split: option.splits)
      blast+
  ultimately show ?thesis using that by blast
qed

lemma set_map_filter_eq: "y \<in> set (List.map_filter f xs) \<longleftrightarrow> (\<exists>x \<in> set xs. f x = Some y)"
  by (induction xs) (auto simp: map_filter_simps split: option.splits)

lemma fit_when_no_mismatch:
  assumes "path_declared_in_any_context ix p" "type_mismatch_label ix p tys = None"
  shows "\<exists>(k, en) \<in> set (ix_evaluation_contexts ix). context_provides en p tys"
proof -
  obtain k en schema where en: "(k, en) \<in> set (ix_evaluation_contexts ix)" "en_json en = Some schema"
    "context_schema_field schema p \<noteq> None"
    using assms(1) by (auto simp: path_declared_in_any_context_def list_ex_iff split: option.splits)
  let ?fits = "List.map_filter (\<lambda>(_, en). map_option (\<lambda>schema. context_path_type_fit schema p tys) (en_json en)) (ix_evaluation_contexts ix)"
  show ?thesis
  proof (cases "tys = []")
    case True
    with en show ?thesis
      by (intro bexI [of _ "(k, en)"]) (auto simp: context_provides_def context_path_type_fit_def)
  next
    case False
    have members: "fit \<in> set ?fits \<longleftrightarrow> (\<exists>(k, en) \<in> set (ix_evaluation_contexts ix).
        map_option (\<lambda>schema. context_path_type_fit schema p tys) (en_json en) = Some fit)" for fit
      unfolding set_map_filter_eq by (rule bex_cong) auto
    have "context_path_type_fit schema p tys \<in> set ?fits" "context_path_type_fit schema p tys \<noteq> FitMissing"
      unfolding members using en by (force, auto simp: context_path_type_fit_def split: option.splits)
    then have "FitOk \<in> set ?fits"
      using assms(2) False by (auto simp: type_mismatch_label_def Let_def list_ex_iff split: if_splits)
    then show ?thesis unfolding members
      by (elim bexE, intro bexI) (auto simp: context_provides_def)
  qed
qed

text \<open>When neither the lint of undeclared context paths nor the lint of their types
  reports anything, then every context path that an expression of a variable without earlier errors reads,
  a rule's, a query's or an allocation's, is declared by some evaluation context with a type that fits how the
  expression uses it.\<close>

theorem silent_lints_provide:
  assumes "lint_undeclared_context_paths before ix = []" "lint_context_path_types before ix = []"
    and "i \<notin> set (variables_with_existing_errors before)" "(e, p) \<in> reads_locally ix i"
  shows "\<exists>(k, en) \<in> set (ix_evaluation_contexts ix). context_provides en p (path_constraints e p)"
proof (rule fit_when_no_mismatch)
  obtain vn where vn: "map_of (ix_variables ix) i = Some vn" "e \<in> set (variable_expressions ix vn)"
    and p: "p \<in> set (context_path_names e)"
    using assms(4) by (cases "map_of (ix_variables ix) i") (auto simp: reads_locally_def expressions_of_def)
  obtain w1 x1 where "undeclared_diagnostics ix (w1, x1, e) = []"
    using assms(1) by (auto simp: lint_undeclared_context_paths_def elim: silent_for_checked [OF _ vn(1) assms(3) vn(2)])
  then show "path_declared_in_any_context ix p"
    using p by (auto simp: undeclared_diagnostics_def undeclared_paths_def context_path_names_def filter_empty_conv)
  obtain w2 x2 where silent: "type_diagnostics ix (w2, x2, e) = []"
    using assms(2) by (auto simp: lint_context_path_types_def elim: silent_for_checked [OF _ vn(1) assms(3) vn(2)])
  show "type_mismatch_label ix p (path_constraints e p) = None"
  proof (cases "map_of (context_path_types (refs e)) p")
    case (Some tys)
    then have member: "(p, tys) \<in> set (context_path_types (refs e))" by (rule map_of_SomeD)
    have "type_mismatch_label ix p tys = None"
    proof (rule ccontr)
      assume "type_mismatch_label ix p tys \<noteq> None"
      then obtain label where "type_mismatch_label ix p tys = Some label" by blast
      then have "mismatch_diagnostic x2 (w2 @ '' uses context path context.'' @ p @ '' as '' @ label)
          \<in> set (type_diagnostics ix (w2, x2, e))"
        unfolding type_diagnostics_def set_append Un_iff set_map_filter_eq
        using member by (intro disjI1 bexI [of _ "(p, tys)"]) simp_all
      with silent show False by simp
    qed
    with Some show ?thesis by (simp add: path_constraints_def)
  qed (simp add: path_constraints_def type_mismatch_label_def)
qed

theorem silent_lints_provide_witness:
  "(flag_condition, ''beta'') \<in> reads_locally flag_index ''beta''
    \<and> (\<exists>(k, en) \<in> set (ix_evaluation_contexts flag_index).
        context_provides en ''beta'' (path_constraints flag_condition ''beta''))"
proof -
  have r: "(flag_condition, ''beta'') \<in> reads_locally flag_index ''beta''"
    by (simp add: reads_locally_def flag_expressions context_path_names_def condition_refs)
  have "lint_undeclared_context_paths [] flag_index = []" "lint_context_path_types [] flag_index = []"
    by code_simp+
  moreover have "''beta'' \<notin> set (variables_with_existing_errors [])" by code_simp
  ultimately show ?thesis using silent_lints_provide [OF _ _ _ r] r by blast
qed

section \<open>Samples and the lists they name\<close>

text \<open>The fields of a value that a schema reaches, with the schema that applies there.\<close>

inductive applies ::
  "(json \<Rightarrow> string \<Rightarrow> json option) \<Rightarrow> json \<Rightarrow> json \<times> json \<times> string \<Rightarrow> json \<times> json \<times> string \<Rightarrow> bool"
  for ptr :: "json \<Rightarrow> string \<Rightarrow> json option" and whole :: json where
  applies_here: "applies ptr whole x x"
| applies_ref: "local_ref ptr whole schema = Some s \<Longrightarrow> applies ptr whole (s, v, path) y
    \<Longrightarrow> applies ptr whole (schema, v, path) y"
| applies_visit: "x \<in> set (sample_visits schema v path) \<Longrightarrow> applies ptr whole x y
    \<Longrightarrow> applies ptr whole (schema, v, path) y"

inductive_cases applies_cases: "applies ptr whole (schema, v, path) y"

lemma visit_samples_silent:
  "visit_samples f xs = Some ds \<Longrightarrow> ds = [] \<longleftrightarrow> (\<forall>x \<in> set xs. f x = Some [])"
  by (induction xs arbitrary: ds) (auto split: option.splits)

lemma visit_samples_runs: "visit_samples f xs = Some ds \<Longrightarrow> x \<in> set xs \<Longrightarrow> \<exists>d. f x = Some d"
  by (induction xs arbitrary: ds) (auto split: option.splits)

lemma sample_mismatch_silent: "sample_mismatch text_of ix entry schema v path = [] \<longleftrightarrow> not_a_member ix schema v = None"
  by (auto simp: sample_mismatch_def split: option.splits)

lemma local_ref_cases:
  "(\<forall>x \<in> set (case local_ref ptr whole schema of Some s \<Rightarrow> [(s, v, path)] | None \<Rightarrow> []). P x) \<longleftrightarrow>
     (\<forall>s. local_ref ptr whole schema = Some s \<longrightarrow> P (s, v, path))"
  by (auto split: option.splits)


definition tier_schema :: json where
  "tier_schema = JObject [(''properties'', JObject [(''tier'', JObject [(''x-rototo-ref'', JString ''list=tiers'')])])]"

definition tier_index :: semantic_index where
  "tier_index = flag_index\<lparr>ix_lists := [(''tiers'', \<lparr>ln_id = ''tiers'', ln_description = None,
     ln_member_type = Present ''string'', ln_members = Present [JString ''free'', JString ''pro'']\<rparr>)]\<rparr>"


text \<open>A schema whose root refers to itself keeps the walk from ending.\<close>

lemma self_reference_never_ends:
  "local_ref ptr whole whole = Some whole \<Longrightarrow> lint_sample_list_refs ptr text_of ix entry n whole (whole, v, path) = None"
  by (induction n) simp_all

end
