(* ===== verification/RuleLint.thy ===== *)
theory RuleLint
  imports ContextReads Select Diff
begin

text \<open>
  Two lints of rules (src/src/lint/builtins/graph.rs): a rule whose condition an earlier rule has already,
  and a rule whose value is the default. Source locations are left out.
\<close>

section \<open>The lints\<close>

datatype graph_rule = VariableRuleShadowed | VariableRuleSelectsDefaultValue

record graph_diagnostic =
  gd_rule :: graph_rule
  gd_target :: semantic_target
  gd_message :: string

text \<open>The rules whose condition, as written, has been seen.\<close>

fun shadowed_rules :: "string list \<Rightarrow> rule_node list \<Rightarrow> (rule_node \<times> string) list" where
  "shadowed_rules seen [] = []"
| "shadowed_rules seen (r # rest) =
     (if rn_invalid_shape r then shadowed_rules seen rest
      else (case rn_when r of
              Some (Present w) \<Rightarrow>
                if source w \<in> set seen then (r, source w) # shadowed_rules seen rest
                else shadowed_rules (source w # seen) rest
            | _ \<Rightarrow> shadowed_rules seen rest))"

definition shadow_diagnostic :: "string \<Rightarrow> rule_node \<times> string \<Rightarrow> graph_diagnostic" where
  "shadow_diagnostic i p =
     \<lparr>gd_rule = VariableRuleShadowed, gd_target = field_target (ERule i (rn_index (fst p))) FVariableRuleWhen,
      gd_message = ''rule is shadowed by an earlier rule with condition: '' @ snd p\<rparr>"

definition lint_shadowed_variable_rules :: "semantic_index \<Rightarrow> graph_diagnostic list" where
  "lint_shadowed_variable_rules ix = concat (map (\<lambda>(_, vn).
     case variable_resolve_rules vn of
       Some rules \<Rightarrow> map (shadow_diagnostic (vn_id vn)) (shadowed_rules [] rules)
     | None \<Rightarrow> []) (ix_variables ix))"

definition selects_default :: "json \<Rightarrow> rule_node \<Rightarrow> bool" where
  "selects_default dflt r =
     (\<not> rn_invalid_shape r \<and> (case rn_value r of Present v \<Rightarrow> v = dflt | _ \<Rightarrow> False))"

definition lint_rules_selecting_default_value :: "(json \<Rightarrow> string) \<Rightarrow> semantic_index \<Rightarrow> graph_diagnostic list" where
  "lint_rules_selecting_default_value text_of ix = concat (map (\<lambda>(_, vn).
     case vn_resolve vn of
       Resolve body \<Rightarrow>
         (case (rb_default body, rb_rules body) of
            (Present dflt, Rules rules) \<Rightarrow>
              map (\<lambda>r. \<lparr>gd_rule = VariableRuleSelectsDefaultValue,
                        gd_target = field_target (ERule (vn_id vn) (rn_index r)) FVariableRuleValue,
                        gd_message = ''rule selects the same value as the resolve default: '' @ text_of dflt\<rparr>)
                (filter (selects_default dflt) rules)
          | _ \<Rightarrow> [])
     | _ \<Rightarrow> []) (ix_variables ix))"

section \<open>A shadowed rule never fires\<close>

lemma shadowed_rule_after:
  assumes "(r, c) \<in> set (shadowed_rules seen rules)" "c \<notin> set seen"
  shows "\<exists>before q between after w. rules = before @ q # between @ r # after
    \<and> rn_when q = Some (Present w) \<and> source w = c"
  using assms
proof (induction seen rules rule: shadowed_rules.induct)
  case (2 seen a rest)
  show ?case
  proof (cases "\<exists>w. rn_when a = Some (Present w) \<and> \<not> rn_invalid_shape a \<and> source w = c")
    case True
    then obtain w where w: "rn_when a = Some (Present w)" "\<not> rn_invalid_shape a" "source w = c" by blast
    with 2 have "(r, c) \<in> set (shadowed_rules (c # seen) rest)" by auto
    moreover have "(r, c) \<in> set (shadowed_rules ss rs) \<Longrightarrow> r \<in> set rs" for ss rs
      by (induction ss rs rule: shadowed_rules.induct) (auto split: if_splits option.splits project_field.splits)
    ultimately obtain between after where "rest = between @ r # after" by (meson split_list)
    with w show ?thesis by (metis append_Nil)
  next
    case False
    have "(r, c) \<in> set (shadowed_rules seen' rest) \<Longrightarrow> c \<notin> set seen' \<Longrightarrow>
        \<exists>before q between after w. a # rest = before @ q # between @ r # after \<and> rn_when q = Some (Present w) \<and> source w = c"
      if "\<exists>before q between after w. rest = before @ q # between @ r # after \<and> rn_when q = Some (Present w) \<and> source w = c"
      for seen'
      using that by (metis append_Cons)
    with 2 False show ?thesis
      by (auto split: if_splits option.splits project_field.splits)
  qed
qed simp

lemma shadowed_rule_condition: "(r, c) \<in> set (shadowed_rules seen rules) \<Longrightarrow> \<exists>w. rn_when r = Some (Present w) \<and> source w = c"
  by (induction seen rules rule: shadowed_rules.induct) (auto split: if_splits option.splits project_field.splits)

lemma compiled_rule_index: "compile_variable_rule ix vn kind n = Inr ru \<Longrightarrow> rule_index ru = rn_index n"
  by (auto simp: compile_variable_rule_def rbind_eq_Inr split: if_splits)

lemma trace_rule_fields [simp]: "rt_matched (trace_rule r b) = b" "rt_index (trace_rule r b) = rule_index r"
  by (simp_all add: trace_rule_def)

lemma compiled_rules_split:
  assumes "traverse (compile_variable_rule ix vn kind) rules = Inr rs"
  shows "map rule_index rs = map rn_index rules" "map (Some \<circ> Present \<circ> rule_when) rs = map rn_when rules"
proof -
  have "rule_index ru = rn_index n \<and> Some (Present (rule_when ru)) = rn_when n"
    if "compile_variable_rule ix vn kind n = Inr ru" for n ru
    using compiled_rule_index [OF that] compiled_rule_when [OF that] by simp
  then have "list_all2 (\<lambda>n ru. rule_index ru = rn_index n \<and> Some (Present (rule_when ru)) = rn_when n) rules rs"
    using assms [unfolded traverse_Inr_iff] by (auto elim: list_all2_mono)
  then show "map rule_index rs = map rn_index rules" "map (Some \<circ> Present \<circ> rule_when) rs = map rn_when rules"
    by (induction rule: list_all2_induct) auto
qed

lemma compiled_variable_rules:
  assumes "compile_variable ix vn = Inr (i, RulesResolution d rs)" "variable_resolve_rules vn = Some rules"
  shows "map rule_index rs = map rn_index rules" "map (Some \<circ> Present \<circ> rule_when) rs = map rn_when rules"
proof -
  obtain kind body where "vn_resolve vn = Resolve body" "rb_rules body = Rules rules"
    "compile_variable_rules ix vn kind body = Inr (RulesResolution d rs)"
    using assms
    by (auto simp: compile_variable_def compile_variable_resolve_def variable_resolve_rules_def rbind_eq_Inr Let_def
        compile_variable_query_def compile_variable_allocation_def compile_allocation_body_def missing_allocation_def
        split: resolve_node.splits rule_collection.splits if_splits option.splits project_field.splits prod.splits)
  then have "traverse (compile_variable_rule ix vn kind) rules = Inr rs"
    by (auto simp: compile_variable_rules_def rbind_eq_Inr split: if_splits)
  from compiled_rules_split [OF this] show "map rule_index rs = map rn_index rules"
    "map (Some \<circ> Present \<circ> rule_when) rs = map rn_when rules" by simp_all
qed

lemma rule_condition_listed:
  "variable_resolve_rules vn = Some rules \<Longrightarrow> r \<in> set rules \<Longrightarrow> rn_when r = Some (Present w) \<Longrightarrow>
   w \<in> set (variable_rule_conditions vn)"
  by (force simp: variable_rule_conditions_def present_expression_def)

lemma shadowed_position:
  assumes "map rule_index rs = map rn_index rules" "map (Some \<circ> Present \<circ> rule_when) rs = map rn_when rules"
    and "distinct (map rn_index rules)" "rules = before @ q # between @ s # after"
    and "rn_when q = Some (Present w)" "rn_when s = Some (Present w')" "rs = bef @ ru # aft"
  shows "rule_index ru = rn_index s \<Longrightarrow> rule_when ru = w' \<and> (\<exists>q' \<in> set bef. rule_when q' = w)"
proof -
  let ?m = "length before + 1 + length between"
  have len: "length rs = length rules" using assms(1) map_eq_imp_length_eq by blast
  have nth: "rule_index (rs ! n) = rn_index (rules ! n)" "Some (Present (rule_when (rs ! n))) = rn_when (rules ! n)"
    if "n < length rs" for n
    using that len arg_cong [OF assms(1), of "\<lambda>xs. xs ! n"] arg_cong [OF assms(2), of "\<lambda>xs. xs ! n"] by simp_all
  have at: "?m < length rs" "rules ! ?m = s" "length before < length rs" "rules ! length before = q"
    unfolding len by (simp_all add: assms(4) nth_append)
  assume "rule_index ru = rn_index s"
  then have "rn_index (rules ! length bef) = rn_index (rules ! ?m)"
    using nth(1) [of "length bef"] at(2) by (simp add: assms(7))
  moreover have "length bef < length rules" unfolding len [symmetric] by (simp add: assms(7))
  ultimately have pos: "length bef = ?m"
    using assms(3) at(1) unfolding len by (simp add: distinct_conv_nth) (metis nth_map)
  have "rs ! length bef = ru" unfolding assms(7) by (rule nth_append_length)
  moreover have "length before < length bef" using pos by simp
  ultimately have "rule_when ru = w'" "rule_when (rs ! length before) = w"
    using nth(2) [of ?m] nth(2) [of "length before"] at assms(5,6) pos by auto
  moreover have "rs ! length before \<in> set bef"
    using \<open>length before < length bef\<close> unfolding assms(7) by (simp add: nth_append)
  ultimately show "rule_when ru = w' \<and> (\<exists>q' \<in> set bef. rule_when q' = w)" by blast
qed

lemma compiled_node_of:
  assumes "keyed_by_id ix" "vn \<in> snd ` set (ix_variables ix)" "compile_variable ix vn = Inr (i, r)"
  shows "map_of (ix_variables ix) i = Some vn"
proof -
  have "vn_id vn = i" using assms(3) compile_variable_typed by blast
  with assms(1,2) show ?thesis by (auto simp: keyed_by_id_def list_all_iff intro!: map_of_is_SomeI)
qed

lemma plain_rules_only:
  assumes "trace_variable_unchecked env i = Some (Inr t)" "map_of (rp_variables (re_runtime env)) i = Some r"
    and "tr_rules t \<noteq> []"
  shows "\<exists>d rs. r = RulesResolution d rs"
proof -
  obtain n t' where t: "resolve_method env (plain_resolver env n) i r () = Some (Inr t', ())" "tr_rules t = tr_rules t'"
    using assms(1,2) by (rule plain_trace_of) simp
  have "tr_rules t' = []" if "r = QueryResolution q" for q
    using t(1) that by (auto simp: resolve_method_def resolve_query_trace_def and_then_Inr ret_def query_result_def)
  moreover have "tr_rules t' = []" if "r = AllocationResolution al" for al
    using t(1) that by (auto simp: resolve_method_def allocation_result_def Let_def elim!: allocation_trace_parts)
  ultimately show ?thesis using assms(3) t(2) by (cases r) auto
qed

lemma matched_rule_first:
  assumes "trace_variable_unchecked env i = Some (Inr t)"
    and "map_of (rp_variables (re_runtime env)) i = Some (RulesResolution d rs)"
    and "rtr \<in> set (tr_rules t)" "rt_matched rtr"
  shows "\<exists>before r after. rs = before @ r # after \<and> rtr = trace_rule r True \<and> holds env (rule_when r) None True
    \<and> list_all (\<lambda>r. holds env (rule_when r) None False) before"
proof -
  obtain n t' where t: "resolve_method env (plain_resolver env n) i (RulesResolution d rs) () = Some (Inr t', ())"
    "tr_rules t = tr_rules t'"
    using assms(1,2) by (rule plain_trace_of) simp
  then obtain p where p: "try_rules env (plain_resolver env n) rs () = Some (Inr p, ())" "tr_rules t = fst p"
    by (auto simp: resolve_method_def resolve_rules_trace_def and_then_Inr ret_def rules_result_def)
  from try_rules_decide [OF p(1)] show ?thesis
    using assms(3,4) unfolding p(2) rules_decide_def
    by (cases "snd p") fastforce+
qed

text \<open>C40 shadowed_rule_never_fires: take a compiled package whose rules are numbered apart and whose equal
  conditions, as written, are equal expressions. A rule that the lint reports as shadowed never decides the
  variable: in no context, with no engine, does a successful trace show it as the rule that matched.\<close>

theorem shadowed_rule_never_fires:
  assumes "compile_package compatible ctx_dependent ix = Inr rt" "keyed_by_id ix"
    and "map_of (ix_variables ix) i = Some vn" "variable_resolve_rules vn = Some rules" "distinct (map rn_index rules)"
    and "\<forall>e \<in> set (variable_rule_conditions vn). \<forall>e' \<in> set (variable_rule_conditions vn). source e = source e' \<longrightarrow> e = e'"
    and "d \<in> set (lint_shadowed_variable_rules ix)" "gd_target d = field_target (ERule i k) FVariableRuleWhen"
    and "trace_variable_unchecked (env\<lparr>re_runtime := rt\<rparr>) i = Some (Inr t)"
  shows "list_all (\<lambda>r. rt_index r = k \<longrightarrow> \<not> rt_matched r) (tr_rules t)"
  unfolding list_all_iff
proof (intro ballI impI notI)
  fix rtr assume rtr: "rtr \<in> set (tr_rules t)" "rt_index rtr = k" "rt_matched rtr"
  obtain k' vn' where vn': "(k', vn') \<in> set (ix_variables ix)" "d \<in> set (case variable_resolve_rules vn' of
      Some rules \<Rightarrow> map (shadow_diagnostic (vn_id vn')) (shadowed_rules [] rules) | None \<Rightarrow> [])"
    using assms(7) by (auto simp: lint_shadowed_variable_rules_def)
  then obtain p where "(k', vn') \<in> set (ix_variables ix)" "p \<in> set (shadowed_rules [] (the (variable_resolve_rules vn')))"
    "d = shadow_diagnostic (vn_id vn') p"
    by (cases "variable_resolve_rules vn'") auto
  then have "vn_id vn' = i" "rn_index (fst p) = k" "k' = vn_id vn'"
    using assms(2,8) by (auto simp: shadow_diagnostic_def field_target_def keyed_by_id_def list_all_iff)
  then have "map_of (ix_variables ix) i = Some vn'"
    using assms(2) \<open>(k', vn') \<in> set (ix_variables ix)\<close> by (auto simp: keyed_by_id_def intro: map_of_is_SomeI)
  then have p: "(fst p, snd p) \<in> set (shadowed_rules [] rules)"
    using assms(3,4) \<open>p \<in> _\<close> by simp
  obtain before q between after w where q: "rules = before @ q # between @ fst p # after"
    "rn_when q = Some (Present w)" "source w = snd p"
    using shadowed_rule_after [OF p] by auto
  obtain w' where w': "rn_when (fst p) = Some (Present w')" "source w' = snd p"
    using shadowed_rule_condition [OF p] by blast
  have conditions: "w \<in> set (variable_rule_conditions vn)" "w' \<in> set (variable_rule_conditions vn)"
    by (rule rule_condition_listed [OF assms(4) _ q(2)], simp add: q(1))
      (rule rule_condition_listed [OF assms(4) _ w'(1)], simp add: q(1))
  have same: "w = w'"
    using bspec [OF bspec [OF assms(6) conditions(1)] conditions(2)] q(3) w'(2) by simp
  obtain r where r: "map_of (rp_variables rt) i = Some r"
    using resolved_variable_known [OF assms(9)] by auto
  then obtain vn2 where vn2: "vn2 \<in> snd ` set (ix_variables ix)" "compile_variable ix vn2 = Inr (i, r)"
    using compile_package_variables [OF assms(1)] by blast
  then have "vn2 = vn" using compiled_node_of [OF assms(2) vn2] assms(3) by simp
  with vn2 have c: "compile_variable ix vn = Inr (i, r)" by simp
  have "\<exists>d rs. r = RulesResolution d rs"
  proof (rule plain_rules_only [OF assms(9)])
    show "tr_rules t \<noteq> []" using rtr(1) by auto
  qed (simp add: r)
  then obtain dflt rs where rs: "r = RulesResolution dflt rs" by blast
  note split = compiled_variable_rules [OF c [unfolded rs] assms(4)]
  obtain bef ru aft where m: "rs = bef @ ru # aft" "rule_index ru = k" "holds (env\<lparr>re_runtime := rt\<rparr>) (rule_when ru) None True"
    "list_all (\<lambda>r. holds (env\<lparr>re_runtime := rt\<rparr>) (rule_when r) None False) bef"
    using matched_rule_first [OF assms(9) _ rtr(1,3)] r rs rtr(2) by fastforce
  have "rule_index ru = rn_index (fst p)" using m(2) \<open>rn_index (fst p) = k\<close> by simp
  from shadowed_position [OF split assms(5) q(1,2) w'(1) m(1) this]
  obtain q' where "rule_when ru = w" "q' \<in> set bef" "rule_when q' = w" using same by blast
  then have "holds (env\<lparr>re_runtime := rt\<rparr>) w None True" "holds (env\<lparr>re_runtime := rt\<rparr>) w None False"
    using m(3,4) by (auto simp: list_all_iff)
  then show False using holds_unique by blast
qed

definition twin_rules :: "rule_node list" where
  "twin_rules = [when_rule flag_condition (JString ''a''), (when_rule flag_condition (JString ''b''))\<lparr>rn_index := 1\<rparr>]"

definition twin_variable :: "string \<times> variable_node" where
  "twin_variable = plain_variable ''twin'' ''string''
     \<lparr>rb_method = None, rb_default = Present (JString ''c''), rb_rules = Rules twin_rules, rb_query = None,
      rb_assignments = None\<rparr>"

definition twin_index :: semantic_index where
  "twin_index = flag_index\<lparr>ix_variables := [twin_variable]\<rparr>"

lemma twin_facts:
  "map_of (ix_variables twin_index) ''twin'' = Some (snd twin_variable)"
  "variable_resolve_rules (snd twin_variable) = Some twin_rules"
  "variable_rule_conditions (snd twin_variable) = [flag_condition, flag_condition]"
  "keyed_by_id twin_index" "distinct (map rn_index twin_rules)"
  by (simp_all add: twin_index_def twin_variable_def plain_variable_def variable_resolve_rules_def
      variable_rule_conditions_def twin_rules_def when_rule_def present_expression_def keyed_by_id_def
      flag_index_def user_context_def)

theorem shadowed_rule_never_fires_witness:
  "\<exists>rt t. compile_package [] [] twin_index = Inr rt
    \<and> trace_variable_unchecked (example_env rt (JObject [(''beta'', JBool True)])) ''twin'' = Some (Inr t)
    \<and> list_all (\<lambda>r. rt_index r = 1 \<longrightarrow> \<not> rt_matched r) (tr_rules t)"
proof -
  have "(case compile_package [] [] twin_index of Inl _ \<Rightarrow> False | Inr rt \<Rightarrow>
      (case trace_variable_unchecked (example_env rt (JObject [(''beta'', JBool True)])) ''twin'' of
         Some (Inr t) \<Rightarrow> True | _ \<Rightarrow> False))" by code_simp
  then obtain rt where rt: "compile_package [] [] twin_index = Inr rt"
    and run: "(case trace_variable_unchecked (example_env rt (JObject [(''beta'', JBool True)])) ''twin'' of
         Some (Inr t) \<Rightarrow> True | _ \<Rightarrow> False)"
    by (cases "compile_package [] [] twin_index") simp_all
  obtain t where t: "trace_variable_unchecked (example_env rt (JObject [(''beta'', JBool True)])) ''twin'' = Some (Inr t)"
    using run by (cases "trace_variable_unchecked (example_env rt (JObject [(''beta'', JBool True)])) ''twin''";
        cases "the (trace_variable_unchecked (example_env rt (JObject [(''beta'', JBool True)])) ''twin'')") auto
  have "lint_shadowed_variable_rules twin_index = [shadow_diagnostic ''twin'' ((when_rule flag_condition (JString ''b''))\<lparr>rn_index := 1\<rparr>, source flag_condition)]"
    using twin_facts(2)
    by (simp add: lint_shadowed_variable_rules_def twin_index_def twin_variable_def plain_variable_def twin_rules_def
        when_rule_def)
  then have d: "shadow_diagnostic ''twin'' ((when_rule flag_condition (JString ''b''))\<lparr>rn_index := 1\<rparr>, source flag_condition)
      \<in> set (lint_shadowed_variable_rules twin_index)" by simp
  have target: "gd_target (shadow_diagnostic ''twin'' ((when_rule flag_condition (JString ''b''))\<lparr>rn_index := 1\<rparr>, source flag_condition))
      = field_target (ERule ''twin'' 1) FVariableRuleWhen"
    by (simp add: shadow_diagnostic_def when_rule_def)
  have "(example_env rt (JObject [(''beta'', JBool True)]))\<lparr>re_runtime := rt\<rparr> = example_env rt (JObject [(''beta'', JBool True)])"
    by (simp add: example_env_def)
  with shadowed_rule_never_fires [OF rt twin_facts(4,1,2,5) _ d target, of "example_env rt (JObject [(''beta'', JBool True)])" t] t rt
  show ?thesis by (auto simp: twin_facts(3))
qed

end
