(* ===== verification/Spec2Isabelle.thy ===== *)
theory Spec2Isabelle
  imports Prelude Collections Json Governance Predicates Address Cel_Analysis Effects Evaluation Runtime Hydrate
    Resolve Memo Select Composition Layering Enforcement Sources Refresh SourceGraph
    Tokens Fetch LayerLint Upcoming Cycles Diff DiffArms Impact
    Contexts ContextReads ContextLint RuleLint
begin

text \<open>
  The core of rototo, a configuration package manager and resolver written in Rust: what a package
  means, how packages are laid on each other, where they come from and what a variable
  resolves to in a context. Paths below are under src/src/ of the repository.

  \<^bold>\<open>The parts and how they meet.\<close> A \<^emph>\<open>source\<close> (a directory, a git repository, an https archive)
  is fetched with everything it extends, and every layer is checked against the governance
  contract of what is below it before it is copied on the projection. The projection is indexed, linted
  and compiled to a \<^emph>\<open>runtime package\<close>; a variable of it resolves to a value by rules, by a query over
  a catalog or by an experiment's allocation, whose conditions are CEL expressions that may
  reference other variables, lists and catalog entries. A long-lived client keeps the package fresh
  by probing its sources.

  \<^bold>\<open>Theories, in the order of the code.\<close>
  \<^item> Prelude, Collections, Json, Effects: results and early returns, strings of the Rust library,
    ordered maps and stable sorting (the locales \<open>ordered_map\<close> and \<open>comparator\<close>), JSON and TOML values,
    fallible code over a state on fuel.
  \<^item> Predicates (predicate.rs), Address (address.rs), Governance (source/governance.rs): timestamps
    and CIDR blocks, the addressing grammar, the contract and its patterns.
  \<^item> Cel_Analysis (expression/references.rs, types.rs, upcoming.rs) and Evaluation
    (expression/mod.rs, eval.rs, the hash of resolve.rs): what an expression reads and what it evaluates to.
  \<^item> Runtime (lint/index/nodes.rs, lint/runtime.rs): the semantic index and its compilation.
  \<^item> Hydrate (resolve/hydrate.rs), Resolve, Memo, Select (resolve.rs): the view of a catalog entry,
    resolution over the cache and the cycle check, its agreement with resolution without them, and what
    each of the three methods selects.
  \<^item> Composition, Layering, Enforcement (source/layer/): how one file lands, how a layer lands, what the
    contract lets it change.
  \<^item> Sources, SourceGraph (source/types.rs, uri.rs, path.rs, load.rs, local.rs, layer/graph.rs), Tokens
    (source/auth.rs), Fetch (source/archive.rs, git.rs, pin.rs): URIs, the extends graph, tokens, archives,
    clones and probes.
  \<^item> Refresh (sdk/refresh.rs, part of sdk.rs): the state machine of a refreshing package.
  \<^item> LayerLint (lint/builtins/layers.rs), Upcoming (lint/upcoming.rs), Cycles (lint/references.rs,
    lint/builtins/graph.rs): lints whose promise is about resolution.
  \<^item> Diff, DiffArms, Impact (lint/diff.rs): the semantic diff of two packages, its classification of an edit
    of arms, and the effect of an edit on what variables resolve to.
  \<^item> Contexts, ContextReads, ContextLint (lint/evaluation_context.rs, lint/builtins/evaluation_context.rs), RuleLint
    (lint/builtins/graph.rs): what a variable reads of the context and which declared contexts provide it, what this
    promises about resolution, and the lints of contexts, samples and rules.

  \<^bold>\<open>How code becomes definitions.\<close> A function keeps its name where HOL allows it, a struct is a
  record, an enum a datatype, a \<open>BTreeMap\<close> an association list in key order, \<open>Result\<close> a sum whose left side is
  the error text. Integers whose width matters are words (bucket lines, byte limits, the FNV hash). A
  \<open>&mut\<close> state is passed in and returned with every result, errors included. Source locations of diagnostics
  are left out.

  \<^bold>\<open>Parameters.\<close> Crates and services are arguments: the CEL engine and parser, regex, glob, semver and IP
  crates, JSON schema validation and JSON pointers, the TOML codec, HTTP, git, tar and the file system, the
  clock. A law of one of them is a hypothesis with a name of its own, and its witness runs on a concrete function.

  \<^bold>\<open>What the lemmas show.\<close> Each theory states the functional behaviour of its operations with their errors,
  the invariant of its state where it has one, and then its main properties; the text before a property says what
  it claims. The last section of this theory joins compilation and resolution.

  \<^bold>\<open>Fuel.\<close> Resolution runs on \<open>resolution_fuel\<close>, one more than the number of variables, because the set of
  variables being resolved grows with each reference (\<open>resolution_ends\<close>). Hydration needs a bound on the
  sizes of schemas times the number of entries (\<open>hydration_ends\<close>), and no fuel is enough for a schema
  that refers to itself (\<open>self_ref_never_ends\<close>). Loading what a source extends needs 33, one
  more than the depth limit (\<open>extends_loading_ends\<close>). The search for components needs one more than the number
  of variables (\<open>components_exact\<close> in Cycles), and so does the walk of Contexts (\<open>compatibility_exact\<close>). The walk
  over a sample follows local references and ends for no fuel when a schema refers to itself
  (\<open>self_reference_never_ends\<close>).

  \<^bold>\<open>Not modelled.\<close> The command line, the language server, the editor's symbols and completions, documentation
  and package rendering, custom Lua lints and the console applications: front ends over the operations above. The
  construction of the index from TOML syntax trees with source spans and the remaining built-in lints read
  positions and produce messages. The edit engine rewrites documents of the \<open>toml_edit\<close> crate in place. The
  staging of pins is file and process work around git.
\<close>

section \<open>From a package to a value\<close>

lemma runtime_package_fields:
  assumes "compile_runtime_package compatible ctx_dependent provenance ix = Inr rt"
  obtains rt0 where "compile_package compatible ctx_dependent ix = Inr rt0"
    "rp_variables rt = rp_variables rt0" "rp_catalog_entries rt = rp_catalog_entries rt0"
  using assms by (auto simp: compile_runtime_package_def rbind_eq_Inr)

lemma resolve_variable_parts:
  assumes "resolve_variable env package i = Some (Inr r)"
  obtains rt t where "package = Inr rt" "is_ok (validate_context_for_variable rt i (re_context env))"
    "trace_variable_unchecked (env\<lparr>re_runtime := rt\<rparr>) i = Some (Inr t)" "r = tr_resolution t"
  using assms
  by (cases package)
    (auto simp: resolve_variable_def resolve_variable_iff rbind_def split: sum.splits)



end
